(* ===== verification/Prelude.thy ===== *)
theory Prelude
  imports Complex_Main "HOL-Library.Word" "HOL-Library.Multiset"
    "HOL-Library.Char_ord" "HOL-Library.List_Lexorder" "HOL-Library.Product_Lexorder"
begin

text \<open>
  Shared vocabulary of the development: results (\<open>Result<T, E>\<close>), Rust's fixed-width
  integers read as \<open>int\<close> and \<open>nat\<close> with their range behaviour written out, decimal
  printing, identifiers, stable sorting by a comparator, and the generic list lemmas the
  components use.
\<close>

named_theorems result_simps \<open>case rules for results and their sequencing\<close>
named_theorems i32_simps \<open>unfolding of the fixed-width integer conversions\<close>

subsection \<open>Results\<close>

text \<open>
  \<open>Result<T, E>\<close> is a sum with the error on the left. The question-mark operator is
  \<open>and_then\<close>; \<open>ensure!\<close> and early returns are \<open>ensure\<close>; collecting an iterator of
  results into a result of a vector is \<open>traverse\<close>, which stops at the first error.
\<close>

type_synonym ('e, 'a) result = "'e + 'a"

abbreviation Ok :: "'a \<Rightarrow> ('e, 'a) result" where "Ok \<equiv> Inr"
abbreviation Err :: "'e \<Rightarrow> ('e, 'a) result" where "Err \<equiv> Inl"

definition and_then :: "('e, 'a) result \<Rightarrow> ('a \<Rightarrow> ('e, 'b) result) \<Rightarrow> ('e, 'b) result" where
  "and_then r f = (case r of Inl e \<Rightarrow> Inl e | Inr x \<Rightarrow> f x)"

definition ensure :: "bool \<Rightarrow> 'e \<Rightarrow> ('e, unit) result" where
  "ensure b e = (if b then Ok () else Err e)"

definition ok_or :: "'a option \<Rightarrow> 'e \<Rightarrow> ('e, 'a) result" where
  "ok_or x e = (case x of None \<Rightarrow> Err e | Some v \<Rightarrow> Ok v)"

definition map_err :: "('e \<Rightarrow> 'f) \<Rightarrow> ('e, 'a) result \<Rightarrow> ('f, 'a) result" where
  "map_err f r = (case r of Inl e \<Rightarrow> Inl (f e) | Inr x \<Rightarrow> Inr x)"

fun traverse :: "('a \<Rightarrow> ('e, 'b) result) \<Rightarrow> 'a list \<Rightarrow> ('e, 'b list) result" where
  "traverse f [] = Ok []"
| "traverse f (x # xs) = and_then (f x) (\<lambda>y. and_then (traverse f xs) (\<lambda>ys. Ok (y # ys)))"

fun fold_result :: "('s \<Rightarrow> 'a \<Rightarrow> ('e, 's) result) \<Rightarrow> 's \<Rightarrow> 'a list \<Rightarrow> ('e, 's) result" where
  "fold_result f s [] = Ok s"
| "fold_result f s (x # xs) = and_then (f s x) (\<lambda>s'. fold_result f s' xs)"

lemma and_then_simps [simp, result_simps]:
  "and_then (Err e) f = Err e"
  "and_then (Ok x) f = f x"
  by (simp_all add: and_then_def)

lemma and_then_Ok_iff [result_simps]:
  "and_then r f = Ok y \<longleftrightarrow> (\<exists>x. r = Ok x \<and> f x = Ok y)"
  by (cases r) simp_all

lemma and_then_Err_iff [result_simps]:
  "and_then r f = Err e \<longleftrightarrow> r = Err e \<or> (\<exists>x. r = Ok x \<and> f x = Err e)"
  by (cases r) simp_all

lemma and_then_assoc: "and_then (and_then r f) g = and_then r (\<lambda>x. and_then (f x) g)"
  by (cases r) simp_all

lemma ensure_Ok_iff [simp, result_simps]: "ensure b e = Ok u \<longleftrightarrow> b"
  by (cases u) (simp add: ensure_def)

lemma ensure_Err_iff [simp, result_simps]: "ensure b e = Err e' \<longleftrightarrow> \<not> b \<and> e' = e"
  by (auto simp: ensure_def)

lemma ok_or_simps [simp]: "ok_or None e = Err e" "ok_or (Some v) e = Ok v"
  by (simp_all add: ok_or_def)

lemma ok_or_Ok_iff [simp, result_simps]: "ok_or x e = Ok y \<longleftrightarrow> x = Some y"
  by (cases x) (auto simp: ok_or_def)

lemma ok_or_Err_iff [simp, result_simps]: "ok_or x e = Err e' \<longleftrightarrow> x = None \<and> e' = e"
  by (cases x) (auto simp: ok_or_def)

lemma map_err_Ok_iff [simp, result_simps]: "map_err f r = Ok y \<longleftrightarrow> r = Ok y"
  by (cases r) (auto simp: map_err_def)

lemma map_err_Err_iff [simp, result_simps]: "map_err f r = Err e \<longleftrightarrow> (\<exists>d. r = Err d \<and> e = f d)"
  by (cases r) (auto simp: map_err_def)

lemma traverse_Ok_iff:
  "traverse f xs = Ok ys \<longleftrightarrow> list_all2 (\<lambda>x y. f x = Ok y) xs ys"
proof (induction xs arbitrary: ys)
  case Nil
  then show ?case by auto
next
  case (Cons x xs)
  then show ?case by (cases ys) (auto simp: and_then_Ok_iff)
qed

lemma traverse_length: "traverse f xs = Ok ys \<Longrightarrow> length ys = length xs"
  by (auto simp: traverse_Ok_iff dest: list_all2_lengthD)

lemma traverse_nth:
  "traverse f xs = Ok ys \<Longrightarrow> i < length xs \<Longrightarrow> f (xs ! i) = Ok (ys ! i)"
  by (auto simp: traverse_Ok_iff dest: list_all2_nthD)

lemma traverse_total:
  "(\<And>x. x \<in> set xs \<Longrightarrow> f x = Ok (g x)) \<Longrightarrow> traverse f xs = Ok (map g xs)"
  by (induction xs) simp_all

lemma traverse_ErrD:
  "traverse f xs = Err e \<Longrightarrow> \<exists>x \<in> set xs. f x = Err e"
  by (induction xs) (auto simp: and_then_Err_iff)

lemma fold_result_append:
  "fold_result f s (xs @ ys) = and_then (fold_result f s xs) (\<lambda>s'. fold_result f s' ys)"
proof (induction xs arbitrary: s)
  case Nil
  then show ?case by simp
next
  case (Cons x xs)
  then show ?case by (cases "f s x") simp_all
qed

text \<open>A loop body that keeps an invariant keeps it over the whole loop.\<close>

lemma fold_result_invariant:
  assumes "fold_result f s xs = Ok t" and "P s"
    and "\<And>s x s'. x \<in> set xs \<Longrightarrow> P s \<Longrightarrow> f s x = Ok s' \<Longrightarrow> P s'"
  shows "P t"
  using assms
proof (induction xs arbitrary: s)
  case Nil
  then show ?case by simp
next
  case (Cons x xs)
  from Cons.prems(1) obtain s' where s': "f s x = Ok s'" "fold_result f s' xs = Ok t"
    by (auto simp: and_then_Ok_iff)
  from Cons.prems(3) [OF _ Cons.prems(2) s'(1)] have "P s'" by simp
  show ?case
    by (rule Cons.IH [OF s'(2) \<open>P s'\<close>]) (auto intro: Cons.prems(3))
qed

lemma fold_result_total:
  assumes "P s" and "\<And>s x. x \<in> set xs \<Longrightarrow> P s \<Longrightarrow> \<exists>s'. f s x = Ok s' \<and> P s'"
  shows "\<exists>t. fold_result f s xs = Ok t \<and> P t"
  using assms
proof (induction xs arbitrary: s)
  case Nil
  then show ?case by simp
next
  case (Cons x xs)
  from Cons.prems obtain s' where "f s x = Ok s'" "P s'" by fastforce
  with Cons.IH [of s'] Cons.prems(2) show ?case by simp
qed

subsection \<open>Fixed-width integers\<close>

text \<open>
  \<open>i32\<close> values are integers in \<open>i32_range\<close>; release builds wrap, which \<open>wrap_i32\<close>
  writes out. \<open>usize\<close> and \<open>u64\<close> are naturals up to \<open>u64_max\<close> (64-bit targets).
\<close>

type_synonym i32 = int
type_synonym usize = nat
type_synonym u64 = nat

definition i32_min :: int where "i32_min = -2147483648"
definition i32_max :: int where "i32_max = 2147483647"
definition u64_max :: nat where "u64_max = 18446744073709551615"

definition i32_range :: "int \<Rightarrow> bool" where
  "i32_range n \<longleftrightarrow> i32_min \<le> n \<and> n \<le> i32_max"

definition wrap_i32 :: "int \<Rightarrow> int" where
  "wrap_i32 n = (n + 2147483648) mod 4294967296 - 2147483648"

definition usize_try_from :: "int \<Rightarrow> nat option" where
  "usize_try_from n = (if 0 \<le> n then Some (nat n) else None)"

definition i32_try_from :: "nat \<Rightarrow> int option" where
  "i32_try_from n = (if int n \<le> i32_max then Some (int n) else None)"

definition saturating_add :: "nat \<Rightarrow> nat \<Rightarrow> nat" where
  "saturating_add a b = min (a + b) u64_max"

definition saturating_mul :: "nat \<Rightarrow> nat \<Rightarrow> nat" where
  "saturating_mul a b = min (a * b) u64_max"

definition saturating_sub :: "nat \<Rightarrow> nat \<Rightarrow> nat" where
  "saturating_sub a b = a - b"

definition checked_add :: "nat \<Rightarrow> nat \<Rightarrow> nat option" where
  "checked_add a b = (if a + b \<le> u64_max then Some (a + b) else None)"

definition range_contains :: "int \<Rightarrow> int \<Rightarrow> int \<Rightarrow> bool" where
  "range_contains lo hi n \<longleftrightarrow> lo \<le> n \<and> n < hi"

definition unwrap_or :: "'a option \<Rightarrow> 'a \<Rightarrow> 'a" where
  "unwrap_or x d = (case x of None \<Rightarrow> d | Some v \<Rightarrow> v)"

lemmas i32_defs = i32_min_def i32_max_def i32_range_def

lemma wrap_i32_id [simp]: "i32_range n \<Longrightarrow> wrap_i32 n = n"
  by (simp add: wrap_i32_def i32_defs)

lemma wrap_i32_range [simp]: "i32_range (wrap_i32 n)"
  by (simp add: wrap_i32_def i32_defs)

lemma usize_try_from_simps [simp, i32_simps]:
  "usize_try_from n = Some k \<longleftrightarrow> 0 \<le> n \<and> k = nat n"
  "usize_try_from n = None \<longleftrightarrow> n < 0"
  "usize_try_from (int m) = Some m"
  by (auto simp: usize_try_from_def)

lemma i32_try_from_Some [simp, i32_simps]:
  "i32_try_from n = Some k \<longleftrightarrow> k = int n \<and> int n \<le> i32_max"
  by (auto simp: i32_try_from_def)

lemma unwrap_or_simps [simp]:
  "unwrap_or None d = d" "unwrap_or (Some v) d = v"
  by (simp_all add: unwrap_or_def)

lemma saturating_add_le_max [simp]: "saturating_add a b \<le> u64_max"
  by (simp add: saturating_add_def)

lemma saturating_add_exact: "a + b \<le> u64_max \<Longrightarrow> saturating_add a b = a + b"
  by (simp add: saturating_add_def)

lemma saturating_add_mono: "a \<le> c \<Longrightarrow> saturating_add a b \<le> saturating_add c b"
  by (simp add: saturating_add_def)

lemma saturating_add_ge: "b \<le> u64_max \<Longrightarrow> b \<le> saturating_add a b"
  by (simp add: saturating_add_def)

subsection \<open>Identifiers and printing\<close>

text \<open>
  A UUID is 128 bits; its order is the order of those bits. Its printed form is the
  \<open>uuid\<close> crate's, which is not part of this repository: functions that print one take
  the printer as an argument.
\<close>

type_synonym uuid = "128 word"

fun show_nat :: "nat \<Rightarrow> string" where
  "show_nat n = (if n < 10 then [char_of (48 + n)]
                 else show_nat (n div 10) @ [char_of (48 + n mod 10)])"

declare show_nat.simps [simp del]

definition show_int :: "int \<Rightarrow> string" where
  "show_int n = (if n < 0 then ''-'' @ show_nat (nat (- n)) else show_nat (nat n))"

fun join :: "string \<Rightarrow> string list \<Rightarrow> string" where
  "join sep [] = []"
| "join sep [x] = x"
| "join sep (x # y # ys) = x @ sep @ join sep (y # ys)"

subsection \<open>Stable sorting by a comparator\<close>

text \<open>
  \<open>slice::sort_by\<close> is a stable sort; \<open>sort_by le\<close> inserts each element before the
  first one it does not exceed, which is the same list for a total preorder.
\<close>

fun insert_by :: "('a \<Rightarrow> 'a \<Rightarrow> bool) \<Rightarrow> 'a \<Rightarrow> 'a list \<Rightarrow> 'a list" where
  "insert_by le x [] = [x]"
| "insert_by le x (y # ys) = (if le x y then x # y # ys else y # insert_by le x ys)"

fun sort_by :: "('a \<Rightarrow> 'a \<Rightarrow> bool) \<Rightarrow> 'a list \<Rightarrow> 'a list" where
  "sort_by le [] = []"
| "sort_by le (x # xs) = insert_by le x (sort_by le xs)"

lemma mset_insert_by [simp]: "mset (insert_by le x xs) = add_mset x (mset xs)"
  by (induction xs) simp_all

lemma mset_sort_by [simp]: "mset (sort_by le xs) = mset xs"
  by (induction xs) simp_all

lemma set_insert_by [simp]: "set (insert_by le x xs) = insert x (set xs)"
  by (induction xs) auto

lemma set_sort_by [simp]: "set (sort_by le xs) = set xs"
  by (induction xs) simp_all

lemma length_sort_by [simp]: "length (sort_by le xs) = length xs"
  by (metis mset_sort_by size_mset)

lemma distinct_sort_by [simp]: "distinct (sort_by le xs) = distinct xs"
  by (metis mset_sort_by mset_eq_imp_distinct_iff)

lemma sort_by_eq_Nil [simp]: "sort_by le xs = [] \<longleftrightarrow> xs = []"
  by (metis length_0_conv length_sort_by)

text \<open>\<open>Iterator::min_by\<close> keeps the first of several minima.\<close>

fun min_by :: "('a \<Rightarrow> 'a \<Rightarrow> bool) \<Rightarrow> 'a list \<Rightarrow> 'a option" where
  "min_by le [] = None"
| "min_by le (x # xs) = Some (foldl (\<lambda>m y. if le m y then m else y) x xs)"

lemma foldl_min_mem: "foldl (\<lambda>m y. if le m y then m else y) x xs \<in> insert x (set xs)"
  by (induction xs arbitrary: x) auto

lemma min_by_mem: "min_by le xs = Some y \<Longrightarrow> y \<in> set xs"
  using foldl_min_mem [of le "hd xs" "tl xs"] by (cases xs) auto

lemma min_by_None [simp]: "min_by le xs = None \<longleftrightarrow> xs = []"
  by (cases xs) simp_all

locale total_preorder =
  fixes le :: "'a \<Rightarrow> 'a \<Rightarrow> bool"
  assumes le_total: "le x y \<or> le y x"
    and le_trans: "le x y \<Longrightarrow> le y z \<Longrightarrow> le x z"
begin

lemma le_refl: "le x x"
  using le_total [of x x] by simp

lemma sorted_insert_by: "sorted_wrt le xs \<Longrightarrow> sorted_wrt le (insert_by le x xs)"
proof (induction xs)
  case Nil
  then show ?case by simp
next
  case (Cons y ys)
  then show ?case
    using le_total [of x y] by (auto intro: le_trans)
qed

lemma sorted_sort_by: "sorted_wrt le (sort_by le xs)"
  by (induction xs) (simp_all add: sorted_insert_by)

lemma insert_by_first: "(\<And>y. y \<in> set ys \<Longrightarrow> le x y) \<Longrightarrow> insert_by le x ys = x # ys"
  by (cases ys) simp_all

lemma sort_by_sorted: "sorted_wrt le xs \<Longrightarrow> sort_by le xs = xs"
  by (induction xs) (simp_all add: insert_by_first)

text \<open>The first element of a sorted list is a minimum.\<close>

lemma sort_by_hd_min:
  assumes "sort_by le xs = y # ys" and "z \<in> set xs"
  shows "le y z"
proof -
  have "z \<in> set (y # ys)" using assms set_sort_by [of le xs] by simp
  with sorted_sort_by [of xs] assms(1) show ?thesis by (auto simp: le_refl)
qed

lemma foldl_min_le:
  "le (foldl (\<lambda>m y. if le m y then m else y) x xs) x \<and>
   (\<forall>z \<in> set xs. le (foldl (\<lambda>m y. if le m y then m else y) x xs) z)"
proof (induction xs arbitrary: x)
  case Nil
  then show ?case by (simp add: le_refl)
next
  case (Cons y ys)
  let ?m = "if le x y then x else y"
  have "le ?m x" and "le ?m y" using le_total [of x y] le_refl by auto
  moreover have "le (foldl (\<lambda>m y. if le m y then m else y) ?m ys) ?m"
    and "\<forall>z \<in> set ys. le (foldl (\<lambda>m y. if le m y then m else y) ?m ys) z"
    using Cons.IH by blast+
  ultimately show ?case using le_trans by simp
qed

lemma min_by_least: "min_by le xs = Some y \<Longrightarrow> z \<in> set xs \<Longrightarrow> le y z"
  using foldl_min_le by (cases xs) auto

text \<open>
  Where no two different elements are equivalent, the sorted list does not depend on the
  order of its input: two inputs with the same elements sort to the same list.
\<close>

lemma sorted_perm_unique:
  assumes "mset xs = mset ys" and "sorted_wrt le xs" and "sorted_wrt le ys"
    and "\<And>a b. a \<in> set xs \<Longrightarrow> b \<in> set xs \<Longrightarrow> le a b \<Longrightarrow> le b a \<Longrightarrow> a = b"
  shows "xs = ys"
  using assms
proof (induction xs arbitrary: ys)
  case Nil
  then show ?case by simp
next
  case (Cons x xs)
  from Cons.prems(1) obtain y ys' where ys: "ys = y # ys'" by (cases ys) auto
  have mem: "set ys = set (x # xs)" using Cons.prems(1) by (metis set_mset_mset)
  have "y \<in> set (x # xs)" and "x \<in> set (y # ys')" using mem ys by auto
  then have "le x y" and "le y x" using Cons.prems(2,3) ys le_refl by auto
  then have xy: "x = y" using Cons.prems(4) [of x y] mem ys by auto
  moreover have "xs = ys'"
    by (rule Cons.IH) (use Cons.prems ys xy in auto)
  ultimately show ?case using ys by simp
qed

lemma sort_by_order_irrelevant:
  assumes "mset xs = mset ys"
    and "\<And>a b. a \<in> set xs \<Longrightarrow> b \<in> set xs \<Longrightarrow> le a b \<Longrightarrow> le b a \<Longrightarrow> a = b"
  shows "sort_by le xs = sort_by le ys"
  by (rule sorted_perm_unique) (use assms in \<open>auto simp: sorted_sort_by\<close>)

end

subsection \<open>Lists\<close>

lemma sorted_wrt_nth_less_iff:
  "sorted_wrt P xs \<longleftrightarrow> (\<forall>i j. i < j \<longrightarrow> j < length xs \<longrightarrow> P (xs ! i) (xs ! j))"
  by (rule sorted_wrt_iff_nth_less)

lemma foldl_invariant:
  "P s \<Longrightarrow> (\<And>s x. x \<in> set xs \<Longrightarrow> P s \<Longrightarrow> P (f s x)) \<Longrightarrow> P (foldl f s xs)"
  by (induction xs arbitrary: s) auto

lemma foldl_length:
  "(\<And>s x. length (f s x) = length s) \<Longrightarrow> length (foldl f s xs) = length s"
  by (induction xs arbitrary: s) auto

text \<open>\<open>Iterator::sum\<close> and accumulation loops visit their list from the left.\<close>

lemma foldl_filter_skip:
  "foldl (\<lambda>s x. if P x then f s x else s) s xs = foldl f s (filter P xs)"
  by (induction xs arbitrary: s) auto

end
