(* ===== verification/F64.thy ===== *)
theory F64
  imports Prelude
begin

text \<open>
  Rust's \<open>f64\<close>: IEEE 754 binary64 with rounding to nearest, ties to even. A finite non-zero
  value (and positive zero) is \<open>Fin q\<close> for the rational it denotes; negative zero, the two
  infinities and NaN are values of their own. There is one NaN, read as positive, because
  Rust leaves sign and payload of a computed NaN open. Every operation computes the exact
  rational result and rounds it once (\<open>round64\<close>).

  HOL equality on this type is equality of the datum (it tells the zeros apart and holds of
  NaN); Rust's \<open>==\<close> and \<open><\<close> are \<open>f_eq\<close> and \<open>f_lt\<close>. The class order \<open>\<le>\<close> is
  \<open>f64::total_cmp\<close>.
\<close>

named_theorems f64_simps \<open>evaluation of binary64 operations on literals\<close>

datatype f64 = NaN | PosInf | NegInf | NegZero | Fin rat

subsection \<open>Rounding\<close>

function int_log2 :: "int \<Rightarrow> nat" where
  "int_log2 n = (if n \<le> 1 then 0 else Suc (int_log2 (n div 2)))"
  by pat_completeness auto
termination
  by (relation "measure nat") auto

declare int_log2.simps [simp del]

definition pow2 :: "int \<Rightarrow> rat" where
  "pow2 u = 2 powi u"

text \<open>\<open>ilog2 q\<close> is the exponent of the leading bit of a positive rational.\<close>

definition ilog2 :: "rat \<Rightarrow> int" where
  "ilog2 q = (let (n, d) = quotient_of q;
                  e = int (int_log2 n) - int (int_log2 d)
              in if pow2 e \<le> q then e else e - 1)"

text \<open>Round half to even.\<close>

definition rne :: "rat \<Rightarrow> int" where
  "rne q = (let f = \<lfloor>q\<rfloor>; r = q - of_int f
            in if r < 1 / 2 then f else if 1 / 2 < r then f + 1
               else if even f then f else f + 1)"

text \<open>52 fraction bits below the leading one, but never below the subnormal unit.\<close>

definition unit_exp :: "rat \<Rightarrow> int" where
  "unit_exp q = max (ilog2 q - 52) (- 1074)"

definition round_mag :: "rat \<Rightarrow> rat" where
  "round_mag q = of_int (rne (q / pow2 (unit_exp q))) * pow2 (unit_exp q)"

definition round64 :: "rat \<Rightarrow> f64" where
  "round64 q =
     (if q = 0 then Fin 0
      else let r = round_mag \<bar>q\<bar>
           in if 2 ^ 1024 \<le> r then (if q < 0 then NegInf else PosInf)
              else if r = 0 then (if q < 0 then NegZero else Fin 0)
              else Fin (if q < 0 then - r else r))"

subsection \<open>Classification and arithmetic\<close>

fun f_val :: "f64 \<Rightarrow> rat" where
  "f_val (Fin q) = q"
| "f_val _ = 0"

fun is_nan :: "f64 \<Rightarrow> bool" where
  "is_nan NaN = True"
| "is_nan _ = False"

fun is_finite :: "f64 \<Rightarrow> bool" where
  "is_finite (Fin q) = True"
| "is_finite NegZero = True"
| "is_finite _ = False"

fun is_zero :: "f64 \<Rightarrow> bool" where
  "is_zero (Fin q) = (q = 0)"
| "is_zero NegZero = True"
| "is_zero _ = False"

fun sign_neg :: "f64 \<Rightarrow> bool" where
  "sign_neg NegInf = True"
| "sign_neg NegZero = True"
| "sign_neg (Fin q) = (q < 0)"
| "sign_neg _ = False"

definition zero_of :: "bool \<Rightarrow> f64" where
  "zero_of s = (if s then NegZero else Fin 0)"

definition inf_of :: "bool \<Rightarrow> f64" where
  "inf_of s = (if s then NegInf else PosInf)"

fun f_neg :: "f64 \<Rightarrow> f64" where
  "f_neg NaN = NaN"
| "f_neg PosInf = NegInf"
| "f_neg NegInf = PosInf"
| "f_neg NegZero = Fin 0"
| "f_neg (Fin q) = (if q = 0 then NegZero else Fin (- q))"

fun f_abs :: "f64 \<Rightarrow> f64" where
  "f_abs NaN = NaN"
| "f_abs PosInf = PosInf"
| "f_abs NegInf = PosInf"
| "f_abs NegZero = Fin 0"
| "f_abs (Fin q) = Fin \<bar>q\<bar>"

definition f_add :: "f64 \<Rightarrow> f64 \<Rightarrow> f64" where
  "f_add x y =
     (if is_nan x \<or> is_nan y then NaN
      else if \<not> is_finite x \<and> \<not> is_finite y then (if x = y then x else NaN)
      else if \<not> is_finite x then x
      else if \<not> is_finite y then y
      else if x = NegZero \<and> y = NegZero then NegZero
      else round64 (f_val x + f_val y))"

definition f_sub :: "f64 \<Rightarrow> f64 \<Rightarrow> f64" where
  "f_sub x y = f_add x (f_neg y)"

definition f_mul :: "f64 \<Rightarrow> f64 \<Rightarrow> f64" where
  "f_mul x y =
     (let s = (sign_neg x \<noteq> sign_neg y)
      in if is_nan x \<or> is_nan y then NaN
         else if \<not> is_finite x \<or> \<not> is_finite y
              then (if is_zero x \<or> is_zero y then NaN else inf_of s)
         else if is_zero x \<or> is_zero y then zero_of s
         else round64 (f_val x * f_val y))"

definition f_div :: "f64 \<Rightarrow> f64 \<Rightarrow> f64" where
  "f_div x y =
     (let s = (sign_neg x \<noteq> sign_neg y)
      in if is_nan x \<or> is_nan y then NaN
         else if \<not> is_finite x then (if is_finite y then inf_of s else NaN)
         else if \<not> is_finite y then zero_of s
         else if is_zero y then (if is_zero x then NaN else inf_of s)
         else if is_zero x then zero_of s
         else round64 (f_val x / f_val y))"

text \<open>\<open>f64::mul_add\<close>: the product is not rounded before the addition.\<close>

definition f_fma :: "f64 \<Rightarrow> f64 \<Rightarrow> f64 \<Rightarrow> f64" where
  "f_fma x y z =
     (let s = (sign_neg x \<noteq> sign_neg y)
      in if is_nan x \<or> is_nan y \<or> is_nan z then NaN
         else if \<not> is_finite x \<or> \<not> is_finite y
              then (if is_zero x \<or> is_zero y then NaN
                    else if is_finite z \<or> z = inf_of s then inf_of s else NaN)
         else if \<not> is_finite z then z
         else if (is_zero x \<or> is_zero y) \<and> is_zero z
              then (if s = sign_neg z then zero_of s else Fin 0)
         else round64 (f_val x * f_val y + f_val z))"

definition f_recip :: "f64 \<Rightarrow> f64" where
  "f_recip x = f_div (Fin 1) x"

fun f_signum :: "f64 \<Rightarrow> f64" where
  "f_signum NaN = NaN"
| "f_signum x = (if sign_neg x then Fin (- 1) else Fin 1)"

fun f_ceil :: "f64 \<Rightarrow> f64" where
  "f_ceil (Fin q) = (if q < 0 \<and> \<lceil>q\<rceil> = 0 then NegZero else round64 (of_int \<lceil>q\<rceil>))"
| "f_ceil x = x"

subsection \<open>Comparisons\<close>

definition f_lt :: "f64 \<Rightarrow> f64 \<Rightarrow> bool" where
  "f_lt x y \<longleftrightarrow> \<not> is_nan x \<and> \<not> is_nan y \<and>
     (if x = PosInf \<or> y = NegInf then False
      else if x = NegInf \<or> y = PosInf then True
      else f_val x < f_val y)"

definition f_eq :: "f64 \<Rightarrow> f64 \<Rightarrow> bool" where
  "f_eq x y \<longleftrightarrow> \<not> is_nan x \<and> \<not> is_nan y \<and>
     (if is_finite x \<and> is_finite y then f_val x = f_val y else x = y)"

definition f_le :: "f64 \<Rightarrow> f64 \<Rightarrow> bool" where
  "f_le x y \<longleftrightarrow> f_lt x y \<or> f_eq x y"

abbreviation f_gt :: "f64 \<Rightarrow> f64 \<Rightarrow> bool" where "f_gt x y \<equiv> f_lt y x"
abbreviation f_ge :: "f64 \<Rightarrow> f64 \<Rightarrow> bool" where "f_ge x y \<equiv> f_le y x"

text \<open>\<open>f64::max\<close> and \<open>f64::min\<close> return the other operand where one is NaN.\<close>

definition f_max :: "f64 \<Rightarrow> f64 \<Rightarrow> f64" where
  "f_max x y = (if is_nan x then y else if is_nan y then x else if f_lt x y then y else x)"

definition f_min :: "f64 \<Rightarrow> f64 \<Rightarrow> f64" where
  "f_min x y = (if is_nan x then y else if is_nan y then x else if f_lt y x then y else x)"

text \<open>\<open>f64::clamp\<close> for bounds that are not NaN; a NaN receiver stays NaN.\<close>

definition f_clamp :: "f64 \<Rightarrow> f64 \<Rightarrow> f64 \<Rightarrow> f64" where
  "f_clamp x lo hi = (if f_lt x lo then lo else if f_lt hi x then hi else x)"

text \<open>\<open>Iterator::sum\<close> over \<open>f64\<close> folds from negative zero.\<close>

definition f_sum :: "f64 list \<Rightarrow> f64" where
  "f_sum xs = foldl f_add NegZero xs"

text \<open>Integer conversions (\<open>f64::from\<close>, \<open>as f64\<close>, a parsed decimal integer) round once.\<close>

definition f_of_int :: "int \<Rightarrow> f64" where
  "f_of_int n = round64 (of_int n)"

text \<open>
  Printing with zero decimals and parsing the digits as \<open>usize\<close>: an infinity or NaN does not
  parse, nor does a leading minus sign (so neither does negative zero), nor a value above
  \<open>usize::MAX\<close>.
\<close>

fun parse_usize_of_fmt0 :: "f64 \<Rightarrow> nat option" where
  "parse_usize_of_fmt0 (Fin q) =
     (if 0 \<le> q \<and> nat (rne q) \<le> u64_max then Some (nat (rne q)) else None)"
| "parse_usize_of_fmt0 _ = None"

text \<open>The IEEE encoding and \<open>f64::to_le_bytes\<close>.\<close>

fun f64_bits :: "f64 \<Rightarrow> nat" where
  "f64_bits NaN = 9221120237041090560"
| "f64_bits PosInf = 9218868437227405312"
| "f64_bits NegInf = 9218868437227405312 + 2 ^ 63"
| "f64_bits NegZero = 2 ^ 63"
| "f64_bits (Fin q) =
     (if q = 0 then 0
      else let u = unit_exp \<bar>q\<bar>; m = nat \<lfloor>\<bar>q\<bar> / pow2 u\<rfloor>
           in (if q < 0 then 2 ^ 63 else 0) +
              (if m < 2 ^ 52 then m else nat (u + 1075) * 2 ^ 52 + (m - 2 ^ 52)))"

definition f64_to_le_bytes :: "f64 \<Rightarrow> nat list" where
  "f64_to_le_bytes x = map (\<lambda>i. f64_bits x div 256 ^ i mod 256) [0..<8]"

subsection \<open>The total order of \<open>total_cmp\<close>\<close>

fun total_key :: "f64 \<Rightarrow> int \<times> rat \<times> int" where
  "total_key NegInf = (-1, 0, 0)"
| "total_key NegZero = (0, 0, 0)"
| "total_key (Fin q) = (0, q, 1)"
| "total_key PosInf = (1, 0, 0)"
| "total_key NaN = (2, 0, 0)"

lemma total_key_inj: "total_key x = total_key y \<Longrightarrow> x = y"
  by (cases x; cases y) auto

instantiation f64 :: linorder
begin

definition less_eq_f64 :: "f64 \<Rightarrow> f64 \<Rightarrow> bool" where
  "less_eq_f64 x y \<longleftrightarrow> total_key x \<le> total_key y"

definition less_f64 :: "f64 \<Rightarrow> f64 \<Rightarrow> bool" where
  "less_f64 x y \<longleftrightarrow> total_key x < total_key y"

instance
  by standard (auto simp: less_eq_f64_def less_f64_def intro: total_key_inj)

end

subsection \<open>Rounding is exact on representable values\<close>

lemma pow2_pos [simp]: "0 < pow2 u"
  by (simp add: pow2_def)

lemma pow2_nonzero [simp]: "pow2 u \<noteq> 0"
  by (simp add: pow2_def)

lemma pow2_abs [simp]: "\<bar>pow2 u\<bar> = pow2 u"
  by (simp add: less_imp_le)

lemma pow2_add: "pow2 (u + v) = pow2 u * pow2 v"
  by (simp add: pow2_def power_int_add)

lemma pow2_0 [simp]: "pow2 0 = 1"
  by (simp add: pow2_def)

lemma pow2_1 [simp]: "pow2 1 = 2"
  by (simp add: pow2_def)

lemma pow2_diff: "pow2 (u - v) = pow2 u / pow2 v"
  by (simp add: pow2_def power_int_diff)

lemma pow2_minus: "pow2 (- u) = 1 / pow2 u"
  by (simp add: pow2_def power_int_minus_divide)

lemma pow2_nat [simp]: "pow2 (int n) = 2 ^ n"
  by (simp add: pow2_def)

lemma pow2_mono: "u \<le> v \<Longrightarrow> pow2 u \<le> pow2 v"
  unfolding pow2_def by (rule power_int_increasing) simp_all

lemma int_log2_bounds: "0 < n \<Longrightarrow> 2 ^ int_log2 n \<le> n \<and> n < 2 ^ Suc (int_log2 n)"
proof (induction n rule: int_log2.induct)
  case (1 n)
  show ?case
  proof (cases "n \<le> 1")
    case True
    with "1.prems" have "n = 1" by simp
    then show ?thesis by (simp add: int_log2.simps)
  next
    case False
    then have "0 < n div 2" by simp
    with False "1.IH" have ih: "2 ^ int_log2 (n div 2) \<le> n div 2"
      "n div 2 < 2 ^ Suc (int_log2 (n div 2))" by auto
    have "2 ^ Suc (int_log2 (n div 2)) \<le> n \<and> n < 2 ^ Suc (Suc (int_log2 (n div 2)))"
      using ih unfolding power_Suc by linarith
    then show ?thesis using False by (simp only: int_log2.simps [of n] if_False)
  qed
qed

lemma ilog2_bounds:
  assumes "0 < q"
  shows "pow2 (ilog2 q) \<le> q" and "q < pow2 (ilog2 q + 1)"
proof -
  obtain n d where nd: "quotient_of q = (n, d)" by fastforce
  have d: "0 < d" and q: "q = of_int n / of_int d"
    using nd quotient_of_denom_pos quotient_of_div by blast+
  have n: "0 < n" using assms q d by (simp add: zero_less_divide_iff)
  let ?a = "int_log2 n" and ?b = "int_log2 d"
  let ?e = "int ?a - int ?b"
  have a: "2 ^ ?a \<le> n" "n < 2 ^ Suc ?a" and b: "2 ^ ?b \<le> d" "d < 2 ^ Suc ?b"
    using int_log2_bounds n d by auto
  have ra: "(2 ^ ?a :: rat) \<le> of_int n" "of_int n < (2 ^ Suc ?a :: rat)"
    and rb: "(2 ^ ?b :: rat) \<le> of_int d" "of_int d < (2 ^ Suc ?b :: rat)"
    using a b by (metis of_int_le_iff of_int_less_iff of_int_power of_int_numeral)+
  have lo: "pow2 (?e - 1) < q"
  proof -
    have "pow2 (?e - 1) = 2 ^ ?a / 2 ^ Suc ?b"
      by (simp add: pow2_diff)
    also have "\<dots> \<le> of_int n / 2 ^ Suc ?b" using ra by (simp add: divide_right_mono)
    also have "\<dots> < of_int n / of_int d" using rb n d by (simp add: divide_strict_left_mono)
    finally show ?thesis by (simp add: q)
  qed
  have hi: "q < pow2 (?e + 1)"
  proof -
    have "q < 2 ^ Suc ?a / of_int d" using ra d q by (simp add: divide_strict_right_mono)
    also have "\<dots> \<le> 2 ^ Suc ?a / 2 ^ ?b" using rb d by (simp add: divide_left_mono)
    also have "\<dots> = pow2 (?e + 1)"
      by (simp add: pow2_add pow2_diff)
    finally show ?thesis .
  qed
  show "pow2 (ilog2 q) \<le> q" and "q < pow2 (ilog2 q + 1)"
    using lo hi by (auto simp: ilog2_def nd Let_def)
qed

lemma ilog2_less:
  assumes "0 < q" and "q < pow2 k"
  shows "ilog2 q < k"
proof (rule ccontr)
  assume "\<not> ilog2 q < k"
  then have "pow2 k \<le> pow2 (ilog2 q)" by (simp add: pow2_mono)
  with ilog2_bounds [OF assms(1)] assms(2) show False by linarith
qed

lemma rne_of_int [simp]: "rne (of_int n) = n"
  by (simp add: rne_def)

lemma rne_error: "\<bar>of_int (rne q) - q\<bar> \<le> 1 / 2"
  using of_int_floor_le [of q] floor_correct [of q]
  by (auto simp: rne_def Let_def abs_le_iff)

text \<open>
  A rational with at most 53 significant bits that is a multiple of the subnormal unit, below
  \<open>2^1024\<close>, rounds to itself.
\<close>

lemma round_mag_exact:
  assumes "0 < q" and "q = of_int m * pow2 k" and "\<bar>m\<bar> < 2 ^ 53" and "- 1074 \<le> k"
  shows "round_mag q = q"
proof -
  let ?u = "unit_exp q"
  have "of_int m < (2 ^ 53 :: rat)"
    using assms(3) by (metis abs_less_iff of_int_less_iff of_int_numeral of_int_power)
  then have "q < pow2 (53 + k)"
    using assms(2) by (simp add: pow2_add) (simp add: pow2_def)
  then have "ilog2 q < 53 + k" by (rule ilog2_less [OF assms(1)])
  then have "?u \<le> k" using assms(4) by (simp add: unit_exp_def)
  then obtain j where j: "k = ?u + int j" using zle_iff_zadd by blast
  have "pow2 k = pow2 ?u * 2 ^ j" by (subst j) (simp add: pow2_add)
  then have "q / pow2 ?u = of_int (m * 2 ^ j)" using assms(2) by (metis (no_types, lifting)
        mult.commute mult.assoc nonzero_mult_div_cancel_left of_int_mult of_int_numeral
        of_int_power pow2_nonzero)
  then have "of_int (rne (q / pow2 ?u)) = q / pow2 ?u" by (metis rne_of_int)
  then show ?thesis by (simp add: round_mag_def)
qed

lemma round64_exact:
  assumes "q = of_int m * pow2 k" and "\<bar>m\<bar> < 2 ^ 53" and "- 1074 \<le> k" and "\<bar>q\<bar> < 2 ^ 1024"
  shows "round64 q = Fin q"
proof (cases "q = 0")
  case True
  then show ?thesis by (simp add: round64_def)
next
  case False
  then have "round_mag \<bar>q\<bar> = \<bar>q\<bar>"
    by (intro round_mag_exact [of _ "\<bar>m\<bar>" k]) (use assms in \<open>auto simp: abs_mult\<close>)
  with False assms(4) show ?thesis by (simp add: round64_def Let_def)
qed

lemma dvd_pow2_cases:
  fixes d :: int
  assumes "d dvd 2 ^ n" and "0 < d"
  shows "\<exists>i \<le> n. d = 2 ^ i"
  using assms
proof (induction n arbitrary: d)
  case 0
  then show ?case by simp
next
  case (Suc n)
  show ?case
  proof (cases "even d")
    case True
    then obtain c where c: "d = 2 * c" by blast
    with Suc.prems have "c dvd 2 ^ n" "0 < c" by auto
    with Suc.IH c show ?thesis by (metis Suc_le_mono power_Suc)
  next
    case False
    then have "coprime d 2" by simp
    with Suc.prems have "d dvd 2 ^ n" by (simp add: coprime_dvd_mult_right_iff)
    with Suc show ?thesis using le_SucI by blast
  qed
qed

lemma round64_frac:
  assumes "\<bar>m\<bar> < 2 ^ 53" and "d dvd 2 ^ 1074" and "0 < d"
  shows "round64 (of_int m / of_int d) = Fin (of_int m / of_int d)"
proof -
  obtain i where i: "i \<le> 1074" "d = 2 ^ i"
    using dvd_pow2_cases assms(2,3) by blast
  have "\<bar>of_int m / of_int d\<bar> \<le> (of_int \<bar>m\<bar> :: rat)"
    using i by (simp add: divide_le_eq mult_le_cancel_left1)
  also have "\<dots> < 2 ^ 53"
    using assms(1) by (metis of_int_less_iff of_int_numeral of_int_power)
  also have "\<dots> < 2 ^ 1024" by simp
  finally have "\<bar>of_int m / of_int d\<bar> < (2 ^ 1024 :: rat)" .
  then show ?thesis
    by (intro round64_exact [of _ m "- int i"]) (use assms i in \<open>auto simp: pow2_minus\<close>)
qed

lemma round64_small_int: "\<bar>n\<bar> < 2 ^ 53 \<Longrightarrow> round64 (of_int n) = Fin (of_int n)"
  using round64_frac [of n 1] by simp

lemma round64_literals [simp, f64_simps]:
  "round64 0 = Fin 0" "round64 1 = Fin 1" "round64 (- 1) = Fin (- 1)"
  using round64_small_int [of 0] round64_small_int [of 1] round64_small_int [of "- 1"]
  by simp_all

lemma round64_numeral [simp, f64_simps]:
  "(numeral n :: int) < 2 ^ 53 \<Longrightarrow> round64 (numeral n) = Fin (numeral n)"
  "(numeral n :: int) < 2 ^ 53 \<Longrightarrow> round64 (- numeral n) = Fin (- numeral n)"
  using round64_small_int [of "numeral n"] round64_small_int [of "- numeral n"] by simp_all

lemma round64_numeral_frac [simp, f64_simps]:
  "(numeral d :: int) dvd 2 ^ 1074 \<Longrightarrow> round64 (1 / numeral d) = Fin (1 / numeral d)"
  "(numeral d :: int) dvd 2 ^ 1074 \<Longrightarrow> round64 (- (1 / numeral d)) = Fin (- (1 / numeral d))"
  "(numeral n :: int) < 2 ^ 53 \<Longrightarrow> (numeral d :: int) dvd 2 ^ 1074 \<Longrightarrow>
     round64 (numeral n / numeral d) = Fin (numeral n / numeral d)"
  "(numeral n :: int) < 2 ^ 53 \<Longrightarrow> (numeral d :: int) dvd 2 ^ 1074 \<Longrightarrow>
     round64 (- (numeral n / numeral d)) = Fin (- (numeral n / numeral d))"
  using round64_frac [of 1 "numeral d"] round64_frac [of "- 1" "numeral d"]
    round64_frac [of "numeral n" "numeral d"] round64_frac [of "- numeral n" "numeral d"]
  by simp_all

subsection \<open>Accuracy of rounding\<close>

lemma round_mag_error: "\<bar>round_mag q - q\<bar> \<le> pow2 (unit_exp q) / 2"
proof -
  let ?u = "pow2 (unit_exp q)"
  have "round_mag q - q = (of_int (rne (q / ?u)) - q / ?u) * ?u"
    by (simp add: round_mag_def left_diff_distrib)
  then have "\<bar>round_mag q - q\<bar> = \<bar>of_int (rne (q / ?u)) - q / ?u\<bar> * ?u"
    by (simp add: abs_mult less_imp_le)
  also have "\<dots> \<le> 1 / 2 * ?u" by (intro mult_right_mono rne_error less_imp_le pow2_pos)
  finally show ?thesis by simp
qed

text \<open>In the normal range the relative error is at most \<open>2^-53\<close>.\<close>

lemma round_mag_relative:
  assumes "pow2 (- 1022) \<le> q"
  shows "\<bar>round_mag q - q\<bar> \<le> q * pow2 (- 53)"
proof -
  have q: "0 < q" using assms pow2_pos [of "- 1022"] by linarith
  have "- 1022 < ilog2 q + 1"
  proof (rule ccontr)
    assume "\<not> ?thesis"
    then have "pow2 (ilog2 q + 1) \<le> pow2 (- 1022)" by (simp add: pow2_mono)
    with ilog2_bounds [OF q] assms show False by linarith
  qed
  then have "unit_exp q = ilog2 q + (- 52)" by (simp add: unit_exp_def)
  then have "pow2 (unit_exp q) / 2 = pow2 (ilog2 q) * pow2 (- 53)"
    by (simp only: pow2_add) (simp add: pow2_def)
  also have "\<dots> \<le> q * pow2 (- 53)"
    by (intro mult_right_mono ilog2_bounds q less_imp_le pow2_pos)
  finally show ?thesis using round_mag_error [of q] by linarith
qed

lemma round_mag_nonneg: "0 \<le> q \<Longrightarrow> 0 \<le> round_mag q"
proof -
  assume "0 \<le> q"
  then have "0 \<le> q / pow2 (unit_exp q)" by (simp add: less_imp_le)
  then have "0 \<le> rne (q / pow2 (unit_exp q))" by (auto simp: rne_def Let_def)
  then show ?thesis by (simp add: round_mag_def less_imp_le)
qed

subsection \<open>NaN and signs\<close>

lemma f_add_NaN [simp]: "f_add NaN y = NaN" "f_add x NaN = NaN"
  by (simp_all add: f_add_def)

lemma foldl_f_add_NaN_start [simp]: "foldl f_add NaN vs = NaN"
  by (induction vs) simp_all

lemma foldl_f_add_NaN: "NaN \<in> set vs \<Longrightarrow> foldl f_add x vs = NaN"
  by (drule split_list) auto

lemma f_lt_NaN [simp]: "\<not> f_lt NaN y" "\<not> f_lt x NaN"
  by (simp_all add: f_lt_def)

lemma f_le_NaN [simp]: "\<not> f_le NaN y" "\<not> f_le x NaN"
  by (simp_all add: f_le_def f_eq_def)

lemma f_abs_neg [simp]: "f_abs (f_neg x) = f_abs x"
  by (cases x) auto

end
