(* ===== verification/Csc_Matrix.thy ===== *)
theory Csc_Matrix
  imports F64
begin

text \<open>
  Sparse matrices in compressed-column form (\<open>suitesparse-ffi/src/matrix.rs\<close>): construction
  from coordinate triplets, structural validation, and matrix-vector multiplication.

  The aggregation map is a hash map whose iteration order is unspecified; here it is an
  association list in insertion order, and \<open>csc_of_entries_order\<close> shows that the order
  does not reach the result. Index arithmetic is \<open>i32\<close> with wrap-around.
\<close>

named_theorems csc_simps \<open>unfolding of compressed-column accessors\<close>

subsection \<open>Data\<close>

record matrix_triplet =
  mt_row :: i32
  mt_col :: i32
  mt_value :: f64

record csc_matrix =
  nrows :: i32
  ncols :: i32
  col_ptr :: "i32 list"
  row_idx :: "i32 list"
  vals :: "f64 list"

datatype matrix_error =
    InvalidDimensions i32 i32
  | InvalidColPtrLength usize usize
  | InvalidColPtrStart
  | NonMonotonicColPtr
  | InvalidNnz i32 usize
  | RowOutOfRange i32 i32
  | ColOutOfRange i32 i32
  | NonSortedOrDuplicateRows
  | IndexOverflow

subsection \<open>Slices and windows\<close>

definition subslice :: "nat \<Rightarrow> nat \<Rightarrow> 'a list \<Rightarrow> 'a list" where
  "subslice s e xs = take (e - s) (drop s xs)"

fun any_window2 :: "('a \<Rightarrow> 'a \<Rightarrow> bool) \<Rightarrow> 'a list \<Rightarrow> bool" where
  "any_window2 P (a # b # xs) = (P a b \<or> any_window2 P (b # xs))"
| "any_window2 P _ = False"

subsection \<open>Operations\<close>

text \<open>
  Retained bytes are counted by vector capacity, which is the allocator's choice: \<open>cap n\<close> is
  the capacity of a vector allocated for \<open>n\<close> elements.
\<close>

definition estimated_owned_bytes :: "(usize \<Rightarrow> usize) \<Rightarrow> csc_matrix \<Rightarrow> usize" where
  "estimated_owned_bytes cap m =
     saturating_add
       (saturating_add (saturating_mul (cap (length (col_ptr m))) 4)
                       (saturating_mul (cap (length (row_idx m))) 4))
       (saturating_mul (cap (length (vals m))) 8)"

fun check_columns :: "csc_matrix \<Rightarrow> nat list \<Rightarrow> (matrix_error, unit) result" where
  "check_columns m [] = Ok ()"
| "check_columns m (col # cols) =
     and_then (ok_or (usize_try_from (col_ptr m ! col)) IndexOverflow) (\<lambda>start.
     and_then (ok_or (usize_try_from (col_ptr m ! (col + 1))) IndexOverflow) (\<lambda>stop.
     and_then (ensure (\<not> any_window2 (\<lambda>a b. b \<le> a) (subslice start stop (row_idx m)))
                      NonSortedOrDuplicateRows) (\<lambda>_.
     check_columns m cols)))"

definition validate :: "csc_matrix \<Rightarrow> (matrix_error, unit) result" where
  "validate m =
     and_then (ensure (\<not> (nrows m \<le> 0 \<or> ncols m \<le> 0)) (InvalidDimensions (nrows m) (ncols m))) (\<lambda>_.
     and_then (ok_or (usize_try_from (ncols m)) IndexOverflow) (\<lambda>n.
     let expected_col_len = n + 1 in
     and_then (ensure (length (col_ptr m) = expected_col_len)
                      (InvalidColPtrLength (length (col_ptr m)) expected_col_len)) (\<lambda>_.
     and_then (ensure (case col_ptr m of [] \<Rightarrow> False | p # _ \<Rightarrow> p = 0) InvalidColPtrStart) (\<lambda>_.
     and_then (ensure (\<not> any_window2 (\<lambda>a b. b < a) (col_ptr m)) NonMonotonicColPtr) (\<lambda>_.
     let nnz = length (vals m) in
     and_then (if length (row_idx m) \<noteq> nnz
               then and_then (ok_or (i32_try_from (length (row_idx m))) IndexOverflow)
                             (\<lambda>l. Err (InvalidNnz l nnz))
               else Ok ()) (\<lambda>_.
     let lst = (case col_ptr m of [] \<Rightarrow> - 1 | ps \<Rightarrow> last ps) in
     and_then (ensure (usize_try_from lst = Some nnz) (InvalidNnz lst nnz)) (\<lambda>_.
     and_then (case find (\<lambda>row. \<not> range_contains 0 (nrows m) row) (row_idx m) of
                 None \<Rightarrow> Ok ()
               | Some row \<Rightarrow> Err (RowOutOfRange row (nrows m))) (\<lambda>_.
     check_columns m [0..<n]))))))))"

definition csc_new ::
    "i32 \<Rightarrow> i32 \<Rightarrow> i32 list \<Rightarrow> i32 list \<Rightarrow> f64 list \<Rightarrow> (matrix_error, csc_matrix) result" where
  "csc_new nr nc cp ri vs =
     (let m = \<lparr>nrows = nr, ncols = nc, col_ptr = cp, row_idx = ri, vals = vs\<rparr>
      in and_then (validate m) (\<lambda>_. Ok m))"

type_synonym acc_map = "((i32 \<times> i32) \<times> f64) list"
type_synonym entry = "i32 \<times> i32 \<times> f64"

text \<open>\<open>*acc.entry(key).or_insert(0.0) += value\<close>\<close>

fun acc_add :: "'k \<Rightarrow> f64 \<Rightarrow> ('k \<times> f64) list \<Rightarrow> ('k \<times> f64) list" where
  "acc_add k v [] = [(k, f_add (Fin 0) v)]"
| "acc_add k v ((k', x) # acc) =
     (if k = k' then (k', f_add x v) # acc else (k', x) # acc_add k v acc)"

definition acc_step ::
    "i32 \<Rightarrow> i32 \<Rightarrow> f64 \<Rightarrow> acc_map \<Rightarrow> matrix_triplet \<Rightarrow> (matrix_error, acc_map) result" where
  "acc_step nr nc zero_epsilon acc t =
     and_then (ensure (range_contains 0 nr (mt_row t)) (RowOutOfRange (mt_row t) nr)) (\<lambda>_.
     and_then (ensure (range_contains 0 nc (mt_col t)) (ColOutOfRange (mt_col t) nc)) (\<lambda>_.
     if f_le (f_abs (mt_value t)) zero_epsilon then Ok acc
     else Ok (acc_add (mt_row t, mt_col t) (mt_value t) acc)))"

definition acc_entries :: "f64 \<Rightarrow> acc_map \<Rightarrow> entry list" where
  "acc_entries zero_epsilon acc =
     [(r, c, v). ((r, c), v) \<leftarrow> acc, f_gt (f_abs v) zero_epsilon]"

fun entry_le :: "entry \<Rightarrow> entry \<Rightarrow> bool" where
  "entry_le (r, c, _) (r', c', _) = (c < c' \<or> c = c' \<and> r \<le> r')"

definition count_step :: "i32 list \<Rightarrow> entry \<Rightarrow> i32 list" where
  "count_step cp e = (let j = nat (fst (snd e)) + 1 in cp[j := wrap_i32 (cp ! j + 1)])"

definition prefix_step :: "i32 list \<Rightarrow> nat \<Rightarrow> i32 list" where
  "prefix_step cp col = cp[col + 1 := wrap_i32 (cp ! (col + 1) + cp ! col)]"

definition csc_of_entries ::
    "i32 \<Rightarrow> i32 \<Rightarrow> entry list \<Rightarrow> (matrix_error, csc_matrix) result" where
  "csc_of_entries nr nc es =
     (let entries = sort_by entry_le es in
      and_then (ok_or (usize_try_from nc) IndexOverflow) (\<lambda>n.
      let counted = foldl count_step (replicate (n + 1) 0) entries;
          cp = foldl prefix_step counted [0..<n]
      in csc_new nr nc cp (map fst entries) (map (snd \<circ> snd) entries)))"

definition from_triplet_iter ::
    "i32 \<Rightarrow> i32 \<Rightarrow> matrix_triplet list \<Rightarrow> f64 \<Rightarrow> (matrix_error, csc_matrix) result" where
  "from_triplet_iter nr nc triplets zero_epsilon =
     and_then (ensure (\<not> (nr \<le> 0 \<or> nc \<le> 0)) (InvalidDimensions nr nc)) (\<lambda>_.
     and_then (fold_result (acc_step nr nc zero_epsilon) [] triplets) (\<lambda>acc.
     csc_of_entries nr nc (acc_entries zero_epsilon acc)))"

definition from_triplets ::
    "i32 \<Rightarrow> i32 \<Rightarrow> matrix_triplet list \<Rightarrow> f64 \<Rightarrow> (matrix_error, csc_matrix) result" where
  "from_triplets nr nc triplets zero_epsilon = from_triplet_iter nr nc triplets zero_epsilon"

definition shape :: "csc_matrix \<Rightarrow> i32 \<times> i32" where
  "shape m = (nrows m, ncols m)"

definition nnz :: "csc_matrix \<Rightarrow> usize" where
  "nnz m = length (vals m)"

definition col_start :: "csc_matrix \<Rightarrow> nat \<Rightarrow> nat" where
  "col_start m col = unwrap_or (usize_try_from (col_ptr m ! col)) 0"

definition mul_step :: "csc_matrix \<Rightarrow> f64 \<Rightarrow> f64 list \<Rightarrow> nat \<Rightarrow> f64 list" where
  "mul_step m xj out idx =
     (let row = unwrap_or (usize_try_from (row_idx m ! idx)) 0
      in out[row := f_add (out ! row) (f_mul (vals m ! idx) xj)])"

definition mul_column :: "csc_matrix \<Rightarrow> f64 list \<Rightarrow> f64 list \<Rightarrow> nat \<Rightarrow> f64 list" where
  "mul_column m x out col =
     foldl (mul_step m (x ! col)) out [col_start m col..<col_start m (col + 1)]"

definition mul_vector :: "csc_matrix \<Rightarrow> f64 list \<Rightarrow> f64 list" where
  "mul_vector m x =
     (let out = replicate (unwrap_or (usize_try_from (nrows m)) 0) (Fin 0);
          n = unwrap_or (usize_try_from (ncols m)) 0
      in if length x \<noteq> n then out else foldl (mul_column m x) out [0..<n])"

subsection \<open>Declarative validity\<close>

definition csc_valid :: "csc_matrix \<Rightarrow> bool" where
  "csc_valid m \<longleftrightarrow>
     0 < nrows m \<and> 0 < ncols m \<and> length (col_ptr m) = nat (ncols m) + 1 \<and>
     hd (col_ptr m) = 0 \<and> sorted (col_ptr m) \<and>
     length (row_idx m) = length (vals m) \<and> last (col_ptr m) = int (length (vals m)) \<and>
     (\<forall>row \<in> set (row_idx m). 0 \<le> row \<and> row < nrows m) \<and>
     (\<forall>c < nat (ncols m).
        sorted_wrt (<) (subslice (col_start m c) (col_start m (c + 1)) (row_idx m)))"

text \<open>The stored entries of a column and the entry at a position.\<close>

definition csc_column :: "csc_matrix \<Rightarrow> nat \<Rightarrow> (i32 \<times> f64) list" where
  "csc_column m c = subslice (col_start m c) (col_start m (c + 1)) (zip (row_idx m) (vals m))"

definition csc_entry :: "csc_matrix \<Rightarrow> nat \<Rightarrow> nat \<Rightarrow> f64 option" where
  "csc_entry m r c = map_of (csc_column m c) (int r)"

subsection \<open>Validation decides validity\<close>

lemma any_window2_iff: "transp Q \<Longrightarrow> (\<And>a b. Q a b \<longleftrightarrow> \<not> P a b) \<Longrightarrow>
    \<not> any_window2 P xs \<longleftrightarrow> sorted_wrt Q xs"
proof (induction P xs rule: any_window2.induct)
  case (1 P a b xs)
  then have ih: "\<not> any_window2 P (b # xs) \<longleftrightarrow> sorted_wrt Q (b # xs)" by blast
  have "sorted_wrt Q (a # b # xs) \<longleftrightarrow> Q a b \<and> sorted_wrt Q (b # xs)"
    using \<open>transp Q\<close> by (auto dest: transpD)
  moreover have "\<not> any_window2 P (a # b # xs) \<longleftrightarrow> Q a b \<and> \<not> any_window2 P (b # xs)"
    by (simp add: 1(3))
  ultimately show ?case using ih by blast
qed simp_all

lemma check_columns_Ok_iff:
  "check_columns m cols = Ok () \<longleftrightarrow>
     (\<forall>c \<in> set cols. 0 \<le> col_ptr m ! c \<and> 0 \<le> col_ptr m ! (c + 1) \<and>
        sorted_wrt (<) (subslice (col_start m c) (col_start m (c + 1)) (row_idx m)))"
proof (induction cols)
  case Nil
  then show ?case by simp
next
  case (Cons c cols)
  have "\<not> any_window2 (\<lambda>a b. b \<le> a) xs \<longleftrightarrow> sorted_wrt (<) xs" for xs :: "int list"
    by (rule any_window2_iff) auto
  then show ?case
    by (auto simp: Cons.IH and_then_Ok_iff col_start_def usize_try_from_def)
qed

lemma csc_valid_col_ptr_bounds:
  assumes "csc_valid m" and "c \<le> nat (ncols m)"
  shows "0 \<le> col_ptr m ! c" and "col_ptr m ! c \<le> int (length (vals m))"
proof -
  from assms have len: "length (col_ptr m) = nat (ncols m) + 1"
    and srt: "sorted (col_ptr m)" and ne: "col_ptr m \<noteq> []"
    by (auto simp: csc_valid_def)
  from assms(1) ne have "col_ptr m ! 0 = 0" by (simp add: csc_valid_def hd_conv_nth)
  with sorted_nth_mono [OF srt, of 0 c] assms(2) len show "0 \<le> col_ptr m ! c" by simp
  from assms(1) ne len have "col_ptr m ! nat (ncols m) = int (length (vals m))"
    by (simp add: csc_valid_def last_conv_nth)
  with sorted_nth_mono [OF srt, of c "nat (ncols m)"] assms(2) len
  show "col_ptr m ! c \<le> int (length (vals m))" by simp
qed

lemma validate_iff_csc_valid: "validate m = Ok () \<longleftrightarrow> csc_valid m"
proof -
  have mono: "\<not> any_window2 (\<lambda>a b. b < a) (col_ptr m) \<longleftrightarrow> sorted (col_ptr m)"
    by (rule any_window2_iff) auto
  have rng: "(case find (\<lambda>row. \<not> range_contains 0 (nrows m) row) (row_idx m) of
                None \<Rightarrow> Ok () | Some row \<Rightarrow> Err (RowOutOfRange row (nrows m))) = Ok () \<longleftrightarrow>
      (\<forall>row \<in> set (row_idx m). 0 \<le> row \<and> row < nrows m)"
    by (auto split: option.split simp: find_None_iff find_Some_iff range_contains_def)
  have cols: "csc_valid m \<Longrightarrow> check_columns m [0..<nat (ncols m)] = Ok ()"
    unfolding check_columns_Ok_iff
    using csc_valid_col_ptr_bounds(1) [of m] by (auto simp: csc_valid_def)
  show ?thesis
  proof
    assume "validate m = Ok ()"
    then show "csc_valid m"
      unfolding validate_def csc_valid_def
      by (auto simp: and_then_Ok_iff mono rng check_columns_Ok_iff Let_def
          split: list.splits if_splits)
  next
    assume v: "csc_valid m"
    then obtain p ps where cp: "col_ptr m = p # ps" by (cases "col_ptr m") (auto simp: csc_valid_def)
    from v cp have "p = 0" by (simp add: csc_valid_def)
    with v cp mono rng cols [OF v] show "validate m = Ok ()"
      by (simp add: validate_def csc_valid_def Let_def ensure_def ok_or_def usize_try_from_def)
  qed
qed

lemma validate_Ok_iff [csc_simps]: "validate m = Ok u \<longleftrightarrow> csc_valid m"
  by (cases u) (simp add: validate_iff_csc_valid)

subsection \<open>Hash-map order does not reach the matrix\<close>

interpretation entry_order: total_preorder entry_le
  by unfold_locales (auto simp: split_paired_all)

definition entry_key :: "entry \<Rightarrow> i32 \<times> i32" where
  "entry_key e = (fst e, fst (snd e))"

lemma entry_le_antisym_key: "entry_le a b \<Longrightarrow> entry_le b a \<Longrightarrow> entry_key a = entry_key b"
  by (cases a; cases b) (auto simp: entry_key_def)

lemma csc_of_entries_order:
  assumes "mset es = mset es'" and "distinct (map entry_key es)"
  shows "csc_of_entries nr nc es = csc_of_entries nr nc es'"
proof -
  have "sort_by entry_le es = sort_by entry_le es'"
    by (rule entry_order.sort_by_order_irrelevant [OF assms(1)])
      (metis assms(2) distinct_map entry_le_antisym_key inj_onD)
  then show ?thesis by (simp add: csc_of_entries_def)
qed

subsection \<open>The aggregation map\<close>

lemma acc_add_keys: "fst ` set (acc_add k v acc) = insert k (fst ` set acc)"
  by (induction k v acc rule: acc_add.induct) auto

lemma acc_add_distinct: "distinct (map fst acc) \<Longrightarrow> distinct (map fst (acc_add k v acc))"
  by (induction k v acc rule: acc_add.induct) (auto simp: acc_add_keys)

lemma map_of_acc_add:
  "map_of (acc_add k v acc) =
     (map_of acc)(k \<mapsto> f_add (case map_of acc k of None \<Rightarrow> Fin 0 | Some x \<Rightarrow> x) v)"
  by (induction k v acc rule: acc_add.induct) (auto simp: fun_eq_iff)

text \<open>The values a position receives, in order, and what they accumulate to.\<close>

definition kept_values :: "f64 \<Rightarrow> matrix_triplet list \<Rightarrow> i32 \<Rightarrow> i32 \<Rightarrow> f64 list" where
  "kept_values zero_epsilon ts r c =
     map mt_value (filter (\<lambda>t. mt_row t = r \<and> mt_col t = c \<and>
                            \<not> f_le (f_abs (mt_value t)) zero_epsilon) ts)"

definition in_range :: "i32 \<Rightarrow> i32 \<Rightarrow> matrix_triplet \<Rightarrow> bool" where
  "in_range nr nc t \<longleftrightarrow> 0 \<le> mt_row t \<and> mt_row t < nr \<and> 0 \<le> mt_col t \<and> mt_col t < nc"

definition acc_of :: "f64 \<Rightarrow> acc_map \<Rightarrow> matrix_triplet list \<Rightarrow> acc_map" where
  "acc_of eps acc ts =
     foldl (\<lambda>acc t. if f_le (f_abs (mt_value t)) eps then acc
                    else acc_add (mt_row t, mt_col t) (mt_value t) acc) acc ts"

lemma acc_of_simps [simp]:
  "acc_of eps acc [] = acc"
  "acc_of eps acc (t # ts) =
     acc_of eps (if f_le (f_abs (mt_value t)) eps then acc
                 else acc_add (mt_row t, mt_col t) (mt_value t) acc) ts"
  by (simp_all add: acc_of_def)

lemma fold_acc_step:
  "fold_result (acc_step nr nc eps) acc ts = Ok acc' \<longleftrightarrow>
     (\<forall>t \<in> set ts. in_range nr nc t) \<and> acc' = acc_of eps acc ts"
  by (induction ts arbitrary: acc)
    (auto simp: and_then_Ok_iff acc_step_def in_range_def range_contains_def split: if_splits)

lemma acc_of_distinct: "distinct (map fst acc) \<Longrightarrow> distinct (map fst (acc_of eps acc ts))"
  by (induction ts arbitrary: acc) (auto intro: acc_add_distinct)

lemma kept_values_simps [simp]:
  "kept_values eps [] r c = []"
  "kept_values eps (t # ts) r c =
     (if mt_row t = r \<and> mt_col t = c \<and> \<not> f_le (f_abs (mt_value t)) eps
      then mt_value t # kept_values eps ts r c else kept_values eps ts r c)"
  by (simp_all add: kept_values_def)

lemma map_of_acc_of:
  "map_of (acc_of eps acc ts) (r, c) =
     (if kept_values eps ts r c = [] then map_of acc (r, c)
      else Some (foldl f_add (case map_of acc (r, c) of None \<Rightarrow> Fin 0 | Some x \<Rightarrow> x)
                       (kept_values eps ts r c)))"
  by (induction ts arbitrary: acc) (auto simp: map_of_acc_add)

lemma acc_of_keys:
  "fst ` set (acc_of eps acc ts) \<subseteq> fst ` set acc \<union> {(mt_row t, mt_col t) | t. t \<in> set ts}"
proof (induction ts arbitrary: acc)
  case Nil
  then show ?case by simp
next
  case (Cons t ts)
  show ?case
    using Cons.IH [of "acc_add (mt_row t, mt_col t) (mt_value t) acc"] Cons.IH [of acc]
    by (auto simp: acc_add_keys)
qed

subsection \<open>Column pointers\<close>

lemma length_count_step [simp]: "length (count_step cp e) = length cp"
  by (simp add: count_step_def Let_def)

lemma length_foldl_count [simp]: "length (foldl count_step cp es) = length cp"
  by (rule foldl_length) simp

lemma length_prefix_step [simp]: "length (prefix_step cp c) = length cp"
  by (simp add: prefix_step_def)

lemma length_foldl_prefix [simp]: "length (foldl prefix_step cp cs) = length cp"
  by (rule foldl_length) simp

definition col_count :: "nat \<Rightarrow> entry list \<Rightarrow> nat" where
  "col_count c es = length (filter (\<lambda>e. nat (fst (snd e)) = c) es)"

definition col_below :: "nat \<Rightarrow> entry list \<Rightarrow> nat" where
  "col_below c es = length (filter (\<lambda>e. nat (fst (snd e)) < c) es)"

lemma col_below_Suc: "col_below (Suc c) es = col_below c es + col_count c es"
  by (induction es) (auto simp: col_below_def col_count_def less_Suc_eq)

lemma col_below_0 [simp]: "col_below 0 es = 0"
  by (simp add: col_below_def)

lemma col_below_le: "col_below c es \<le> length es"
  by (simp add: col_below_def)

lemma col_count_le: "col_count c es \<le> length es"
  by (simp add: col_count_def)

text \<open>While the number of entries fits \<open>i32\<close>, no counter wraps.\<close>

lemma count_entries:
  assumes "\<And>e. e \<in> set es \<Longrightarrow> nat (fst (snd e)) < n" and "int (length es) \<le> i32_max"
  shows "foldl count_step (replicate (n + 1) 0) es =
           map (\<lambda>j. if j = 0 then 0 else int (col_count (j - 1) es)) [0..<n + 1]"
  using assms
proof (induction es rule: rev_induct)
  case Nil
  show ?case by (rule nth_equalityI) (auto simp: col_count_def nth_append)
next
  case (snoc e es)
  let ?f = "\<lambda>es j. if j = 0 then 0 else int (col_count (j - 1) es)"
  let ?c = "nat (fst (snd e))"
  have c: "?c < n" using snoc.prems(1) by simp
  have ih: "foldl count_step (replicate (n + 1) 0) es = map (?f es) [0..<n + 1]"
    by (rule snoc.IH) (use snoc.prems in auto)
  have "int (col_count ?c es) + 1 \<le> i32_max"
    using col_count_le [of ?c es] snoc.prems(2) by simp
  then have w: "wrap_i32 (int (col_count ?c es) + 1) = int (col_count ?c es) + 1"
    by (intro wrap_i32_id) (simp add: i32_defs)
  have "count_step (map (?f es) [0..<n + 1]) e = map (?f (es @ [e])) [0..<n + 1]"
  proof (rule nth_equalityI)
    fix j assume "j < length (count_step (map (?f es) [0..<n + 1]) e)"
    then have j: "j < n + 1" by simp
    show "count_step (map (?f es) [0..<n + 1]) e ! j = map (?f (es @ [e])) [0..<n + 1] ! j"
    proof (cases "j = ?c + 1")
      case True
      have "map (?f es) [0..<n + 1] ! (?c + 1) = int (col_count ?c es)"
        using c by (simp del: upt_Suc)
      with True w c show ?thesis
        by (simp add: count_step_def Let_def col_count_def del: upt_Suc)
    next
      case False
      with j show ?thesis
        by (auto simp: count_step_def Let_def col_count_def simp del: upt_Suc)
    qed
  qed simp
  with ih show ?case by simp
qed

lemma prefix_columns:
  assumes "k \<le> n" and "int (length es) \<le> i32_max"
  shows "foldl prefix_step (map (\<lambda>j. if j = 0 then 0 else int (col_count (j - 1) es)) [0..<n + 1]) [0..<k] =
           map (\<lambda>j. if j \<le> k then int (col_below j es)
                    else int (col_count (j - 1) es)) [0..<n + 1]"
  using assms(1)
proof (induction k)
  case 0
  show ?case by (rule nth_equalityI) (auto simp del: upt_Suc)
next
  case (Suc k)
  let ?g = "\<lambda>k j. if j \<le> k then int (col_below j es) else int (col_count (j - 1) es)"
  have "int (col_count k es) + int (col_below k es) \<le> i32_max"
    using col_below_le [of "Suc k" es] assms(2) by (simp add: col_below_Suc)
  then have w: "wrap_i32 (int (col_count k es) + int (col_below k es)) = int (col_below (Suc k) es)"
    by (subst wrap_i32_id) (auto simp: i32_defs col_below_Suc)
  have "prefix_step (map (?g k) [0..<n + 1]) k = map (?g (Suc k)) [0..<n + 1]"
  proof (rule nth_equalityI)
    fix j assume "j < length (prefix_step (map (?g k) [0..<n + 1]) k)"
    then have j: "j < n + 1" by simp
    show "prefix_step (map (?g k) [0..<n + 1]) k ! j = map (?g (Suc k)) [0..<n + 1] ! j"
      using j Suc.prems w by (cases "j = Suc k") (auto simp: prefix_step_def simp del: upt_Suc)
  qed simp
  with Suc show ?case by simp
qed

subsection \<open>Construction succeeds and stores each aggregated position\<close>

definition entry_col :: "entry \<Rightarrow> nat" where
  "entry_col e = nat (fst (snd e))"

lemma filter_below_split:
  "sorted_wrt (\<lambda>a b. f a \<le> f b) es \<Longrightarrow>
     es = filter (\<lambda>e. f e < c) es @ filter (\<lambda>e. \<not> f e < c) es" for f :: "'a \<Rightarrow> nat"
proof (induction es)
  case Nil
  then show ?case by simp
next
  case (Cons x xs)
  show ?case
  proof (cases "f x < c")
    case True
    with Cons show ?thesis by simp
  next
    case False
    with Cons.prems have "\<forall>e \<in> set xs. \<not> f e < c" by auto
    then have "filter (\<lambda>e. f e < c) xs = []" and "filter (\<lambda>e. \<not> f e < c) xs = xs"
      by (simp_all add: filter_empty_conv filter_True)
    with False show ?thesis by simp
  qed
qed

lemma subslice_column:
  assumes "sorted_wrt (\<lambda>a b. entry_col a \<le> entry_col b) es"
  shows "subslice (col_below c es) (col_below (Suc c) es) es = filter (\<lambda>e. entry_col e = c) es"
proof -
  let ?L = "filter (\<lambda>e. entry_col e < c) es"
  let ?M = "filter (\<lambda>e. entry_col e = c) es"
  let ?G = "filter (\<lambda>e. \<not> entry_col e < c) es"
  let ?R = "filter (\<lambda>e. \<not> entry_col e < Suc c) ?G"
  have es: "es = ?L @ ?G" by (rule filter_below_split [OF assms])
  have "filter (\<lambda>e. entry_col e < Suc c) ?G = ?M"
    by (auto intro: filter_cong)
  moreover have "?G = filter (\<lambda>e. entry_col e < Suc c) ?G @ ?R"
    by (rule filter_below_split [OF sorted_wrt_filter [OF assms]])
  ultimately have g: "?G = ?M @ ?R" by simp
  have below: "col_below c es = length ?L"
    by (simp add: col_below_def entry_col_def)
  have count: "col_below (Suc c) es = length ?L + length ?M"
    unfolding col_below_Suc by (simp add: col_count_def col_below_def entry_col_def)
  have "subslice (length ?L) (length ?L + length ?M) (?L @ ?M @ ?R) = ?M"
    by (simp add: subslice_def)
  then show ?thesis using below count es g by metis
qed

lemma sorted_entries_col:
  "sorted_wrt entry_le es \<Longrightarrow> (\<And>e. e \<in> set es \<Longrightarrow> 0 \<le> fst (snd e)) \<Longrightarrow>
     sorted_wrt (\<lambda>a b. entry_col a \<le> entry_col b) es"
  by (erule sorted_wrt_mono_rel [rotated]) (auto simp: entry_col_def)

lemma sorted_column_rows:
  assumes "sorted_wrt entry_le es" and "distinct (map entry_key es)"
    and "\<And>e. e \<in> set es \<Longrightarrow> 0 \<le> fst (snd e)"
  shows "sorted_wrt (<) (map fst (filter (\<lambda>e. entry_col e = c) es))"
  using assms
proof (induction es)
  case Nil
  then show ?case by simp
next
  case (Cons x xs)
  have "fst x < fst y" if "y \<in> set xs" "entry_col x = c" "entry_col y = c" for y
  proof -
    have "entry_le x y" and "entry_key x \<noteq> entry_key y"
      using Cons.prems(1,2) that(1) by auto
    moreover have "0 \<le> fst (snd x)" and "0 \<le> fst (snd y)"
      using Cons.prems(3) that(1) by auto
    with that have "fst (snd x) = fst (snd y)"
      by (metis entry_col_def eq_nat_nat_iff)
    ultimately show ?thesis by (cases x; cases y) (auto simp: entry_key_def)
  qed
  with Cons show ?case by auto
qed

text \<open>What the sorted entry list satisfies when every position is in range.\<close>

definition entries_ok :: "i32 \<Rightarrow> i32 \<Rightarrow> entry list \<Rightarrow> bool" where
  "entries_ok nr nc es \<longleftrightarrow>
     0 < nr \<and> 0 < nc \<and> sorted_wrt entry_le es \<and> distinct (map entry_key es) \<and>
     int (length es) \<le> i32_max \<and>
     (\<forall>e \<in> set es. 0 \<le> fst e \<and> fst e < nr \<and> 0 \<le> fst (snd e) \<and> fst (snd e) < nc)"

definition built_matrix :: "i32 \<Rightarrow> i32 \<Rightarrow> entry list \<Rightarrow> csc_matrix" where
  "built_matrix nr nc es =
     \<lparr>nrows = nr, ncols = nc, col_ptr = map (\<lambda>j. int (col_below j es)) [0..<nat nc + 1],
      row_idx = map fst es, vals = map (snd \<circ> snd) es\<rparr>"

declare upt_Suc [simp del]

lemma built_matrix_fields [simp]:
  "nrows (built_matrix nr nc es) = nr" "ncols (built_matrix nr nc es) = nc"
  "row_idx (built_matrix nr nc es) = map fst es"
  "vals (built_matrix nr nc es) = map (snd \<circ> snd) es"
  by (simp_all add: built_matrix_def)

lemma built_matrix_start:
  "c \<le> nat nc \<Longrightarrow> col_start (built_matrix nr nc es) c = col_below c es"
  by (simp add: col_start_def built_matrix_def)

lemma built_matrix_subslice:
  assumes "entries_ok nr nc es" and "c < nat nc"
  shows "subslice (col_start (built_matrix nr nc es) c)
                  (col_start (built_matrix nr nc es) (Suc c)) es
           = filter (\<lambda>e. entry_col e = c) es"
proof -
  have "sorted_wrt (\<lambda>a b. entry_col a \<le> entry_col b) es"
    by (rule sorted_entries_col) (use assms(1) in \<open>auto simp: entries_ok_def\<close>)
  from subslice_column [OF this] assms(2) show ?thesis by (simp add: built_matrix_start)
qed

lemma subslice_map: "subslice s e (map f xs) = map f (subslice s e xs)"
  by (simp add: subslice_def take_map drop_map)

lemma built_matrix_column:
  assumes "entries_ok nr nc es" and "c < nat nc"
  shows "csc_column (built_matrix nr nc es) c =
           map (\<lambda>e. (fst e, snd (snd e))) (filter (\<lambda>e. entry_col e = c) es)"
proof -
  have "zip (map fst es) (map (snd \<circ> snd) es) = map (\<lambda>e. (fst e, snd (snd e))) es"
    by (simp add: zip_map_map zip_same_conv_map)
  with built_matrix_subslice [OF assms] show ?thesis
    by (simp add: csc_column_def subslice_map)
qed

lemma col_below_mono: "i \<le> j \<Longrightarrow> col_below i es \<le> col_below j es"
  by (rule lift_Suc_mono_le [of "\<lambda>c. col_below c es"]) (simp_all add: col_below_Suc)

lemma built_matrix_valid:
  assumes "entries_ok nr nc es"
  shows "csc_valid (built_matrix nr nc es)"
proof -
  let ?m = "built_matrix nr nc es"
  have "filter (\<lambda>e. nat (fst (snd e)) < nat nc) es = es"
    using assms by (auto simp: entries_ok_def intro!: filter_True)
  then have all: "col_below (nat nc) es = length es" by (simp only: col_below_def)
  have "sorted (col_ptr ?m)"
    by (auto simp: built_matrix_def sorted_wrt_iff_nth_less col_below_mono)
  moreover have "sorted_wrt (<) (subslice (col_start ?m c) (col_start ?m (c + 1)) (row_idx ?m))"
    if "c < nat nc" for c
    using sorted_column_rows [of es c] built_matrix_subslice [OF assms that] assms
    by (auto simp: entries_ok_def subslice_map)
  moreover have "hd (col_ptr ?m) = 0" by (simp add: built_matrix_def upt_rec)
  moreover have "last (col_ptr ?m) = int (length es)"
    by (simp add: built_matrix_def upt_Suc all)
  moreover have "length (col_ptr ?m) = nat nc + 1" by (simp add: built_matrix_def)
  ultimately show ?thesis using assms by (auto simp: csc_valid_def entries_ok_def)
qed

lemma csc_of_entries_built:
  assumes "entries_ok nr nc (sort_by entry_le es)"
  shows "csc_of_entries nr nc es = Ok (built_matrix nr nc (sort_by entry_le es))"
proof -
  let ?es = "sort_by entry_le es"
  let ?n = "nat nc"
  have len: "int (length ?es) \<le> i32_max" using assms by (simp only: entries_ok_def)
  have "foldl count_step (replicate (?n + 1) 0) ?es =
      map (\<lambda>j. if j = 0 then 0 else int (col_count (j - 1) ?es)) [0..<?n + 1]"
    by (rule count_entries [OF _ len]) (use assms in \<open>auto simp: entries_ok_def\<close>)
  then have "foldl prefix_step (foldl count_step (replicate (?n + 1) 0) ?es) [0..<?n] =
      map (\<lambda>j. int (col_below j ?es)) [0..<?n + 1]"
    using prefix_columns [OF order_refl len, of ?n] by (auto cong: map_cong)
  moreover have "0 \<le> nc" using assms by (simp add: entries_ok_def)
  moreover have "validate (built_matrix nr nc ?es) = Ok ()"
    using built_matrix_valid [OF assms] by (simp add: validate_iff_csc_valid)
  ultimately show ?thesis
    by (simp add: csc_of_entries_def csc_new_def Let_def ok_or_def usize_try_from_def
        built_matrix_def del: replicate_Suc)
qed

text \<open>Reading an entry of a built matrix back is membership in its entry list.\<close>

lemma csc_entry_built:
  assumes "entries_ok nr nc es" and "c < nat nc"
  shows "csc_entry (built_matrix nr nc es) r c = Some v \<longleftrightarrow> (int r, int c, v) \<in> set es"
proof -
  let ?col = "map (\<lambda>e. (fst e, snd (snd e))) (filter (\<lambda>e. entry_col e = c) es)"
  have "sorted_wrt (<) (map fst (filter (\<lambda>e. entry_col e = c) es))"
    by (rule sorted_column_rows) (use assms in \<open>auto simp: entries_ok_def\<close>)
  then have "distinct (map fst ?col)"
    by (simp add: comp_def strict_sorted_iff)
  then have "csc_entry (built_matrix nr nc es) r c = Some v \<longleftrightarrow> (int r, v) \<in> set ?col"
    by (simp add: csc_entry_def built_matrix_column [OF assms])
  also have "\<dots> \<longleftrightarrow> (int r, int c, v) \<in> set es"
    using assms by (force simp: entry_col_def entries_ok_def)
  finally show ?thesis .
qed

lemma set_acc_entries:
  "(r, c, v) \<in> set (acc_entries eps acc) \<longleftrightarrow> ((r, c), v) \<in> set acc \<and> f_gt (f_abs v) eps"
  by (force simp: acc_entries_def)

lemma acc_entries_keys:
  "map entry_key (acc_entries eps acc) = map fst (filter (\<lambda>p. f_gt (f_abs (snd p)) eps) acc)"
  by (induction acc) (auto simp: acc_entries_def entry_key_def)

lemma length_acc_entries: "length (acc_entries eps acc) \<le> length acc"
  by (metis acc_entries_keys length_filter_le length_map)

lemma acc_entries_ok:
  assumes "0 < nr" and "0 < nc" and "\<forall>t \<in> set ts. in_range nr nc t"
    and "int (length ts) \<le> i32_max"
  shows "entries_ok nr nc (sort_by entry_le (acc_entries eps (acc_of eps [] ts)))"
proof -
  let ?acc = "acc_of eps [] ts"
  have d: "distinct (map fst ?acc)" by (rule acc_of_distinct) simp
  then have "distinct (map entry_key (acc_entries eps ?acc))"
    unfolding acc_entries_keys by (simp add: distinct_map_filter)
  then have dist: "distinct (map entry_key (sort_by entry_le (acc_entries eps ?acc)))"
    by (metis mset_sort_by mset_map mset_eq_imp_distinct_iff)
  have keys: "fst ` set ?acc \<subseteq> (\<lambda>t. (mt_row t, mt_col t)) ` set ts"
    using acc_of_keys [of eps "[]" ts] by auto
  have "length ?acc = card (fst ` set ?acc)"
    using d by (metis distinct_card length_map set_map)
  also have "\<dots> \<le> card ((\<lambda>t. (mt_row t, mt_col t)) ` set ts)"
    by (rule card_mono [OF _ keys]) simp
  also have "\<dots> \<le> length ts" by (metis card_image_le card_length finite_set order_trans)
  finally have "int (length (acc_entries eps ?acc)) \<le> i32_max"
    using length_acc_entries [of eps ?acc] assms(4) by linarith
  moreover have "0 \<le> fst e \<and> fst e < nr \<and> 0 \<le> fst (snd e) \<and> fst (snd e) < nc"
    if "e \<in> set (acc_entries eps ?acc)" for e
  proof -
    obtain r c v where e: "e = (r, c, v)" by (cases e)
    with that have "(r, c) \<in> fst ` set ?acc" by (force simp: set_acc_entries)
    with keys assms(3) e show ?thesis by (auto simp: in_range_def)
  qed
  ultimately show ?thesis
    using assms(1,2) dist by (auto simp: entries_ok_def entry_order.sorted_sort_by)
qed

text \<open>
  Reference semantics of construction: the value at a position is what the kept triplets of
  that position add up to, in input order, and is absent when nothing was kept or the total
  does not exceed the threshold.
\<close>

definition aggregated :: "f64 \<Rightarrow> matrix_triplet list \<Rightarrow> nat \<Rightarrow> nat \<Rightarrow> f64 option" where
  "aggregated eps ts r c =
     (let vs = kept_values eps ts (int r) (int c); total = foldl f_add (Fin 0) vs
      in if vs \<noteq> [] \<and> f_gt (f_abs total) eps then Some total else None)"

lemma from_triplet_iter_built:
  assumes "0 < nr" and "0 < nc" and "\<forall>t \<in> set ts. in_range nr nc t"
    and "int (length ts) \<le> i32_max"
  shows "from_triplet_iter nr nc ts eps =
           Ok (built_matrix nr nc (sort_by entry_le (acc_entries eps (acc_of eps [] ts))))"
proof -
  have "fold_result (acc_step nr nc eps) [] ts = Ok (acc_of eps [] ts)"
    using assms(3) by (simp add: fold_acc_step)
  with csc_of_entries_built [OF acc_entries_ok [OF assms]] assms(1,2) show ?thesis
    by (simp add: from_triplet_iter_def ensure_def)
qed

lemma from_triplet_iter_entry:
  assumes "0 < nr" and "0 < nc" and "\<forall>t \<in> set ts. in_range nr nc t"
    and "int (length ts) \<le> i32_max" and "from_triplet_iter nr nc ts eps = Ok m"
    and "c < nat nc"
  shows "csc_entry m r c = aggregated eps ts r c"
proof -
  let ?acc = "acc_of eps [] ts"
  have m: "m = built_matrix nr nc (sort_by entry_le (acc_entries eps ?acc))"
    using from_triplet_iter_built [OF assms(1-4)] assms(5) by simp
  have "csc_entry m r c = Some v \<longleftrightarrow> aggregated eps ts r c = Some v" for v
  proof -
    have d: "distinct (map fst ?acc)" by (rule acc_of_distinct) simp
    have "csc_entry m r c = Some v \<longleftrightarrow> ((int r, int c), v) \<in> set ?acc \<and> f_gt (f_abs v) eps"
      unfolding m csc_entry_built [OF acc_entries_ok [OF assms(1-4)] assms(6)]
      by (simp add: set_acc_entries)
    also have "\<dots> \<longleftrightarrow> map_of ?acc (int r, int c) = Some v \<and> f_gt (f_abs v) eps"
      using d by simp
    also have "\<dots> \<longleftrightarrow> aggregated eps ts r c = Some v"
      by (auto simp: map_of_acc_of aggregated_def Let_def)
    finally show ?thesis .
  qed
  then show ?thesis by (metis option.exhaust)
qed

subsection \<open>Matrix-vector multiplication\<close>

text \<open>The reference product of a row: its stored entries in column order, added from zero.\<close>

definition row_terms :: "csc_matrix \<Rightarrow> f64 list \<Rightarrow> nat \<Rightarrow> nat list \<Rightarrow> f64 list" where
  "row_terms m x r cols =
     concat (map (\<lambda>c. case csc_entry m r c of None \<Rightarrow> [] | Some v \<Rightarrow> [f_mul v (x ! c)]) cols)"

definition row_product :: "csc_matrix \<Rightarrow> f64 list \<Rightarrow> nat \<Rightarrow> f64" where
  "row_product m x r = foldl f_add (Fin 0) (row_terms m x r [0..<nat (ncols m)])"

lemma length_mul_step [simp]: "length (mul_step m xj out idx) = length out"
  by (simp add: mul_step_def Let_def)

lemma length_mul_column [simp]: "length (mul_column m x out c) = length out"
  by (simp add: mul_column_def foldl_length)

lemma length_mul_columns [simp]: "length (foldl (mul_column m x) out cs) = length out"
  by (rule foldl_length) simp

lemma mul_step_nth:
  "r < length out \<Longrightarrow> mul_step m xj out i ! r =
     (if nat (row_idx m ! i) = r then f_add (out ! r) (f_mul (vals m ! i) xj) else out ! r)"
  by (auto simp: mul_step_def Let_def unwrap_or_def usize_try_from_def)

lemma foldl_mul_step_nth:
  "r < length out \<Longrightarrow> foldl (mul_step m xj) out is ! r =
     foldl f_add (out ! r)
       (map (\<lambda>i. f_mul (vals m ! i) xj) (filter (\<lambda>i. nat (row_idx m ! i) = r) is))"
  by (induction "is" arbitrary: out) (auto simp: mul_step_nth)

lemma subslice_nth_map:
  "e \<le> length xs \<Longrightarrow> subslice s e xs = map (\<lambda>i. xs ! i) [s..<e]"
  by (rule nth_equalityI) (auto simp: subslice_def)

lemma filter_key_unique:
  "distinct (map fst xs) \<Longrightarrow>
     filter (\<lambda>p. fst p = k) xs = (case map_of xs k of None \<Rightarrow> [] | Some v \<Rightarrow> [(k, v)])"
proof (induction xs)
  case Nil
  then show ?case by simp
next
  case (Cons p xs)
  then show ?case
    by (cases p) (force simp: filter_empty_conv split: option.split dest: map_of_SomeD)
qed

lemma csc_valid_column_distinct:
  assumes "csc_valid m" and "c < nat (ncols m)"
  shows "distinct (map fst (csc_column m c))"
proof -
  have "map fst (csc_column m c) = subslice (col_start m c) (col_start m (c + 1)) (row_idx m)"
    using assms(1) by (simp add: csc_column_def csc_valid_def flip: subslice_map)
  with assms show ?thesis by (simp add: csc_valid_def strict_sorted_iff)
qed

lemma csc_valid_start:
  assumes "csc_valid m" and "c \<le> nat (ncols m)"
  shows "int (col_start m c) = col_ptr m ! c" and "col_start m c \<le> length (vals m)"
  using csc_valid_col_ptr_bounds [OF assms]
  by (auto simp: col_start_def unwrap_or_def usize_try_from_def)

lemma csc_column_indices:
  assumes "csc_valid m" and "c < nat (ncols m)"
  shows "csc_column m c =
           map (\<lambda>i. (row_idx m ! i, vals m ! i)) [col_start m c..<col_start m (c + 1)]"
    and "i \<in> set [col_start m c..<col_start m (c + 1)] \<Longrightarrow> nat (row_idx m ! i) = r \<longleftrightarrow> row_idx m ! i = int r"
    and "i \<in> set [col_start m c..<col_start m (c + 1)] \<Longrightarrow> 0 \<le> row_idx m ! i \<and> row_idx m ! i < nrows m"
proof -
  have len: "length (row_idx m) = length (vals m)" using assms(1) by (simp add: csc_valid_def)
  have hi: "col_start m (c + 1) \<le> length (vals m)"
    using csc_valid_start(2) [OF assms(1), of "c + 1"] assms(2) by simp
  show "csc_column m c =
           map (\<lambda>i. (row_idx m ! i, vals m ! i)) [col_start m c..<col_start m (c + 1)]"
    unfolding csc_column_def using hi len by (subst subslice_nth_map) auto
  assume "i \<in> set [col_start m c..<col_start m (c + 1)]"
  then have "row_idx m ! i \<in> set (row_idx m)" using hi len by simp
  then show "nat (row_idx m ! i) = r \<longleftrightarrow> row_idx m ! i = int r"
    and "0 \<le> row_idx m ! i \<and> row_idx m ! i < nrows m"
    using assms(1) by (auto simp: csc_valid_def)
qed

lemma csc_column_filter:
  assumes "csc_valid m" and "c < nat (ncols m)"
  shows "filter (\<lambda>p. nat (fst p) = r) (csc_column m c) =
           (case csc_entry m r c of None \<Rightarrow> [] | Some v \<Rightarrow> [(int r, v)])"
proof -
  have "nat (fst p) = r \<longleftrightarrow> fst p = int r" if "p \<in> set (csc_column m c)" for p
    using that csc_column_indices(3) [OF assms] unfolding csc_column_indices(1) [OF assms] by auto
  then have "filter (\<lambda>p. nat (fst p) = r) (csc_column m c) =
      filter (\<lambda>p. fst p = int r) (csc_column m c)" by (rule filter_cong [OF refl])
  then show ?thesis
    by (simp add: filter_key_unique [OF csc_valid_column_distinct [OF assms]] csc_entry_def)
qed

lemma mul_column_nth:
  assumes "csc_valid m" and "c < nat (ncols m)" and "r < length out"
  shows "mul_column m x out c ! r = foldl f_add (out ! r) (row_terms m x r [c])"
proof -
  let ?is = "[col_start m c..<col_start m (c + 1)]"
  note col = csc_column_indices(1) [OF assms(1,2)]
  have "filter (\<lambda>i. nat (row_idx m ! i) = r) ?is = filter (\<lambda>i. row_idx m ! i = int r) ?is"
    by (rule filter_cong [OF refl csc_column_indices(2) [OF assms(1,2)]])
  then have "map (\<lambda>i. f_mul (vals m ! i) (x ! c)) (filter (\<lambda>i. nat (row_idx m ! i) = r) ?is)
      = map (\<lambda>p. f_mul (snd p) (x ! c)) (filter (\<lambda>p. fst p = int r) (csc_column m c))"
    unfolding col by (simp add: filter_map comp_def)
  also have "\<dots> = row_terms m x r [c]"
    by (simp add: filter_key_unique [OF csc_valid_column_distinct [OF assms(1,2)]]
        row_terms_def csc_entry_def split: option.split)
  finally show ?thesis
    by (simp add: mul_column_def foldl_mul_step_nth [OF assms(3)])
qed

lemma mul_columns_nth:
  assumes "csc_valid m" and "\<forall>c \<in> set cs. c < nat (ncols m)" and "r < length out"
  shows "foldl (mul_column m x) out cs ! r = foldl f_add (out ! r) (row_terms m x r cs)"
  using assms(2,3)
proof (induction cs arbitrary: out)
  case Nil
  then show ?case by (simp add: row_terms_def)
next
  case (Cons c cs)
  have "foldl (mul_column m x) (mul_column m x out c) cs ! r =
      foldl f_add (mul_column m x out c ! r) (row_terms m x r cs)"
    by (rule Cons.IH) (use Cons.prems in auto)
  also have "mul_column m x out c ! r = foldl f_add (out ! r) (row_terms m x r [c])"
    by (rule mul_column_nth [OF assms(1)]) (use Cons.prems in auto)
  finally show ?case by (simp add: row_terms_def)
qed

lemma length_mul_vector: "length (mul_vector m x) = nat (nrows m)"
  by (simp add: mul_vector_def Let_def unwrap_or_def usize_try_from_def)

lemma mul_vector_rows:
  assumes "csc_valid m" and "length x = nat (ncols m)"
  shows "mul_vector m x = map (row_product m x) [0..<nat (nrows m)]"
proof (rule nth_equalityI)
  show "length (mul_vector m x) = length (map (row_product m x) [0..<nat (nrows m)])"
    by (simp add: length_mul_vector)
  fix r assume "r < length (mul_vector m x)"
  then have r: "r < nat (nrows m)" by (simp add: length_mul_vector)
  have dims: "0 < nrows m" "0 < ncols m" using assms(1) by (auto simp: csc_valid_def)
  have "mul_vector m x ! r =
      foldl (mul_column m x) (replicate (nat (nrows m)) (Fin 0)) [0..<nat (ncols m)] ! r"
    using assms(2) dims by (simp add: mul_vector_def Let_def usize_try_from_def)
  also have "\<dots> = row_product m x r"
    using mul_columns_nth [OF assms(1), of "[0..<nat (ncols m)]" r] r
    by (simp add: row_product_def)
  finally show "mul_vector m x ! r = map (row_product m x) [0..<nat (nrows m)] ! r"
    using r by simp
qed

lemma mul_vector_wrong_length:
  "length x \<noteq> nat (ncols m) \<Longrightarrow> mul_vector m x = replicate (nat (nrows m)) (Fin 0)"
  by (auto simp: mul_vector_def Let_def unwrap_or_def usize_try_from_def)

subsection \<open>Properties\<close>

text \<open>
  C12. Building a matrix from coordinate triplets succeeds whenever the dimensions are positive,
  every index is in range and the number of triplets fits \<open>i32\<close>; the result is structurally
  valid, has the requested shape, and stores at each position exactly the in-order
  floating-point total of the triplets kept for that position (absent when nothing is kept or
  the total does not exceed the zero threshold).
\<close>

theorem from_triplets_correct:
  assumes "0 < nr" and "0 < nc" and "\<forall>t \<in> set ts. in_range nr nc t"
    and "int (length ts) \<le> i32_max"
  shows "\<exists>m. from_triplets nr nc ts eps = Ok m \<and> csc_valid m \<and> shape m = (nr, nc) \<and>
           (\<forall>r c. c < nat nc \<longrightarrow> csc_entry m r c = aggregated eps ts r c)"
proof -
  let ?m = "built_matrix nr nc (sort_by entry_le (acc_entries eps (acc_of eps [] ts)))"
  have ok: "from_triplet_iter nr nc ts eps = Ok ?m" by (rule from_triplet_iter_built [OF assms])
  have "csc_valid ?m" by (rule built_matrix_valid [OF acc_entries_ok [OF assms]])
  with ok from_triplet_iter_entry [OF assms ok] show ?thesis
    by (auto simp: from_triplets_def shape_def)
qed

theorem from_triplets_correct_witness:
  "\<exists>m. from_triplets 2 2
         [\<lparr>mt_row = 0, mt_col = 0, mt_value = Fin (3 / 2)\<rparr>,
          \<lparr>mt_row = 0, mt_col = 0, mt_value = Fin (5 / 2)\<rparr>,
          \<lparr>mt_row = 1, mt_col = 1, mt_value = Fin 3\<rparr>] (Fin 0) = Ok m \<and>
       csc_valid m \<and> csc_entry m 0 0 = Some (Fin 4) \<and> csc_entry m 1 1 = Some (Fin 3) \<and>
       csc_entry m 1 0 = None"
proof -
  let ?ts = "[\<lparr>mt_row = 0, mt_col = 0, mt_value = Fin (3 / 2)\<rparr>,
              \<lparr>mt_row = 0, mt_col = 0, mt_value = Fin (5 / 2)\<rparr>,
              \<lparr>mt_row = 1, mt_col = 1, mt_value = Fin 3\<rparr>] :: matrix_triplet list"
  have "aggregated (Fin 0) ?ts 0 0 = Some (Fin 4)" and "aggregated (Fin 0) ?ts 1 1 = Some (Fin 3)"
    and "aggregated (Fin 0) ?ts 1 0 = None"
    by (simp_all add: aggregated_def f_le_def f_lt_def f_eq_def f_add_def)
  with from_triplets_correct [of 2 2 ?ts "Fin 0"] show ?thesis
    by (fastforce simp: in_range_def i32_max_def)
qed

text \<open>
  The first triplet with an index outside the matrix decides the error: an out-of-range row is
  reported as such, otherwise the out-of-range column, whatever follows it.
\<close>

theorem from_triplets_first_error:
  assumes "0 < nr" and "0 < nc" and "\<forall>t \<in> set pre. in_range nr nc t" and "\<not> in_range nr nc t"
  shows "from_triplets nr nc (pre @ t # post) eps =
           Err (if 0 \<le> mt_row t \<and> mt_row t < nr then ColOutOfRange (mt_col t) nc
                else RowOutOfRange (mt_row t) nr)"
proof -
  have "fold_result (acc_step nr nc eps) [] pre = Ok (acc_of eps [] pre)"
    using assms(3) by (simp add: fold_acc_step)
  moreover have "acc_step nr nc eps acc t =
      Err (if 0 \<le> mt_row t \<and> mt_row t < nr then ColOutOfRange (mt_col t) nc
           else RowOutOfRange (mt_row t) nr)" for acc
    using assms(4) by (auto simp: acc_step_def in_range_def range_contains_def ensure_def)
  ultimately show ?thesis
    using assms(1,2)
    by (simp add: from_triplets_def from_triplet_iter_def fold_result_append ensure_def)
qed

theorem from_triplets_first_error_witness:
  "from_triplets 2 1 ([\<lparr>mt_row = 1, mt_col = 0, mt_value = Fin 1\<rparr>] @
       \<lparr>mt_row = 0, mt_col = 1, mt_value = Fin 1\<rparr> #
       [\<lparr>mt_row = 7, mt_col = 0, mt_value = Fin 1\<rparr>]) (Fin 0) = Err (ColOutOfRange 1 1)"
  using from_triplets_first_error
    [of 2 1 "[\<lparr>mt_row = 1, mt_col = 0, mt_value = Fin 1\<rparr>]"
       "\<lparr>mt_row = 0, mt_col = 1, mt_value = Fin 1\<rparr>"
       "[\<lparr>mt_row = 7, mt_col = 0, mt_value = Fin 1\<rparr>]" "Fin 0"]
  by (simp add: in_range_def)

text \<open>
  The structural validator accepts exactly the well-formed matrices: positive dimensions, a
  non-decreasing column-pointer array from 0 to the number of entries with one more element
  than columns, rows in range and strictly increasing within every column.
\<close>

theorem validate_decides_validity: "validate m = Ok () \<longleftrightarrow> csc_valid m"
  by (rule validate_iff_csc_valid)

text \<open>
  C17. Sparse matrix-vector multiplication of a valid matrix computes, for every row, the sum from
  zero of its stored entries times the vector's components in column order.
\<close>

theorem mul_vector_correct:
  assumes "csc_valid m" and "length x = nat (ncols m)"
  shows "mul_vector m x = map (row_product m x) [0..<nat (nrows m)]"
  by (rule mul_vector_rows [OF assms])

theorem mul_vector_correct_witness:
  "let m = \<lparr>nrows = 2, ncols = 2, col_ptr = [0, 2, 3], row_idx = [0, 1, 1],
            vals = [Fin 4, Fin 2, Fin 3]\<rparr>
   in csc_valid m \<and> mul_vector m [Fin 1, Fin 2] = [Fin 4, Fin 8] \<and>
      map (row_product m [Fin 1, Fin 2]) [0..<2] = [Fin 4, Fin 8]"
proof -
  let ?m = "\<lparr>nrows = 2, ncols = 2, col_ptr = [0, 2, 3], row_idx = [0, 1, 1],
            vals = [Fin 4, Fin 2, Fin 3]\<rparr>"
  have v: "csc_valid ?m"
    unfolding validate_iff_csc_valid [symmetric] by code_simp
  have "mul_vector ?m [Fin 1, Fin 2] = [Fin 4, Fin 8]"
    by (simp add: mul_vector_def mul_column_def mul_step_def col_start_def Let_def
        usize_try_from_def upt_rec f_add_def f_mul_def numeral_2_eq_2)
  with v mul_vector_correct [OF v, of "[Fin 1, Fin 2]"] show ?thesis
    by (simp add: Let_def)
qed

text \<open>
  The iteration order of the aggregation hash map is not observable: any permutation of the
  aggregated positions (whose keys are distinct) produces the same matrix.
\<close>

theorem aggregation_order_irrelevant:
  assumes "mset es = mset es'" and "distinct (map entry_key es)"
  shows "csc_of_entries nr nc es = csc_of_entries nr nc es'"
  by (rule csc_of_entries_order [OF assms])

theorem aggregation_order_irrelevant_witness:
  "csc_of_entries 2 2 [(1, 1, Fin 3), (0, 0, Fin 4)] =
   csc_of_entries 2 2 [(0, 0, Fin 4), (1, 1, Fin 3)]"
  by (rule aggregation_order_irrelevant) (simp_all add: entry_key_def)

text \<open>
  C21. A NaN contribution is not reported: it makes the total of its position NaN, and the final
  threshold filter then drops the position, so the matrix is built as if the position were
  structurally zero.
\<close>

theorem nan_position_dropped:
  assumes "0 < nr" and "0 < nc" and "\<forall>t \<in> set ts. in_range nr nc t"
    and "int (length ts) \<le> i32_max"
    and "t \<in> set ts" and "mt_value t = NaN"
  shows "\<exists>m. from_triplets nr nc ts eps = Ok m \<and>
           csc_entry m (nat (mt_row t)) (nat (mt_col t)) = None"
proof -
  let ?r = "nat (mt_row t)" and ?c = "nat (mt_col t)"
  have rng: "0 \<le> mt_row t" "0 \<le> mt_col t" "mt_col t < nc"
    using assms(3,5) by (auto simp: in_range_def)
  then have "NaN \<in> set (kept_values eps ts (int ?r) (int ?c))"
    using assms(5,6) by (force simp: kept_values_def)
  then have none: "aggregated eps ts ?r ?c = None"
    by (simp add: aggregated_def Let_def foldl_f_add_NaN)
  obtain m where m: "from_triplet_iter nr nc ts eps = Ok m"
    using from_triplet_iter_built [OF assms(1-4)] by blast
  then have "csc_entry m ?r ?c = None"
    using from_triplet_iter_entry [OF assms(1-4) m] rng none by simp
  with m show ?thesis by (auto simp: from_triplets_def)
qed

theorem nan_position_dropped_witness:
  "\<exists>m. from_triplets 1 1 [\<lparr>mt_row = 0, mt_col = 0, mt_value = NaN\<rparr>,
                          \<lparr>mt_row = 0, mt_col = 0, mt_value = Fin 1\<rparr>] (Fin 0) = Ok m \<and>
       csc_entry m 0 0 = None"
  using nan_position_dropped
    [of 1 1 "[\<lparr>mt_row = 0, mt_col = 0, mt_value = NaN\<rparr>, \<lparr>mt_row = 0, mt_col = 0, mt_value = Fin 1\<rparr>]"
       "\<lparr>mt_row = 0, mt_col = 0, mt_value = NaN\<rparr>" "Fin 0"]
  by (simp add: in_range_def i32_max_def)

end
