(* ===== verification/Data_Builder.thy ===== *)
theory Data_Builder
  imports Csc_Matrix
begin

text \<open>
  The matrix build stage (\<open>solver-core/src/data_builder.rs\<close>): from the sparse entries of one
  model version to \<open>M = I - A\<close>, the biosphere matrix \<open>B\<close> and the characterization matrix \<open>C\<close>.
\<close>

subsection \<open>Data\<close>

record sparse_triplet =
  st_row :: i32
  st_col :: i32
  st_value :: f64

record model_sparse_data =
  model_version :: uuid
  process_count :: i32
  flow_count :: i32
  impact_count :: i32
  technosphere_entries :: "sparse_triplet list"
  biosphere_entries :: "sparse_triplet list"
  characterization_factors :: "sparse_triplet list"

record built_matrices =
  bm_m :: csc_matrix
  bm_b :: csc_matrix
  bm_c :: csc_matrix
  m_nnz :: usize
  b_nnz :: usize
  c_nnz :: usize

datatype data_builder_error =
    BuilderInvalidDimensions i32 i32 i32
  | BuilderMatrix matrix_error

record data_builder =
  zero_epsilon :: f64

subsection \<open>Operations\<close>

definition data_builder_new :: "f64 \<Rightarrow> data_builder" where
  "data_builder_new eps = \<lparr>zero_epsilon = eps\<rparr>"

definition data_builder_default :: data_builder where
  "data_builder_default = data_builder_new (round64 (1 / 10 ^ 15))"

definition to_matrix_triplet :: "sparse_triplet \<Rightarrow> matrix_triplet" where
  "to_matrix_triplet t = \<lparr>mt_row = st_row t, mt_col = st_col t, mt_value = st_value t\<rparr>"

definition negated_triplet :: "sparse_triplet \<Rightarrow> matrix_triplet" where
  "negated_triplet t = \<lparr>mt_row = st_row t, mt_col = st_col t, mt_value = f_neg (st_value t)\<rparr>"

definition unit_triplet :: "nat \<Rightarrow> matrix_triplet" where
  "unit_triplet i = \<lparr>mt_row = int i, mt_col = int i, mt_value = Fin 1\<rparr>"

definition build :: "data_builder \<Rightarrow> model_sparse_data \<Rightarrow> (data_builder_error, built_matrices) result" where
  "build self data =
     and_then (ensure (\<not> (process_count data \<le> 0 \<or> flow_count data \<le> 0 \<or> impact_count data \<le> 0))
        (BuilderInvalidDimensions (process_count data) (flow_count data) (impact_count data))) (\<lambda>_.
     and_then (map_err BuilderMatrix (from_triplet_iter (process_count data) (process_count data)
        (map negated_triplet (technosphere_entries data) @
         map unit_triplet [0..<nat (process_count data)]) (zero_epsilon self))) (\<lambda>m.
     and_then (map_err BuilderMatrix (from_triplet_iter (flow_count data) (process_count data)
        (map to_matrix_triplet (biosphere_entries data)) (zero_epsilon self))) (\<lambda>b.
     and_then (map_err BuilderMatrix (from_triplet_iter (impact_count data) (flow_count data)
        (map to_matrix_triplet (characterization_factors data)) (zero_epsilon self))) (\<lambda>c.
     Ok \<lparr>bm_m = m, bm_b = b, bm_c = c, m_nnz = nnz m, b_nnz = nnz b, c_nnz = nnz c\<rparr>))))"

subsection \<open>The input's meaning\<close>

text \<open>
  The values an input list has at one position, those above the threshold only, in order.
\<close>

definition values_at :: "f64 \<Rightarrow> sparse_triplet list \<Rightarrow> nat \<Rightarrow> nat \<Rightarrow> f64 list" where
  "values_at eps es r c =
     map st_value (filter (\<lambda>e. st_row e = int r \<and> st_col e = int c \<and>
                              \<not> f_le (f_abs (st_value e)) eps) es)"

definition total_above :: "f64 \<Rightarrow> f64 list \<Rightarrow> f64 option" where
  "total_above eps vs =
     (let total = foldl f_add (Fin 0) vs
      in if vs \<noteq> [] \<and> f_gt (f_abs total) eps then Some total else None)"

definition data_in_range :: "model_sparse_data \<Rightarrow> bool" where
  "data_in_range data \<longleftrightarrow>
     0 < process_count data \<and> 0 < flow_count data \<and> 0 < impact_count data \<and>
     (\<forall>e \<in> set (technosphere_entries data).
        in_range (process_count data) (process_count data) (negated_triplet e)) \<and>
     (\<forall>e \<in> set (biosphere_entries data).
        in_range (flow_count data) (process_count data) (to_matrix_triplet e)) \<and>
     (\<forall>e \<in> set (characterization_factors data).
        in_range (impact_count data) (flow_count data) (to_matrix_triplet e))"

definition data_fits_i32 :: "model_sparse_data \<Rightarrow> bool" where
  "data_fits_i32 data \<longleftrightarrow>
     int (length (technosphere_entries data)) + process_count data \<le> i32_max \<and>
     int (length (biosphere_entries data)) \<le> i32_max \<and>
     int (length (characterization_factors data)) \<le> i32_max"

lemma aggregated_total_above:
  "aggregated eps ts r c = total_above eps (kept_values eps ts (int r) (int c))"
  by (simp add: aggregated_def total_above_def Let_def)

lemma kept_values_append:
  "kept_values eps (ts @ us) r c = kept_values eps ts r c @ kept_values eps us r c"
  by (simp add: kept_values_def)

lemma kept_values_plain:
  "kept_values eps (map to_matrix_triplet es) (int r) (int c) = values_at eps es r c"
  by (induction es) (auto simp: values_at_def to_matrix_triplet_def)

lemma kept_values_negated:
  "kept_values eps (map negated_triplet es) (int r) (int c) = map f_neg (values_at eps es r c)"
  by (induction es) (auto simp: values_at_def negated_triplet_def)

lemma kept_values_unit:
  assumes "\<not> f_le (Fin 1) eps"
  shows "kept_values eps (map unit_triplet [0..<n]) (int r) (int c) =
           (if r = c \<and> r < n then [Fin 1] else [])"
  using assms by (induction n) (auto simp: unit_triplet_def kept_values_append upt_Suc)

lemma from_triplet_iter_total:
  assumes "0 < nr" and "0 < nc" and "\<forall>t \<in> set ts. in_range nr nc t"
    and "int (length ts) \<le> i32_max"
  obtains m where "from_triplet_iter nr nc ts eps = Ok m" and "csc_valid m"
    and "nrows m = nr" and "ncols m = nc"
    and "\<And>r c. c < nat nc \<Longrightarrow> csc_entry m r c = aggregated eps ts r c"
  using from_triplet_iter_built [OF assms] built_matrix_valid [OF acc_entries_ok [OF assms]]
    from_triplet_iter_entry [OF assms] built_matrix_fields(1,2) by metis

lemma build_facts:
  assumes "data_in_range data" and "data_fits_i32 data" and "\<not> f_le (Fin 1) (zero_epsilon self)"
  shows "\<exists>bm. build self data = Ok bm \<and>
     csc_valid (bm_m bm) \<and> csc_valid (bm_b bm) \<and> csc_valid (bm_c bm) \<and>
     shape (bm_m bm) = (process_count data, process_count data) \<and>
     shape (bm_b bm) = (flow_count data, process_count data) \<and>
     shape (bm_c bm) = (impact_count data, flow_count data) \<and>
     (\<forall>r c. c < nat (process_count data) \<longrightarrow> csc_entry (bm_m bm) r c =
        total_above (zero_epsilon self)
          (map f_neg (values_at (zero_epsilon self) (technosphere_entries data) r c) @
           (if r = c then [Fin 1] else []))) \<and>
     (\<forall>r c. c < nat (process_count data) \<longrightarrow> csc_entry (bm_b bm) r c =
        total_above (zero_epsilon self) (values_at (zero_epsilon self) (biosphere_entries data) r c)) \<and>
     (\<forall>r c. c < nat (flow_count data) \<longrightarrow> csc_entry (bm_c bm) r c =
        total_above (zero_epsilon self) (values_at (zero_epsilon self) (characterization_factors data) r c))"
proof -
  let ?eps = "zero_epsilon self" and ?p = "process_count data"
  let ?mts = "map negated_triplet (technosphere_entries data) @ map unit_triplet [0..<nat ?p]"
  have dims: "0 < ?p" "0 < flow_count data" "0 < impact_count data"
    using assms(1) by (auto simp: data_in_range_def)
  have "\<forall>t \<in> set ?mts. in_range ?p ?p t" and "int (length ?mts) \<le> i32_max"
    using assms(1,2) by (auto simp: data_in_range_def data_fits_i32_def unit_triplet_def in_range_def)
  from from_triplet_iter_total [OF dims(1) dims(1) this]
  obtain m where m: "from_triplet_iter ?p ?p ?mts ?eps = Ok m" "csc_valid m" "nrows m = ?p" "ncols m = ?p"
    "\<And>r c. c < nat ?p \<Longrightarrow> csc_entry m r c = aggregated ?eps ?mts r c" by metis
  let ?bts = "map to_matrix_triplet (biosphere_entries data)"
  have "\<forall>t \<in> set ?bts. in_range (flow_count data) ?p t" and "int (length ?bts) \<le> i32_max"
    using assms(1,2) by (auto simp: data_in_range_def data_fits_i32_def)
  from from_triplet_iter_total [OF dims(2) dims(1) this]
  obtain b where b: "from_triplet_iter (flow_count data) ?p ?bts ?eps = Ok b" "csc_valid b"
    "nrows b = flow_count data" "ncols b = ?p"
    "\<And>r c. c < nat ?p \<Longrightarrow> csc_entry b r c = aggregated ?eps ?bts r c" by metis
  let ?cts = "map to_matrix_triplet (characterization_factors data)"
  have "\<forall>t \<in> set ?cts. in_range (impact_count data) (flow_count data) t"
    and "int (length ?cts) \<le> i32_max"
    using assms(1,2) by (auto simp: data_in_range_def data_fits_i32_def)
  from from_triplet_iter_total [OF dims(3) dims(2) this]
  obtain c where c: "from_triplet_iter (impact_count data) (flow_count data) ?cts ?eps = Ok c"
    "csc_valid c" "nrows c = impact_count data" "ncols c = flow_count data"
    "\<And>r k. k < nat (flow_count data) \<Longrightarrow> csc_entry c r k = aggregated ?eps ?cts r k" by metis
  have "build self data =
      Ok \<lparr>bm_m = m, bm_b = b, bm_c = c, m_nnz = nnz m, b_nnz = nnz b, c_nnz = nnz c\<rparr>"
    using dims m(1) b(1) c(1) by (simp add: build_def ensure_def map_err_def)
  with m b c show ?thesis
    by (simp add: shape_def aggregated_total_above kept_values_append kept_values_negated
        kept_values_plain kept_values_unit [OF assms(3)])
qed

subsection \<open>Properties\<close>

text \<open>
  C13. For in-range input whose sizes fit \<open>i32\<close>, the build stage succeeds and produces three valid
  matrices of the right shapes with: \<open>M\<close> at \<open>(r, c)\<close> the in-order total of the negated
  technosphere values there followed by \<open>1\<close> on the diagonal (that is \<open>M = I - A\<close>, in
  floating point), \<open>B\<close> and \<open>C\<close> the in-order totals of the biosphere values and the
  characterization factors; every total only where it exceeds the zero threshold.
\<close>

theorem build_correct:
  assumes "data_in_range data" and "data_fits_i32 data" and "\<not> f_le (Fin 1) (zero_epsilon self)"
  shows "\<exists>bm. build self data = Ok bm \<and>
     csc_valid (bm_m bm) \<and> csc_valid (bm_b bm) \<and> csc_valid (bm_c bm) \<and>
     shape (bm_m bm) = (process_count data, process_count data) \<and>
     shape (bm_b bm) = (flow_count data, process_count data) \<and>
     shape (bm_c bm) = (impact_count data, flow_count data) \<and>
     (\<forall>r c. c < nat (process_count data) \<longrightarrow> csc_entry (bm_m bm) r c =
        total_above (zero_epsilon self)
          (map f_neg (values_at (zero_epsilon self) (technosphere_entries data) r c) @
           (if r = c then [Fin 1] else []))) \<and>
     (\<forall>r c. c < nat (process_count data) \<longrightarrow> csc_entry (bm_b bm) r c =
        total_above (zero_epsilon self) (values_at (zero_epsilon self) (biosphere_entries data) r c)) \<and>
     (\<forall>r c. c < nat (flow_count data) \<longrightarrow> csc_entry (bm_c bm) r c =
        total_above (zero_epsilon self) (values_at (zero_epsilon self) (characterization_factors data) r c))"
  using assms by (rule build_facts)

theorem build_correct_witness:
  "\<exists>bm. build (data_builder_new (Fin 0))
     \<lparr>model_version = 0, process_count = 2, flow_count = 1, impact_count = 1,
      technosphere_entries = [\<lparr>st_row = 0, st_col = 1, st_value = Fin (1 / 2)\<rparr>],
      biosphere_entries = [\<lparr>st_row = 0, st_col = 0, st_value = Fin 2\<rparr>],
      characterization_factors = [\<lparr>st_row = 0, st_col = 0, st_value = Fin 3\<rparr>]\<rparr> = Ok bm \<and>
     csc_entry (bm_m bm) 0 0 = Some (Fin 1) \<and> csc_entry (bm_m bm) 0 1 = Some (Fin (- (1 / 2))) \<and>
     csc_entry (bm_m bm) 1 0 = None \<and> csc_entry (bm_b bm) 0 0 = Some (Fin 2)"
proof -
  let ?d = "\<lparr>model_version = 0, process_count = 2, flow_count = 1, impact_count = 1,
      technosphere_entries = [\<lparr>st_row = 0, st_col = 1, st_value = Fin (1 / 2)\<rparr>],
      biosphere_entries = [\<lparr>st_row = 0, st_col = 0, st_value = Fin 2\<rparr>],
      characterization_factors = [\<lparr>st_row = 0, st_col = 0, st_value = Fin 3\<rparr>]\<rparr>"
  have "data_in_range ?d" and "data_fits_i32 ?d"
    and eps: "\<not> f_le (Fin 1) (zero_epsilon (data_builder_new (Fin 0)))"
    by (simp_all add: data_in_range_def data_fits_i32_def in_range_def negated_triplet_def
        to_matrix_triplet_def i32_max_def data_builder_new_def f_le_def f_lt_def f_eq_def)
  from build_correct [OF this] show ?thesis
    by (fastforce simp: values_at_def total_above_def data_builder_new_def f_le_def f_lt_def
        f_eq_def f_add_def)
qed

end
