(* ===== verification/F64_Exact.thy ===== *)
theory F64_Exact
  imports F64
begin

text \<open>
  Error-free transformations on binary64: which rationals are representable, that rounding is
  a nearest representable value, and that the rounding errors of a product and of a sum whose
  first operand is the larger one are themselves representable, so that a fused multiply-add
  and two subtractions recover them exactly.
\<close>

subsection \<open>Representable rationals\<close>

definition multiple_of :: "int \<Rightarrow> rat \<Rightarrow> bool" where
  "multiple_of u q \<longleftrightarrow> (\<exists>n :: int. q = of_int n * pow2 u)"

definition representable :: "rat \<Rightarrow> bool" where
  "representable q \<longleftrightarrow> (\<exists>m k. q = of_int m * pow2 k \<and> \<bar>m\<bar> < 2 ^ 53 \<and> - 1074 \<le> k)"

definition exp_of :: "rat \<Rightarrow> int" where
  "exp_of q = unit_exp \<bar>q\<bar>"

definition round_val :: "rat \<Rightarrow> rat" where
  "round_val q = sgn q * round_mag \<bar>q\<bar>"

text \<open>A finite binary64 datum.\<close>

definition f_rep :: "f64 \<Rightarrow> bool" where
  "f_rep x \<longleftrightarrow> is_finite x \<and> representable (f_val x) \<and> \<bar>f_val x\<bar> < 2 ^ 1024"

lemma pow2_53 [simp]: "pow2 53 = 9007199254740992" "pow2 54 = 18014398509481984"
  by (simp_all add: pow2_def)

lemma multiple_of_add: "multiple_of u p \<Longrightarrow> multiple_of u q \<Longrightarrow> multiple_of u (p + q)"
  unfolding multiple_of_def by (metis of_int_add distrib_right)

lemma multiple_of_minus: "multiple_of u q \<Longrightarrow> multiple_of u (- q)"
  unfolding multiple_of_def by (metis of_int_minus mult_minus_left)

lemma multiple_of_diff: "multiple_of u p \<Longrightarrow> multiple_of u q \<Longrightarrow> multiple_of u (p - q)"
  using multiple_of_add [of u p "- q"] multiple_of_minus [of u q] by simp

lemma multiple_of_0 [simp]: "multiple_of u 0"
  unfolding multiple_of_def by (intro exI [of _ 0]) simp

lemma multiple_of_mult:
  "multiple_of u p \<Longrightarrow> multiple_of v q \<Longrightarrow> multiple_of (u + v) (p * q)"
proof -
  assume "multiple_of u p" "multiple_of v q"
  then obtain m n where "p = of_int m * pow2 u" "q = of_int n * pow2 v"
    unfolding multiple_of_def by blast
  then have "p * q = of_int (m * n) * pow2 (u + v)" by (simp add: pow2_add)
  then show ?thesis unfolding multiple_of_def by blast
qed

lemma multiple_of_mono:
  assumes "multiple_of u q" and "v \<le> u"
  shows "multiple_of v q"
proof -
  from assms(1) obtain n where n: "q = of_int n * pow2 u" by (auto simp: multiple_of_def)
  from assms(2) obtain j where j: "u = v + int j" using zle_iff_zadd by blast
  have "q = of_int (n * 2 ^ j) * pow2 v" unfolding n j by (simp add: pow2_add)
  then show ?thesis unfolding multiple_of_def by blast
qed

lemma multiple_of_sgn_mult: "multiple_of u q \<Longrightarrow> multiple_of u (sgn p * q)"
  by (cases "p = 0"; cases "0 < p") (auto simp: sgn_if intro: multiple_of_minus)

lemma multiple_of_abs: "multiple_of u q \<Longrightarrow> multiple_of u \<bar>q\<bar>"
  by (cases "0 \<le> q") (auto intro: multiple_of_minus)

lemma representable_minus: "representable q \<Longrightarrow> representable (- q)"
proof -
  assume "representable q"
  then obtain m k where "q = of_int m * pow2 k" "\<bar>m\<bar> < 2 ^ 53" "- 1074 \<le> k"
    by (auto simp: representable_def)
  then have "- q = of_int (- m) * pow2 k" "\<bar>- m\<bar> < 2 ^ 53" "- 1074 \<le> k" by auto
  then show ?thesis unfolding representable_def by blast
qed

lemma representable_0 [simp]: "representable 0"
  unfolding representable_def by (intro exI [of _ 0]) auto

lemma representableI:
  assumes "multiple_of u q" and "- 1074 \<le> u" and "\<bar>q\<bar> \<le> pow2 (53 + u)"
  shows "representable q"
proof -
  from assms(1) obtain n where n: "q = of_int n * pow2 u" by (auto simp: multiple_of_def)
  have "\<bar>of_int n :: rat\<bar> * pow2 u \<le> pow2 53 * pow2 u"
    using assms(3) n by (simp add: abs_mult pow2_add)
  then have "\<bar>of_int n :: rat\<bar> \<le> pow2 53" by simp
  then have "\<bar>of_int n :: rat\<bar> \<le> of_int (2 ^ 53)" by (simp add: pow2_def)
  then have le: "\<bar>n\<bar> \<le> 2 ^ 53" by (metis of_int_abs of_int_le_iff)
  show ?thesis
  proof (cases "\<bar>n\<bar> = 2 ^ 53")
    case True
    then have "q = of_int (sgn n) * pow2 (53 + u)"
      unfolding n pow2_add by (cases "0 \<le> n") (auto simp: minus_equation_iff [of n])
    with assms(2) show ?thesis
      unfolding representable_def by (intro exI [of _ "sgn n"] exI [of _ "53 + u"]) (auto simp: sgn_if)
  next
    case False
    with le n assms(2) show ?thesis unfolding representable_def by force
  qed
qed

lemma unit_exp_ge: "- 1074 \<le> unit_exp q" "- 1074 \<le> exp_of q"
  by (simp_all add: unit_exp_def exp_of_def)

lemma unit_exp_bound: "0 < q \<Longrightarrow> q < pow2 (53 + unit_exp q)"
proof -
  assume q: "0 < q"
  have "pow2 (ilog2 q + 1) \<le> pow2 (53 + unit_exp q)"
    by (rule pow2_mono) (simp add: unit_exp_def)
  with ilog2_bounds(2) [OF q] show ?thesis by linarith
qed

lemma unit_exp_le:
  assumes "0 < q" and "q < pow2 (53 + k)" and "- 1074 \<le> k"
  shows "unit_exp q \<le> k"
  using ilog2_less [OF assms(1,2)] assms(3) by (simp add: unit_exp_def)

lemma unit_exp_mono: "0 < p \<Longrightarrow> p \<le> q \<Longrightarrow> unit_exp p \<le> unit_exp q"
  by (rule unit_exp_le) (use unit_exp_bound [of q] unit_exp_ge in auto)

lemma exp_of_bound: "q \<noteq> 0 \<Longrightarrow> \<bar>q\<bar> < pow2 (53 + exp_of q)"
  by (simp add: exp_of_def unit_exp_bound)

text \<open>A representable value is a multiple of its own unit, with a 53-bit integer.\<close>

lemma representable_unit:
  assumes "representable q" and "q \<noteq> 0"
  shows "multiple_of (exp_of q) q" and "\<bar>q\<bar> \<le> pow2 (53 + exp_of q) - pow2 (exp_of q)"
proof -
  from assms(1) obtain m k where mk: "q = of_int m * pow2 k" "\<bar>m\<bar> < 2 ^ 53" "- 1074 \<le> k"
    by (auto simp: representable_def)
  have "\<bar>of_int m :: rat\<bar> < of_int (2 ^ 53)" using mk(2) by (metis of_int_abs of_int_less_iff)
  then have "\<bar>q\<bar> < pow2 (53 + k)"
    unfolding mk(1) pow2_add by (simp add: abs_mult pow2_def)
  then have "exp_of q \<le> k" unfolding exp_of_def using assms(2) mk(3) by (intro unit_exp_le) auto
  then show m: "multiple_of (exp_of q) q"
    by (rule multiple_of_mono [rotated]) (use mk in \<open>auto simp: multiple_of_def\<close>)
  then obtain n where n: "q = of_int n * pow2 (exp_of q)" by (auto simp: multiple_of_def)
  let ?e = "exp_of q"
  have "\<bar>of_int n :: rat\<bar> * pow2 ?e < pow2 53 * pow2 ?e"
    using exp_of_bound [OF assms(2)] by (subst (asm) n) (simp add: abs_mult pow2_add)
  then have "\<bar>of_int n :: rat\<bar> < of_int (2 ^ 53)" by (simp add: pow2_def)
  then have "\<bar>n\<bar> < 2 ^ 53" by (metis of_int_abs of_int_less_iff)
  then have "\<bar>n\<bar> \<le> 2 ^ 53 - 1" by simp
  then have "\<bar>of_int n :: rat\<bar> \<le> of_int (2 ^ 53 - 1)" by (metis of_int_abs of_int_le_iff)
  then have "\<bar>of_int n :: rat\<bar> * pow2 ?e \<le> (pow2 53 - 1) * pow2 ?e"
    by (intro mult_right_mono) (auto simp: pow2_def)
  then have "\<bar>of_int n * pow2 ?e\<bar> \<le> pow2 (53 + ?e) - pow2 ?e"
    by (simp add: abs_mult pow2_add left_diff_distrib)
  then show "\<bar>q\<bar> \<le> pow2 (53 + ?e) - pow2 ?e" by (simp flip: n)
qed

subsection \<open>Rounding is a nearest representable value\<close>

lemma round_mag_multiple: "multiple_of (unit_exp q) (round_mag q)"
  by (auto simp: multiple_of_def round_mag_def)

lemma round_mag_of_multiple:
  assumes "multiple_of (unit_exp q) q"
  shows "round_mag q = q"
proof -
  from assms obtain n where "q = of_int n * pow2 (unit_exp q)" by (auto simp: multiple_of_def)
  then have n: "q / pow2 (unit_exp q) = of_int n" by (metis nonzero_mult_div_cancel_right pow2_nonzero)
  have "round_mag q = of_int n * pow2 (unit_exp q)" by (simp add: round_mag_def n)
  also have "\<dots> = q" by (simp flip: n)
  finally show ?thesis .
qed

lemma rne_nearest: "\<bar>of_int (rne q) - q\<bar> \<le> \<bar>of_int n - q\<bar>"
proof -
  have fl: "of_int \<lfloor>q\<rfloor> \<le> q" "q < of_int \<lfloor>q\<rfloor> + 1" using floor_correct [of q] by auto
  have n: "(of_int n :: rat) \<le> of_int \<lfloor>q\<rfloor> \<or> of_int \<lfloor>q\<rfloor> + 1 \<le> (of_int n :: rat)"
    by (metis of_int_1 of_int_add of_int_le_iff not_le zless_imp_add1_zle)
  have "of_int (rne q) = (of_int \<lfloor>q\<rfloor> :: rat) \<and> q - of_int \<lfloor>q\<rfloor> \<le> 1 / 2 \<or>
      of_int (rne q) = (of_int \<lfloor>q\<rfloor> + 1 :: rat) \<and> 1 / 2 \<le> q - of_int \<lfloor>q\<rfloor>"
    by (auto simp: rne_def Let_def)
  with fl n show ?thesis by linarith
qed

lemma round_mag_nearest:
  assumes "multiple_of (unit_exp q) y"
  shows "\<bar>round_mag q - q\<bar> \<le> \<bar>y - q\<bar>"
proof -
  let ?u = "pow2 (unit_exp q)"
  from assms obtain n where n: "y = of_int n * ?u" by (auto simp: multiple_of_def)
  have scale: "\<bar>of_int k * ?u - q\<bar> = \<bar>of_int k - q / ?u\<bar> * ?u" for k
  proof -
    have "of_int k * ?u - q = (of_int k - q / ?u) * ?u" by (simp add: left_diff_distrib)
    then show ?thesis by (simp add: abs_mult)
  qed
  show ?thesis
    unfolding n round_mag_def scale
    by (intro mult_right_mono rne_nearest less_imp_le pow2_pos)
qed

lemma round_val_0 [simp]: "round_val 0 = 0"
  by (simp add: round_val_def)

lemma round_val_diff: "\<bar>round_val q - q\<bar> = \<bar>round_mag \<bar>q\<bar> - \<bar>q\<bar>\<bar>"
  if "q \<noteq> 0"
  using that by (cases "0 < q") (auto simp: round_val_def sgn_if)

lemma round_val_error: "q \<noteq> 0 \<Longrightarrow> \<bar>round_val q - q\<bar> \<le> pow2 (exp_of q) / 2"
  using round_mag_error [of "\<bar>q\<bar>"] by (simp add: round_val_diff exp_of_def)

lemma round_val_multiple: "multiple_of (exp_of q) (round_val q)"
  unfolding exp_of_def round_val_def by (intro multiple_of_sgn_mult round_mag_multiple)

lemma round_val_nearest:
  assumes "q \<noteq> 0" and "multiple_of (exp_of q) y"
  shows "\<bar>round_val q - q\<bar> \<le> \<bar>y - q\<bar>"
proof -
  have "multiple_of (unit_exp \<bar>q\<bar>) (sgn q * y)"
    using assms(2) by (simp add: exp_of_def multiple_of_sgn_mult)
  from round_mag_nearest [OF this] have "\<bar>round_val q - q\<bar> \<le> \<bar>sgn q * y - \<bar>q\<bar>\<bar>"
    by (simp add: round_val_diff assms(1))
  also have "\<dots> = \<bar>y - q\<bar>" using assms(1) by (auto simp: sgn_if)
  finally show ?thesis .
qed

lemma round_val_of_multiple: "multiple_of (exp_of q) q \<Longrightarrow> round_val q = q"
  using round_mag_of_multiple [of "\<bar>q\<bar>"] multiple_of_abs [of "exp_of q" q]
  by (simp add: round_val_def exp_of_def sgn_mult_abs)

lemma round_val_exact: "representable q \<Longrightarrow> round_val q = q"
  using representable_unit(1) round_val_of_multiple by (cases "q = 0") auto

lemma round_val_multiple_kept:
  assumes "multiple_of u q"
  shows "multiple_of u (round_val q)"
proof (cases "u \<le> exp_of q")
  case True
  then show ?thesis using round_val_multiple multiple_of_mono by blast
next
  case False
  then have "round_val q = q"
    using assms multiple_of_mono round_val_of_multiple by (metis linear)
  with assms show ?thesis by simp
qed

lemma round_val_nonneg: "0 \<le> q \<Longrightarrow> 0 \<le> round_val q"
  by (simp add: round_val_def round_mag_nonneg sgn_if)

lemma round_val_nonpos: "q \<le> 0 \<Longrightarrow> round_val q \<le> 0"
  by (simp add: round_val_def round_mag_nonneg sgn_if)

lemma round_val_representable: "representable (round_val q)"
proof (cases "q = 0")
  case False
  let ?w = "exp_of q"
  have "\<bar>round_val q\<bar> = round_mag \<bar>q\<bar>"
    using False by (simp add: round_val_def abs_mult abs_of_nonneg round_mag_nonneg)
  also have "\<dots> \<le> pow2 (53 + ?w)"
  proof -
    have "\<bar>q\<bar> / pow2 ?w \<le> of_int (2 ^ 53)"
      using exp_of_bound [OF False] by (simp add: divide_le_eq pow2_add)
    then have "of_int (rne (\<bar>q\<bar> / pow2 ?w)) \<le> (of_int (2 ^ 53) :: rat)"
      using rne_nearest [of "\<bar>q\<bar> / pow2 ?w" "2 ^ 53"] by linarith
    then have "of_int (rne (\<bar>q\<bar> / pow2 ?w)) * pow2 ?w \<le> of_int (2 ^ 53) * pow2 ?w"
      by (intro mult_right_mono) (auto simp: less_imp_le)
    then show ?thesis by (simp add: round_mag_def exp_of_def pow2_add)
  qed
  finally show ?thesis by (rule representableI [OF round_val_multiple unit_exp_ge(2)])
qed simp

subsection \<open>The bits an addition loses\<close>

lemma exp_of_sum_cases:
  assumes "representable a" and "representable b" and "\<bar>b\<bar> \<le> \<bar>a\<bar>" and "b \<noteq> 0" and "a + b \<noteq> 0"
  shows "exp_of (a + b) \<le> exp_of a \<or>
         exp_of (a + b) = exp_of a + 1 \<and> pow2 (exp_of a) \<le> \<bar>b\<bar>"
proof (cases "exp_of (a + b) \<le> exp_of a")
  case False
  let ?ua = "exp_of a" and ?w = "exp_of (a + b)"
  have a0: "a \<noteq> 0" using assms(3,4) by auto
  note ua = representable_unit(2) [OF assms(1) a0]
  have "\<bar>a + b\<bar> \<le> 2 * \<bar>a\<bar>" using assms(3) by linarith
  also have "\<dots> < pow2 (53 + (?ua + 1))"
    using exp_of_bound [OF a0] by (simp add: pow2_add)
  finally have "?w \<le> ?ua + 1"
    unfolding exp_of_def using assms(5) unit_exp_ge by (intro unit_exp_le) (auto simp: add_increasing2)
  with False have w: "?w = ?ua + 1" by simp
  then have "?w = ilog2 \<bar>a + b\<bar> - 52"
    using unit_exp_ge(2) [of a] by (simp add: exp_of_def unit_exp_def split: if_splits)
  then have "pow2 (53 + ?ua) \<le> \<bar>a + b\<bar>"
    using ilog2_bounds(1) [of "\<bar>a + b\<bar>"] assms(5) w by simp
  then have "pow2 (53 + ?ua) \<le> \<bar>a\<bar> + \<bar>b\<bar>" by linarith
  with ua have "pow2 ?ua \<le> \<bar>b\<bar>" by linarith
  with w show ?thesis by simp
qed simp

lemma sum_error_bound:
  assumes "representable a" and "representable b" and "\<bar>b\<bar> \<le> \<bar>a\<bar>" and "b \<noteq> 0" and "a + b \<noteq> 0"
  shows "\<bar>round_val (a + b) - (a + b)\<bar> \<le> \<bar>b\<bar>"
  using exp_of_sum_cases [OF assms]
proof
  assume "exp_of (a + b) \<le> exp_of a"
  then have "multiple_of (exp_of (a + b)) a"
    using representable_unit(1) [OF assms(1)] assms(3,4) multiple_of_mono by fastforce
  from round_val_nearest [OF assms(5) this] show ?thesis by simp
next
  assume "exp_of (a + b) = exp_of a + 1 \<and> pow2 (exp_of a) \<le> \<bar>b\<bar>"
  with round_val_error [OF assms(5)] show ?thesis by (simp add: pow2_add)
qed

lemma fast_two_sum:
  assumes "representable a" and "representable b" and "\<bar>b\<bar> \<le> \<bar>a\<bar>"
  defines "s \<equiv> round_val (a + b)"
  shows "representable (a - s)" and "representable (a + b - s)" and "\<bar>a + b - s\<bar> \<le> \<bar>b\<bar>"
proof -
  have "representable (a - s) \<and> representable (a + b - s) \<and> \<bar>a + b - s\<bar> \<le> \<bar>b\<bar>"
  proof (cases "b = 0 \<or> a + b = 0")
    case True
    then show ?thesis
      using assms(1,2) round_val_exact [OF assms(1)] by (auto simp: s_def)
  next
    case False
    then have b0: "b \<noteq> 0" and ab0: "a + b \<noteq> 0" and a0: "a \<noteq> 0" using assms(3) by auto
    let ?u = "exp_of b" and ?ua = "exp_of a" and ?w = "exp_of (a + b)"
    have uua: "?u \<le> ?ua" unfolding exp_of_def by (rule unit_exp_mono) (use assms(3) b0 in auto)
    have ma: "multiple_of ?ua a" "multiple_of ?u a" and mb: "multiple_of ?u b"
      using representable_unit(1) assms(1,2) a0 b0 uua multiple_of_mono by blast+
    then have mab: "multiple_of ?u (a + b)" by (intro multiple_of_add)
    have e: "\<bar>a + b - s\<bar> \<le> \<bar>b\<bar>"
      using sum_error_bound [OF assms(1-3) b0 ab0] by (simp add: s_def abs_minus_commute)
    have ms: "multiple_of ?u s" unfolding s_def by (rule round_val_multiple_kept [OF mab])
    have rep_e: "representable (a + b - s)"
      by (rule representableI [OF multiple_of_diff [OF mab ms] unit_exp_ge(2)])
        (use e exp_of_bound [OF b0] in linarith)
    moreover have "representable (a - s)"
    proof (cases "?w \<le> ?u")
      case True
      then have "s = a + b" unfolding s_def using mab multiple_of_mono round_val_of_multiple by blast
      with assms(2) representable_minus show ?thesis by simp
    next
      case w: False
      show ?thesis
      proof (cases "?u < ?ua")
        case True
        have "multiple_of (?u + 1) s" unfolding s_def
          using w round_val_multiple [of "a + b"] multiple_of_mono [of ?w _ "?u + 1"] by simp
        moreover have "multiple_of (?u + 1) a" using ma(1) multiple_of_mono True by simp
        ultimately have "multiple_of (?u + 1) (a - s)" by (rule multiple_of_diff [rotated])
        moreover have "\<bar>a - s\<bar> \<le> pow2 (53 + (?u + 1))"
        proof -
          have "\<bar>a - s\<bar> \<le> 2 * \<bar>b\<bar>" using e by linarith
          with exp_of_bound [OF b0] show ?thesis by (simp add: pow2_add)
        qed
        ultimately show ?thesis
          using unit_exp_ge(2) [of b] by (intro representableI [of "?u + 1"]) auto
      next
        case False
        with uua have ua: "?ua = ?u" by simp
        with w exp_of_sum_cases [OF assms(1-3) b0 ab0] have "?w = ?u + 1" by auto
        then have "\<bar>s - (a + b)\<bar> \<le> pow2 ?u"
          using round_val_error [OF ab0] by (simp add: s_def pow2_add)
        then have "\<bar>a - s\<bar> \<le> pow2 (53 + ?u)"
          using representable_unit(2) [OF assms(2) b0] by linarith
        with multiple_of_diff [OF ma(2) ms] unit_exp_ge(2) [of b] show ?thesis
          by (intro representableI)
      qed
    qed
    ultimately show ?thesis using e by simp
  qed
  then show "representable (a - s)" and "representable (a + b - s)" and "\<bar>a + b - s\<bar> \<le> \<bar>b\<bar>" by auto
qed

subsection \<open>The bits a multiplication loses\<close>

lemma product_error_representable:
  assumes "representable a" and "representable b" and "a \<noteq> 0" and "b \<noteq> 0"
    and "- 1074 \<le> exp_of a + exp_of b"
  shows "representable (a * b - round_val (a * b))"
proof -
  let ?k = "exp_of a + exp_of b" and ?q = "a * b"
  have q0: "?q \<noteq> 0" using assms by simp
  have mq: "multiple_of ?k ?q"
    by (intro multiple_of_mult representable_unit(1)) (use assms in auto)
  show ?thesis
  proof (cases "exp_of ?q \<le> ?k")
    case True
    then have "round_val ?q = ?q" using mq multiple_of_mono round_val_of_multiple by blast
    then show ?thesis by simp
  next
    case False
    have "\<bar>?q\<bar> < pow2 (53 + exp_of a) * pow2 (53 + exp_of b)"
      unfolding abs_mult using exp_of_bound assms(3,4) by (intro mult_strict_mono) auto
    also have "\<dots> = pow2 (53 + (53 + ?k))" by (simp add: pow2_add [symmetric] algebra_simps)
    finally have "exp_of ?q \<le> 53 + ?k"
      unfolding exp_of_def [of ?q] using q0 assms(5) by (intro unit_exp_le) auto
    then have "pow2 (exp_of ?q) \<le> pow2 (53 + ?k)" by (rule pow2_mono)
    with round_val_error [OF q0] have "\<bar>?q - round_val ?q\<bar> \<le> pow2 (53 + ?k)"
      using pow2_pos [of "exp_of ?q"] by linarith
    then show ?thesis
      by (rule representableI [OF multiple_of_diff [OF mq round_val_multiple_kept [OF mq]] assms(5)])
  qed
qed

lemma round_val_error_small:
  assumes "\<bar>round_val q\<bar> < B" and "1 \<le> B"
  shows "\<bar>q - round_val q\<bar> < B"
proof (cases "q = 0")
  case False
  have "pow2 (exp_of q) \<le> \<bar>q\<bar> \<or> pow2 (exp_of q) \<le> 1"
  proof (cases "exp_of q \<le> 0")
    case True
    then have "pow2 (exp_of q) \<le> pow2 0" by (rule pow2_mono)
    then show ?thesis by simp
  next
    case pos: False
    then have "exp_of q \<le> ilog2 \<bar>q\<bar>" by (simp add: exp_of_def unit_exp_def split: if_splits)
    then have "pow2 (exp_of q) \<le> pow2 (ilog2 \<bar>q\<bar>)" by (rule pow2_mono)
    with ilog2_bounds(1) [of "\<bar>q\<bar>"] False show ?thesis by simp
  qed
  with round_val_error [OF False] assms show ?thesis by linarith
qed (use assms in simp)

subsection \<open>Floating-point operations\<close>

lemma round64_finite_val:
  assumes "is_finite (round64 q)"
  shows "f_val (round64 q) = round_val q" and "\<bar>round_val q\<bar> < 2 ^ 1024"
proof -
  have "0 \<le> round_mag \<bar>q\<bar>" by (simp add: round_mag_nonneg)
  with assms show "f_val (round64 q) = round_val q" and "\<bar>round_val q\<bar> < 2 ^ 1024"
    by (auto simp: round64_def round_val_def Let_def sgn_if abs_mult split: if_splits)
qed

lemma round64_rep_finite: "\<bar>round_val q\<bar> < 2 ^ 1024 \<Longrightarrow> is_finite (round64 q)"
  using round_mag_nonneg [of "\<bar>q\<bar>"]
  by (auto simp: round64_def round_val_def Let_def abs_mult sgn_if split: if_splits)

lemma round64_f_rep: "is_finite (round64 q) \<Longrightarrow> f_rep (round64 q)"
  using round64_finite_val [of q] by (simp add: f_rep_def round_val_representable)

lemma f_rep_finite: "f_rep x \<Longrightarrow> is_finite x"
  by (simp add: f_rep_def)

lemma is_finite_neg [simp]: "is_finite (f_neg x) = is_finite x"
  by (cases x) auto

lemma f_val_neg [simp]: "f_val (f_neg x) = - f_val x"
  by (cases x) auto

lemma f_val_abs: "is_finite x \<Longrightarrow> f_val (f_abs x) = \<bar>f_val x\<bar> \<and> is_finite (f_abs x)"
  by (cases x) auto

lemma is_zero_iff: "is_finite x \<Longrightarrow> is_zero x \<longleftrightarrow> f_val x = 0"
  by (cases x) auto

lemma finite_not_special: "is_finite x \<Longrightarrow> \<not> is_nan x \<and> x \<noteq> PosInf \<and> x \<noteq> NegInf"
  by (cases x) auto

lemma f_rep_neg: "f_rep x \<Longrightarrow> f_rep (f_neg x)"
  by (simp add: f_rep_def representable_minus)

lemma f_le_finite:
  "is_finite x \<Longrightarrow> is_finite y \<Longrightarrow> f_le x y \<longleftrightarrow> f_val x \<le> f_val y"
  using finite_not_special [of x] finite_not_special [of y]
  by (auto simp: f_le_def f_lt_def f_eq_def)

lemma f_add_finite:
  assumes "is_finite x" and "is_finite y"
  shows "f_add x y = NegZero \<and> f_val x + f_val y = 0 \<or> f_add x y = round64 (f_val x + f_val y)"
  using assms finite_not_special [of x] finite_not_special [of y] by (auto simp: f_add_def)

lemma f_add_val:
  assumes "is_finite x" and "is_finite y" and "is_finite (f_add x y)"
  shows "f_val (f_add x y) = round_val (f_val x + f_val y)" and "f_rep (f_add x y)"
  using f_add_finite [OF assms(1,2)] assms(3) round64_finite_val(1) round64_f_rep
  by (auto simp: f_rep_def)

lemma f_add_exact:
  assumes "is_finite x" and "is_finite y" and "representable (f_val x + f_val y)"
    and "\<bar>f_val x + f_val y\<bar> < 2 ^ 1024"
  shows "f_val (f_add x y) = f_val x + f_val y" and "is_finite (f_add x y)"
proof -
  have "is_finite (round64 (f_val x + f_val y))"
    by (rule round64_rep_finite) (use assms in \<open>simp add: round_val_exact\<close>)
  with f_add_finite [OF assms(1,2)] show fin: "is_finite (f_add x y)" by auto
  show "f_val (f_add x y) = f_val x + f_val y"
    using f_add_val(1) [OF assms(1,2) fin] assms(3) by (simp add: round_val_exact)
qed

lemma f_mul_val:
  assumes "is_finite x" and "is_finite y" and "is_finite (f_mul x y)"
  shows "f_val (f_mul x y) = round_val (f_val x * f_val y)" and "f_rep (f_mul x y)"
proof -
  have "f_val (f_mul x y) = round_val (f_val x * f_val y) \<and> f_rep (f_mul x y)"
  proof (cases "is_zero x \<or> is_zero y")
    case True
    then have "f_mul x y = zero_of (sign_neg x \<noteq> sign_neg y)"
      using assms(1,2) finite_not_special [of x] finite_not_special [of y] by (simp add: f_mul_def Let_def)
    moreover have "f_val x * f_val y = 0" using True assms(1,2) by (auto simp: is_zero_iff)
    ultimately show ?thesis by (auto simp: zero_of_def f_rep_def)
  next
    case False
    then have "f_mul x y = round64 (f_val x * f_val y)"
      using assms(1,2) finite_not_special [of x] finite_not_special [of y] by (simp add: f_mul_def Let_def)
    with assms(3) show ?thesis by (simp add: round64_finite_val round64_f_rep)
  qed
  then show "f_val (f_mul x y) = round_val (f_val x * f_val y)" and "f_rep (f_mul x y)" by auto
qed

lemma f_fma_exact:
  assumes "is_finite x" and "is_finite y" and "is_finite z"
    and "representable (f_val x * f_val y + f_val z)" and "\<bar>f_val x * f_val y + f_val z\<bar> < 2 ^ 1024"
  shows "f_val (f_fma x y z) = f_val x * f_val y + f_val z" and "is_finite (f_fma x y z)"
proof -
  have ns: "\<not> is_nan x" "\<not> is_nan y" "\<not> is_nan z" using assms(1-3) finite_not_special by blast+
  have fin: "is_finite (round64 (f_val x * f_val y + f_val z))"
    by (rule round64_rep_finite) (use assms in \<open>simp add: round_val_exact\<close>)
  have "f_val (f_fma x y z) = f_val x * f_val y + f_val z \<and> is_finite (f_fma x y z)"
  proof (cases "(is_zero x \<or> is_zero y) \<and> is_zero z")
    case True
    then have "f_val x * f_val y + f_val z = 0" using assms(1-3) by (auto simp: is_zero_iff)
    with True ns assms(1-3) show ?thesis by (simp add: f_fma_def Let_def zero_of_def)
  next
    case False
    then have "f_fma x y z = round64 (f_val x * f_val y + f_val z)"
      using ns assms(1-3) unfolding f_fma_def Let_def by auto
    with fin round64_finite_val [OF fin] assms(4) show ?thesis by (simp add: round_val_exact)
  qed
  then show "f_val (f_fma x y z) = f_val x * f_val y + f_val z" and "is_finite (f_fma x y z)" by auto
qed

text \<open>Rounding a positive number up to a bound that is an integer of at most 53 bits.\<close>

lemma round64_interval:
  assumes "0 < q" and "q \<le> of_int n" and "n < 2 ^ 53"
  shows "\<exists>r. round64 q = Fin r \<and> 0 \<le> r \<and> r \<le> of_int n"
proof -
  have n: "of_int n < (9007199254740992 :: rat)" using assms(3) by simp
  then have "q < pow2 (53 + 0)" using assms(2) by simp
  then have "unit_exp q \<le> 0" by (rule unit_exp_le [OF assms(1)]) simp
  then have u: "exp_of q \<le> 0" using assms(1) by (simp add: exp_of_def)
  have "multiple_of 0 (of_int n)" unfolding multiple_of_def by (intro exI [of _ n]) (simp add: pow2_def)
  then have "multiple_of (exp_of q) (of_int n)" by (rule multiple_of_mono) (rule u)
  then have "\<bar>round_val q - q\<bar> \<le> \<bar>of_int n - q\<bar>" using round_val_nearest assms(1) by simp
  then have le: "round_val q \<le> of_int n" using assms by simp
  have nonneg: "0 \<le> round_val q" using round_val_nonneg assms(1) by simp
  have "round_val q < 9007199254740992" using le n by (rule order_le_less_trans)
  also have "\<dots> \<le> (2 :: rat) ^ 1024" by simp
  finally have fin: "is_finite (round64 q)" by (intro round64_rep_finite) (use nonneg in simp)
  then have v: "f_val (round64 q) = round_val q" by (rule round64_finite_val)
  with fin assms(1) show ?thesis
    using le nonneg by (cases "round64 q") (auto simp: round64_def Let_def split: if_splits)
qed

lemma round64_unit_interval:
  assumes "0 < q" and "q \<le> 1"
  shows "\<exists>r. round64 q = Fin r \<and> 0 \<le> r \<and> r \<le> 1"
  using round64_interval [of q 1] assms by simp

subsection \<open>Non-negative numbers\<close>

lemma round64_pos: "0 < q \<Longrightarrow> round64 q = PosInf \<or> (\<exists>r. round64 q = Fin r \<and> 0 \<le> r)"
  using round_mag_nonneg [of q] by (auto simp: round64_def Let_def)

lemma f_div_nonneg:
  assumes "is_finite x" and "f_ge x (Fin 0)" and "f_gt y (Fin 0)"
  shows "f_ge (f_div x y) (Fin 0)"
proof (cases "is_zero x \<or> y = PosInf")
  case True
  with assms show ?thesis
    by (cases x; cases y) (auto simp: f_div_def Let_def f_le_def f_lt_def f_eq_def zero_of_def)
next
  case False
  with assms obtain p q where "x = Fin p" "0 < p" "y = Fin q" "0 < q"
    by (cases x; cases y) (auto simp: f_le_def f_lt_def f_eq_def order_less_le)
  then have "f_div x y = round64 (p / q)" "0 < p / q" by (simp_all add: f_div_def Let_def)
  with round64_pos [of "p / q"] show ?thesis by (auto simp: f_le_def f_lt_def f_eq_def)
qed

lemma round64_ge_one_pos:
  assumes "1 \<le> q"
  shows "f_gt (round64 q) (Fin 0)"
proof -
  have "pow2 (- 1022) \<le> 1" using pow2_mono [of "- 1022" 0] by (simp add: pow2_def)
  with assms have "\<bar>round_mag q - q\<bar> \<le> q * pow2 (- 53)" by (intro round_mag_relative) linarith
  also have "\<dots> \<le> q * (1 / 2)"
    using assms pow2_mono [of "- 53" "- 1"] by (intro mult_left_mono) (simp_all add: pow2_def)
  finally have "0 < round_mag q" using assms by linarith
  with assms show ?thesis by (auto simp: round64_def Let_def f_lt_def)
qed

lemma f_add_nonneg: "f_ge x (Fin 0) \<Longrightarrow> f_ge y (Fin 0) \<Longrightarrow> f_ge (f_add x y) (Fin 0)"
proof -
  assume xy: "f_ge x (Fin 0)" "f_ge y (Fin 0)"
  have r: "f_ge (round64 q) (Fin 0)" if "0 \<le> q" for q
    using round64_pos [of q] that by (cases "q = 0") (auto simp: f_le_def f_lt_def f_eq_def)
  show ?thesis
    using xy by (cases x; cases y) (auto simp: f_add_def f_le_def [of "Fin 0" "Fin _"] f_lt_def f_eq_def
      intro!: r, auto simp: f_le_def f_lt_def f_eq_def)
qed

lemma f_sum_nonneg: "\<forall>x \<in> set xs. f_ge x (Fin 0) \<Longrightarrow> f_ge (f_sum xs) (Fin 0)"
proof -
  have "f_ge s (Fin 0) \<Longrightarrow> \<forall>x \<in> set xs. f_ge x (Fin 0) \<Longrightarrow> f_ge (foldl f_add s xs) (Fin 0)" for s
    by (induction xs arbitrary: s) (auto intro: f_add_nonneg)
  then show "\<forall>x \<in> set xs. f_ge x (Fin 0) \<Longrightarrow> ?thesis" by (simp add: f_sum_def f_le_def f_eq_def)
qed

lemma f_gt_ge: "f_gt x y \<Longrightarrow> f_ge x y"
  by (simp add: f_le_def)

end
