(* ===== verification/Umfpack.thy ===== *)
theory Umfpack
  imports Csc_Matrix F64_Exact
begin

text \<open>
  The safe wrapper around UMFPACK (\<open>suitesparse-ffi/src/umfpack.rs\<close>): factorization, solving
  with one step of iterative refinement on a compensated residual, memory estimates, and the
  lifetime of the two C handles.

  The C library is a parameter (\<open>umfpack_lib\<close>): each function maps its inputs to its status and
  outputs. A handle is an address, null being 0. The heap records the handles the library has
  handed out and that have not been freed, so that leaks are visible. Fixed-size arrays
  (\<open>[f64; 90]\<close>, \<open>[f64; 20]\<close>) are functions of the index.
\<close>

named_theorems umf_simps \<open>unfolding of the wrapper's branches\<close>

subsection \<open>Data\<close>

type_synonym handle = nat
type_synonym f64_array = "nat \<Rightarrow> f64"

definition UMFPACK_OK :: i32 where "UMFPACK_OK = 0"
definition UMFPACK_WARNING_SINGULAR :: i32 where "UMFPACK_WARNING_SINGULAR = 1"
definition UMFPACK_PRL :: usize where "UMFPACK_PRL = 0"
definition UMFPACK_SIZE_OF_UNIT :: usize where "UMFPACK_SIZE_OF_UNIT = 3"
definition UMFPACK_SYMBOLIC_SIZE :: usize where "UMFPACK_SYMBOLIC_SIZE = 14"
definition UMFPACK_NUMERIC_SIZE_ESTIMATE :: usize where "UMFPACK_NUMERIC_SIZE_ESTIMATE = 20"
definition UMFPACK_PEAK_MEMORY_ESTIMATE :: usize where "UMFPACK_PEAK_MEMORY_ESTIMATE = 21"
definition UMFPACK_NUMERIC_SIZE :: usize where "UMFPACK_NUMERIC_SIZE = 40"
definition UMFPACK_PEAK_MEMORY :: usize where "UMFPACK_PEAK_MEMORY = 41"

record umfpack_lib =
  umfpack_di_defaults :: "f64_array \<Rightarrow> f64_array"
  umfpack_di_symbolic :: "csc_matrix \<Rightarrow> f64_array \<Rightarrow> f64_array \<Rightarrow> i32 \<times> handle \<times> f64_array"
  umfpack_di_numeric :: "csc_matrix \<Rightarrow> handle \<Rightarrow> f64_array \<Rightarrow> f64_array \<Rightarrow> i32 \<times> handle \<times> f64_array"
  umfpack_di_solve :: "csc_matrix \<Rightarrow> f64 list \<Rightarrow> f64 list \<Rightarrow> handle \<Rightarrow> f64_array \<Rightarrow> i32 \<times> f64 list"

record umf_heap =
  live_symbolic :: "handle list"
  live_numeric :: "handle list"

record umfpack_numeric_options =
  print_level :: f64

record factorization_stats =
  symbolic_status :: i32
  numeric_status :: i32
  symbolic_info :: f64_array
  numeric_info :: f64_array

text \<open>
  \<open>UmfPanic\<close> stands for a failed \<open>expect\<close> or an index out of bounds in the residual loop.
\<close>

datatype umfpack_error =
    UmfMatrix matrix_error
  | RhsDimensionMismatch usize usize
  | SingularMatrix
  | SymbolicStatus i32
  | NumericStatus i32
  | SolveStatus i32
  | NullHandle
  | UmfPanic

record umfpack_factorization =
  uf_matrix :: csc_matrix
  uf_symbolic :: handle
  uf_numeric :: handle
  uf_control :: f64_array
  uf_stats :: factorization_stats

subsection \<open>Memory estimates\<close>

definition default_options :: umfpack_numeric_options where
  "default_options = \<lparr>print_level = Fin 0\<rparr>"

definition info_units_to_bytes :: "f64_array \<Rightarrow> usize \<Rightarrow> usize option" where
  "info_units_to_bytes info index =
     (let units = info index; bytes_per_unit = info UMFPACK_SIZE_OF_UNIT
      in if \<not> is_finite units \<or> f_lt units (Fin 0) \<or> \<not> is_finite bytes_per_unit \<or>
            f_le bytes_per_unit (Fin 0)
         then None
         else parse_usize_of_fmt0 (f_ceil (f_mul (f_ceil units) (f_ceil bytes_per_unit))))"

definition factorization_owned_bytes :: "(usize \<Rightarrow> usize) \<Rightarrow> umfpack_factorization \<Rightarrow> usize" where
  "factorization_owned_bytes cap f =
     (let symbolic = unwrap_or (info_units_to_bytes (symbolic_info (uf_stats f)) UMFPACK_SYMBOLIC_SIZE) 0;
          numeric = unwrap_or (info_units_to_bytes (numeric_info (uf_stats f)) UMFPACK_NUMERIC_SIZE) 0
      in saturating_add (saturating_add (estimated_owned_bytes cap (uf_matrix f)) symbolic) numeric)"

definition reported_peak_bytes :: "umfpack_factorization \<Rightarrow> usize option" where
  "reported_peak_bytes f =
     (case info_units_to_bytes (numeric_info (uf_stats f)) UMFPACK_PEAK_MEMORY of
        Some b \<Rightarrow> Some b
      | None \<Rightarrow> info_units_to_bytes (symbolic_info (uf_stats f)) UMFPACK_PEAK_MEMORY_ESTIMATE)"

definition reported_numeric_estimate_bytes :: "umfpack_factorization \<Rightarrow> usize option" where
  "reported_numeric_estimate_bytes f =
     info_units_to_bytes (symbolic_info (uf_stats f)) UMFPACK_NUMERIC_SIZE_ESTIMATE"

subsection \<open>Handles\<close>

definition alloc_symbolic :: "handle \<Rightarrow> umf_heap \<Rightarrow> umf_heap" where
  "alloc_symbolic h heap =
     (if h = 0 then heap else heap\<lparr>live_symbolic := h # live_symbolic heap\<rparr>)"

definition alloc_numeric :: "handle \<Rightarrow> umf_heap \<Rightarrow> umf_heap" where
  "alloc_numeric h heap =
     (if h = 0 then heap else heap\<lparr>live_numeric := h # live_numeric heap\<rparr>)"

definition free_symbolic :: "handle \<Rightarrow> umf_heap \<Rightarrow> umf_heap" where
  "free_symbolic h heap = heap\<lparr>live_symbolic := remove1 h (live_symbolic heap)\<rparr>"

definition free_numeric :: "handle \<Rightarrow> umf_heap \<Rightarrow> umf_heap" where
  "free_numeric h heap = heap\<lparr>live_numeric := remove1 h (live_numeric heap)\<rparr>"

definition non_null :: "handle \<Rightarrow> handle option" where
  "non_null h = (if h = 0 then None else Some h)"

subsection \<open>Factorization\<close>

definition factorize ::
    "umfpack_lib \<Rightarrow> csc_matrix \<Rightarrow> umfpack_numeric_options \<Rightarrow> umf_heap \<Rightarrow>
       (umfpack_error, umfpack_factorization) result \<times> umf_heap" where
  "factorize lib matrix options heap =
     (case validate matrix of
        Inl e \<Rightarrow> (Err (UmfMatrix e), heap)
      | Inr _ \<Rightarrow>
     if nrows matrix \<noteq> ncols matrix
     then (Err (UmfMatrix (InvalidDimensions (nrows matrix) (ncols matrix))), heap)
     else
       let control = (umfpack_di_defaults lib (\<lambda>_. Fin 0))(UMFPACK_PRL := print_level options);
           (sym_status, symbolic_ptr, sym_info) =
              umfpack_di_symbolic lib matrix control (\<lambda>_. Fin (- 1));
           heap1 = alloc_symbolic symbolic_ptr heap
       in if sym_status = UMFPACK_WARNING_SINGULAR then (Err SingularMatrix, heap1)
          else if sym_status \<noteq> UMFPACK_OK then (Err (SymbolicStatus sym_status), heap1)
          else case non_null symbolic_ptr of
                 None \<Rightarrow> (Err NullHandle, heap1)
               | Some symbolic \<Rightarrow>
                   let (num_status, numeric_ptr, num_info) =
                         umfpack_di_numeric lib matrix symbolic control (\<lambda>_. Fin (- 1));
                       heap2 = alloc_numeric numeric_ptr heap1
                   in if num_status = UMFPACK_WARNING_SINGULAR
                      then (Err SingularMatrix, free_symbolic symbolic heap2)
                      else if num_status \<noteq> UMFPACK_OK
                      then (Err (NumericStatus num_status), free_symbolic symbolic heap2)
                      else case non_null numeric_ptr of
                             None \<Rightarrow> (Err NullHandle, heap2)
                           | Some numeric \<Rightarrow>
                               (Ok \<lparr>uf_matrix = matrix, uf_symbolic = symbolic, uf_numeric = numeric,
                                    uf_control = control,
                                    uf_stats = \<lparr>symbolic_status = sym_status,
                                                numeric_status = num_status,
                                                symbolic_info = sym_info,
                                                numeric_info = num_info\<rparr>\<rparr>, heap2))"

definition drop_factorization :: "umfpack_factorization \<Rightarrow> umf_heap \<Rightarrow> umf_heap" where
  "drop_factorization f heap = free_numeric (uf_numeric f) (free_symbolic (uf_symbolic f) heap)"

subsection \<open>Solving\<close>

definition back_substitute ::
    "umfpack_lib \<Rightarrow> umfpack_factorization \<Rightarrow> f64 list \<Rightarrow> (umfpack_error, f64 list) result" where
  "back_substitute lib self rhs =
     (let (st, x) = umfpack_di_solve lib (uf_matrix self) (replicate (length rhs) (Fin 0)) rhs
                      (uf_numeric self) (uf_control self)
      in and_then (ensure (st \<noteq> UMFPACK_WARNING_SINGULAR) SingularMatrix) (\<lambda>_.
         and_then (ensure (st = UMFPACK_OK) (SolveStatus st)) (\<lambda>_. Ok x)))"

text \<open>
  One compensated update of a row: the rounded product and sum, the rounding error of the
  product (by fused multiply-add) and the bits the addition lost (after Neumaier).
\<close>

definition product_error :: "f64 \<Rightarrow> f64 \<Rightarrow> f64" where
  "product_error coefficient activity =
     f_fma coefficient activity (f_neg (f_mul coefficient activity))"

definition lost_sum :: "f64 \<Rightarrow> f64 \<Rightarrow> f64" where
  "lost_sum running product =
     (let nxt = f_add running product
      in if f_ge (f_abs running) (f_abs product) then f_add (f_sub running nxt) product
         else f_add (f_sub product nxt) running)"

fun compensated_step :: "f64 \<times> f64 \<Rightarrow> f64 \<times> f64 \<Rightarrow> f64 \<times> f64" where
  "compensated_step (running, error) (coefficient, activity) =
     (let product = f_mul coefficient activity
      in (f_add running product,
          f_add error (f_add (product_error coefficient activity) (lost_sum running product))))"

fun windows2 :: "'a list \<Rightarrow> ('a \<times> 'a) list" where
  "windows2 (a # b # xs) = (a, b) # windows2 (b # xs)"
| "windows2 _ = []"

definition residual_entry ::
    "csc_matrix \<Rightarrow> f64 \<Rightarrow> f64 list \<times> f64 list \<Rightarrow> nat \<Rightarrow> (umfpack_error, f64 list \<times> f64 list) result" where
  "residual_entry m activity st idx =
     (case st of (totals, errors) \<Rightarrow>
     and_then (ensure (idx < length (row_idx m)) UmfPanic) (\<lambda>_.
     and_then (ok_or (usize_try_from (row_idx m ! idx)) UmfPanic) (\<lambda>row.
     and_then (ensure (idx < length (vals m) \<and> row < length totals \<and> row < length errors) UmfPanic) (\<lambda>_.
     let (nxt, err) = compensated_step (totals ! row, errors ! row) (f_neg (vals m ! idx), activity)
     in Ok (totals[row := nxt], errors[row := err])))))"

definition residual_column ::
    "csc_matrix \<Rightarrow> f64 list \<times> f64 list \<Rightarrow> f64 \<times> i32 \<times> i32 \<Rightarrow> (umfpack_error, f64 list \<times> f64 list) result" where
  "residual_column m st col =
     (case col of (activity, lo, hi) \<Rightarrow>
     if f_eq activity (Fin 0) then Ok st
     else and_then (ok_or (usize_try_from lo) UmfPanic) (\<lambda>start.
          and_then (ok_or (usize_try_from hi) UmfPanic) (\<lambda>stop.
          fold_result (residual_entry m activity) st [start..<stop])))"

definition compensated_residual ::
    "csc_matrix \<Rightarrow> f64 list \<Rightarrow> f64 list \<Rightarrow> (umfpack_error, f64 list) result" where
  "compensated_residual m rhs x =
     and_then (fold_result (residual_column m) (rhs, replicate (length rhs) (Fin 0))
                 (zip x (windows2 (col_ptr m)))) (\<lambda>(totals, errors).
     Ok (map2 f_add totals errors))"

definition f64_epsilon :: f64 where
  "f64_epsilon = Fin (1 / 2 ^ 52)"

definition refine ::
    "umfpack_lib \<Rightarrow> umfpack_factorization \<Rightarrow> f64 list \<Rightarrow> f64 list \<Rightarrow> (umfpack_error, f64 list) result" where
  "refine lib self rhs x =
     (let rhs_norm = foldl (\<lambda>norm b. f_max norm (f_abs b)) (Fin 0) rhs
      in and_then (compensated_residual (uf_matrix self) rhs x) (\<lambda>residual.
         if list_all is_finite residual \<and>
            list_ex (\<lambda>r. f_gt (f_abs r) (f_mul f64_epsilon rhs_norm)) residual
         then and_then (back_substitute lib self residual) (\<lambda>delta.
              if list_all (\<lambda>(v, d). is_finite (f_add v d)) (zip x delta)
              then Ok (map2 f_add x delta @ drop (length delta) x)
              else Ok x)
         else Ok x))"

definition solve ::
    "umfpack_lib \<Rightarrow> umfpack_factorization \<Rightarrow> f64 list \<Rightarrow> (umfpack_error, f64 list) result" where
  "solve lib self rhs =
     and_then (ok_or (usize_try_from (ncols (uf_matrix self))) NullHandle) (\<lambda>n.
     and_then (ensure (length rhs = n) (RhsDimensionMismatch (length rhs) n)) (\<lambda>_.
     and_then (back_substitute lib self rhs) (\<lambda>x. refine lib self rhs x)))"

definition solve_many ::
    "umfpack_lib \<Rightarrow> umfpack_factorization \<Rightarrow> f64 list list \<Rightarrow> (umfpack_error, f64 list list) result" where
  "solve_many lib self rhs_list = traverse (solve lib self) rhs_list"

definition matrix_of :: "umfpack_factorization \<Rightarrow> csc_matrix" where
  "matrix_of self = uf_matrix self"

subsection \<open>The residual, row by row\<close>

text \<open>
  Reference definition: each row runs the compensated update over its own entries, in column
  order, skipping the columns of zero activity.
\<close>

definition row_pairs :: "csc_matrix \<Rightarrow> f64 list \<Rightarrow> nat \<Rightarrow> nat list \<Rightarrow> (f64 \<times> f64) list" where
  "row_pairs m x r cols =
     concat (map (\<lambda>c. case csc_entry m r c of
                        None \<Rightarrow> []
                      | Some v \<Rightarrow> if f_eq (x ! c) (Fin 0) then [] else [(f_neg v, x ! c)]) cols)"

definition residual_row :: "csc_matrix \<Rightarrow> f64 list \<Rightarrow> f64 list \<Rightarrow> nat \<Rightarrow> f64" where
  "residual_row m rhs x r =
     (case foldl compensated_step (rhs ! r, Fin 0) (row_pairs m x r [0..<nat (ncols m)]) of
        (running, error) \<Rightarrow> f_add running error)"

lemma residual_entries_nth:
  assumes "\<forall>i \<in> set is. i < length (row_idx m) \<and> i < length (vals m) \<and> 0 \<le> row_idx m ! i \<and>
             nat (row_idx m ! i) < length t" and "length e = length t"
  shows "\<exists>t' e'. fold_result (residual_entry m act) (t, e) is = Ok (t', e') \<and>
           length t' = length t \<and> length e' = length t \<and>
           (\<forall>r < length t. (t' ! r, e' ! r) = foldl compensated_step (t ! r, e ! r)
              (map (\<lambda>i. (f_neg (vals m ! i), act)) (filter (\<lambda>i. nat (row_idx m ! i) = r) is)))"
  using assms
proof (induction "is" arbitrary: t e)
  case Nil
  then show ?case by simp
next
  case (Cons i "is")
  let ?row = "nat (row_idx m ! i)"
  obtain a b where ab: "compensated_step (t ! ?row, e ! ?row) (f_neg (vals m ! i), act) = (a, b)"
    by fastforce
  have step: "residual_entry m act (t, e) i = Ok (t[?row := a], e[?row := b])"
    using Cons.prems ab
    by (simp add: residual_entry_def ensure_def ok_or_def usize_try_from_def
        del: compensated_step.simps)
  from Cons.IH [of "t[?row := a]" "e[?row := b]"] Cons.prems
  obtain t' e' where f: "fold_result (residual_entry m act) (t[?row := a], e[?row := b]) is = Ok (t', e')"
    "length t' = length t" "length e' = length t"
    "\<forall>r < length t. (t' ! r, e' ! r) =
       foldl compensated_step (t[?row := a] ! r, e[?row := b] ! r)
         (map (\<lambda>i. (f_neg (vals m ! i), act)) (filter (\<lambda>i. nat (row_idx m ! i) = r) is))"
    by auto
  have "(t' ! r, e' ! r) = foldl compensated_step (t ! r, e ! r)
      (map (\<lambda>i. (f_neg (vals m ! i), act)) (filter (\<lambda>i. nat (row_idx m ! i) = r) (i # is)))"
    if "r < length t" for r
    using f(4) that ab Cons.prems by (cases "?row = r") (auto simp del: compensated_step.simps)
  with f step show ?case by auto
qed

lemma residual_column_nth:
  assumes "csc_valid m" and "c < nat (ncols m)" and "length t = nat (nrows m)" and "length e = length t"
  shows "\<exists>t' e'. residual_column m (t, e) (x ! c, col_ptr m ! c, col_ptr m ! (c + 1)) = Ok (t', e') \<and>
           length t' = length t \<and> length e' = length t \<and>
           (\<forall>r < length t. (t' ! r, e' ! r) = foldl compensated_step (t ! r, e ! r) (row_pairs m x r [c]))"
proof (cases "f_eq (x ! c) (Fin 0)")
  case True
  with assms(4) show ?thesis
    by (auto simp: residual_column_def row_pairs_def split: option.split)
next
  case False
  let ?is = "[col_start m c..<col_start m (c + 1)]"
  have starts: "usize_try_from (col_ptr m ! c) = Some (col_start m c)"
    "usize_try_from (col_ptr m ! (c + 1)) = Some (col_start m (c + 1))"
    using csc_valid_start(1) [OF assms(1), of c] csc_valid_start(1) [OF assms(1), of "c + 1"] assms(2)
    by (metis le_less usize_try_from_simps(3)) (metis Suc_eq_plus1 Suc_leI assms(2)
        csc_valid_start(1) [OF assms(1)] usize_try_from_simps(3))
  have "col_start m (c + 1) \<le> length (vals m)" "length (row_idx m) = length (vals m)"
    using csc_valid_start(2) [OF assms(1), of "c + 1"] assms by (auto simp: csc_valid_def)
  then have ok: "\<forall>i \<in> set ?is. i < length (row_idx m) \<and> i < length (vals m) \<and> 0 \<le> row_idx m ! i \<and>
             nat (row_idx m ! i) < length t"
    using csc_column_indices(3) [OF assms(1,2)] assms(3) by (fastforce simp: nat_less_iff)
  have pairs: "map (\<lambda>i. (f_neg (vals m ! i), x ! c)) (filter (\<lambda>i. nat (row_idx m ! i) = r) ?is) =
      row_pairs m x r [c]" for r
  proof -
    have "map (\<lambda>i. (f_neg (vals m ! i), x ! c)) (filter (\<lambda>i. nat (row_idx m ! i) = r) ?is) =
        map (\<lambda>p. (f_neg (snd p), x ! c)) (filter (\<lambda>p. nat (fst p) = r) (csc_column m c))"
      unfolding csc_column_indices(1) [OF assms(1,2)] by (simp add: filter_map comp_def)
    also have "\<dots> = row_pairs m x r [c]"
      unfolding csc_column_filter [OF assms(1,2)] using False
      by (simp add: row_pairs_def split: option.split)
    finally show ?thesis .
  qed
  have "residual_column m (t, e) (x ! c, col_ptr m ! c, col_ptr m ! (c + 1)) =
      fold_result (residual_entry m (x ! c)) (t, e) ?is"
    unfolding residual_column_def using False
    by (simp only: prod.case if_False starts ok_or_def option.case and_then_simps)
  with residual_entries_nth [OF ok assms(4), of "x ! c"] show ?thesis
    unfolding pairs by simp
qed

lemma residual_columns_nth:
  assumes "csc_valid m" and "\<forall>c \<in> set cs. c < nat (ncols m)" and "length t = nat (nrows m)"
    and "length e = length t"
  shows "\<exists>t' e'. fold_result (residual_column m) (t, e)
             (map (\<lambda>c. (x ! c, col_ptr m ! c, col_ptr m ! (c + 1))) cs) = Ok (t', e') \<and>
           length t' = length t \<and> length e' = length t \<and>
           (\<forall>r < length t. (t' ! r, e' ! r) = foldl compensated_step (t ! r, e ! r) (row_pairs m x r cs))"
  using assms(2-4)
proof (induction cs arbitrary: t e)
  case Nil
  then show ?case by (simp add: row_pairs_def)
next
  case (Cons c cs)
  from residual_column_nth [OF assms(1), of c t e x] Cons.prems obtain t1 e1 where
    one: "residual_column m (t, e) (x ! c, col_ptr m ! c, col_ptr m ! (c + 1)) = Ok (t1, e1)"
    "length t1 = length t" "length e1 = length t"
    "\<forall>r < length t. (t1 ! r, e1 ! r) = foldl compensated_step (t ! r, e ! r) (row_pairs m x r [c])"
    by auto
  from Cons.IH [of t1 e1] Cons.prems one(2,3) obtain t2 e2 where
    two: "fold_result (residual_column m) (t1, e1)
       (map (\<lambda>c. (x ! c, col_ptr m ! c, col_ptr m ! (c + 1))) cs) = Ok (t2, e2)"
    "length t2 = length t" "length e2 = length t"
    "\<forall>r < length t. (t2 ! r, e2 ! r) = foldl compensated_step (t1 ! r, e1 ! r) (row_pairs m x r cs)"
    by auto
  have "row_pairs m x r (c # cs) = row_pairs m x r [c] @ row_pairs m x r cs" for r
    by (simp add: row_pairs_def)
  with one two show ?case by simp
qed

lemma zip_windows2:
  assumes "length ps = length x + 1"
  shows "zip x (windows2 ps) = map (\<lambda>c. (x ! c, ps ! c, ps ! (c + 1))) [0..<length x]"
  using assms
proof (induction ps arbitrary: x rule: windows2.induct)
  case (1 a b ps)
  then obtain v xs where x: "x = v # xs" by (cases x) auto
  with 1 have "zip xs (windows2 (b # ps)) =
      map (\<lambda>c. (xs ! c, (b # ps) ! c, (b # ps) ! (c + 1))) [0..<length xs]" by auto
  with x show ?case
    by (simp add: upt_conv_Cons del: upt_Suc flip: map_Suc_upt)
qed auto

lemma compensated_residual_rows:
  assumes "csc_valid m" and "length x = nat (ncols m)" and "length rhs = nat (nrows m)"
  shows "compensated_residual m rhs x = Ok (map (residual_row m rhs x) [0..<nat (nrows m)])"
proof -
  have "length (col_ptr m) = length x + 1" using assms by (simp add: csc_valid_def)
  note z = zip_windows2 [OF this]
  obtain t e where f: "fold_result (residual_column m) (rhs, replicate (length rhs) (Fin 0))
      (zip x (windows2 (col_ptr m))) = Ok (t, e)" "length t = length rhs" "length e = length rhs"
    "\<forall>r < length rhs. (t ! r, e ! r) =
       foldl compensated_step (rhs ! r, replicate (length rhs) (Fin 0) ! r) (row_pairs m x r [0..<length x])"
    using residual_columns_nth [OF assms(1), of "[0..<length x]" rhs "replicate (length rhs) (Fin 0)" x]
      assms(2,3) unfolding z by auto
  have "map2 f_add t e = map (residual_row m rhs x) [0..<nat (nrows m)]"
  proof (rule nth_equalityI)
    show "length (map2 f_add t e) = length (map (residual_row m rhs x) [0..<nat (nrows m)])"
      using f assms(3) by simp
    fix r assume "r < length (map2 f_add t e)"
    then have r: "r < length rhs" using f by simp
    have "residual_row m rhs x r = f_add (t ! r) (e ! r)"
      unfolding residual_row_def using f(4) r assms(2) by (metis case_prod_conv nth_replicate)
    with r f(2,3) show "map2 f_add t e ! r = map (residual_row m rhs x) [0..<nat (nrows m)] ! r"
      unfolding assms(3) by simp
  qed
  with f(1) show ?thesis by (simp add: compensated_residual_def)
qed

subsection \<open>The compensation recovers the rounding errors\<close>

lemma product_error_exact:
  assumes "f_rep coefficient" and "f_rep activity" and "is_finite (f_mul coefficient activity)"
    and "f_val coefficient \<noteq> 0 \<Longrightarrow> f_val activity \<noteq> 0 \<Longrightarrow>
           - 1074 \<le> exp_of (f_val coefficient) + exp_of (f_val activity)"
  shows "f_val (product_error coefficient activity) =
           f_val coefficient * f_val activity - f_val (f_mul coefficient activity)"
proof -
  let ?c = "f_val coefficient" and ?a = "f_val activity"
  have fin: "is_finite coefficient" "is_finite activity" using assms f_rep_finite by auto
  note p = f_mul_val(1) [OF fin assms(3)]
  have rep: "representable (?c * ?a - round_val (?c * ?a))"
  proof (cases "?c = 0 \<or> ?a = 0")
    case False
    then show ?thesis
      by (intro product_error_representable) (use assms in \<open>auto simp: f_rep_def\<close>)
  qed auto
  have "\<bar>f_val (f_mul coefficient activity)\<bar> < 2 ^ 1024"
    using f_mul_val(2) [OF fin assms(3)] by (simp add: f_rep_def)
  then have "\<bar>?c * ?a - round_val (?c * ?a)\<bar> < 2 ^ 1024"
    by (intro round_val_error_small) (simp_all add: p)
  with rep fin assms(3) p show ?thesis
    unfolding product_error_def by (subst f_fma_exact) simp_all
qed

lemma lost_sum_exact_ordered:
  assumes "f_rep a" and "f_rep b" and "\<bar>f_val b\<bar> \<le> \<bar>f_val a\<bar>"
    and "is_finite s" and "f_val s = round_val (f_val a + f_val b)" and "\<bar>f_val s\<bar> < 2 ^ 1024"
  shows "f_val (f_add (f_sub a s) b) = f_val a + f_val b - f_val s"
proof -
  let ?a = "f_val a" and ?b = "f_val b" and ?s = "f_val s"
  have rep: "representable ?a" "representable ?b" "\<bar>?a\<bar> < 2 ^ 1024" "\<bar>?b\<bar> < 2 ^ 1024"
    and fin: "is_finite a" "is_finite b" using assms(1,2) by (auto simp: f_rep_def)
  note two = fast_two_sum [OF rep(1,2) assms(3), folded assms(5)]
  have "\<bar>?a - ?s\<bar> < 2 ^ 1024"
  proof (cases "0 \<le> ?a")
    case True
    then have "0 \<le> ?s" unfolding assms(5) by (intro round_val_nonneg) (use assms(3) in linarith)
    with True rep(3) assms(6) show ?thesis by linarith
  next
    case False
    then have "?s \<le> 0" unfolding assms(5) by (intro round_val_nonpos) (use assms(3) in linarith)
    with False rep(3) assms(6) show ?thesis by linarith
  qed
  then have "f_val (f_sub a s) = ?a - ?s" and fd: "is_finite (f_sub a s)"
    using f_add_exact [of a "f_neg s"] fin assms(4) two(1) by (simp_all add: f_sub_def)
  then show ?thesis
    using f_add_exact(1) [OF fd fin(2)] two(2,3) rep(4) by simp (simp add: algebra_simps)
qed

lemma lost_sum_exact:
  assumes "f_rep running" and "f_rep product" and "is_finite (f_add running product)"
  shows "f_val (lost_sum running product) =
           f_val running + f_val product - f_val (f_add running product)"
proof -
  have fin: "is_finite running" "is_finite product" using assms f_rep_finite by auto
  note s = f_add_val [OF fin assms(3)]
  have le: "f_ge (f_abs running) (f_abs product) \<longleftrightarrow> \<bar>f_val product\<bar> \<le> \<bar>f_val running\<bar>"
    using f_val_abs fin by (simp add: f_le_finite)
  have lt: "\<bar>f_val (f_add running product)\<bar> < 2 ^ 1024" using s(2) by (simp add: f_rep_def)
  show ?thesis
  proof (cases "\<bar>f_val product\<bar> \<le> \<bar>f_val running\<bar>")
    case True
    with lost_sum_exact_ordered [OF assms(1,2) True assms(3) s(1) lt] le show ?thesis
      by (simp add: lost_sum_def Let_def)
  next
    case False
    then have ge: "\<bar>f_val running\<bar> \<le> \<bar>f_val product\<bar>" by simp
    have "f_val (f_add running product) = round_val (f_val product + f_val running)"
      using s(1) by (simp add: add.commute)
    from lost_sum_exact_ordered [OF assms(2,1) ge assms(3) this lt] False le show ?thesis
      by (simp add: lost_sum_def Let_def add.commute)
  qed
qed

subsection \<open>What the library is relied on for\<close>

text \<open>
  Documented behaviour of the C functions: a solve writes the solution into the buffer it is
  given, keeping its length; the symbolic stage hands out an object exactly on success; the
  numeric stage hands out an object on success and also with the singular-matrix warning
  (the factorization is complete, the matrix is singular), and none on an error.
\<close>

definition solve_keeps_length :: "umfpack_lib \<Rightarrow> bool" where
  "solve_keeps_length lib \<longleftrightarrow>
     (\<forall>m x b h ctl. length (snd (umfpack_di_solve lib m x b h ctl)) = length x)"

definition documented_handles :: "umfpack_lib \<Rightarrow> bool" where
  "documented_handles lib \<longleftrightarrow>
     (\<forall>m ctl inf. case umfpack_di_symbolic lib m ctl inf of
        (st, h, _) \<Rightarrow> h \<noteq> 0 \<longleftrightarrow> st = UMFPACK_OK) \<and>
     (\<forall>m s ctl inf. case umfpack_di_numeric lib m s ctl inf of
        (st, h, _) \<Rightarrow> h \<noteq> 0 \<longleftrightarrow> st = UMFPACK_OK \<or> st = UMFPACK_WARNING_SINGULAR)"

text \<open>A library for identity matrices, used in the examples.\<close>

definition identity_lib :: "i32 \<Rightarrow> umfpack_lib" where
  "identity_lib numeric_st =
     \<lparr>umfpack_di_defaults = (\<lambda>c. c),
      umfpack_di_symbolic = (\<lambda>m c i. (UMFPACK_OK, 7, i)),
      umfpack_di_numeric =
        (\<lambda>m s c i. (numeric_st,
           if numeric_st = UMFPACK_OK \<or> numeric_st = UMFPACK_WARNING_SINGULAR then 9 else 0, i)),
      umfpack_di_solve = (\<lambda>m x b h c. (UMFPACK_OK, take (length x) (b @ x)))\<rparr>"

lemma identity_lib_documented:
  "solve_keeps_length (identity_lib st)" "documented_handles (identity_lib st)"
  by (auto simp: solve_keeps_length_def documented_handles_def identity_lib_def)

lemma back_substitute_length:
  "solve_keeps_length lib \<Longrightarrow> back_substitute lib f rhs = Ok x \<Longrightarrow> length x = length rhs"
  by (auto simp: back_substitute_def solve_keeps_length_def and_then_Ok_iff split: prod.splits)
    (metis length_replicate snd_conv)

lemma refine_rows:
  assumes "csc_valid (uf_matrix f)" and "nrows (uf_matrix f) = ncols (uf_matrix f)"
    and "length rhs = nat (ncols (uf_matrix f))" and "length x = length rhs"
  shows "refine lib f rhs x =
     (let res = map (residual_row (uf_matrix f) rhs x) [0..<length rhs]
      in if list_all is_finite res \<and>
            list_ex (\<lambda>r. f_gt (f_abs r)
               (f_mul f64_epsilon (foldl (\<lambda>norm b. f_max norm (f_abs b)) (Fin 0) rhs))) res
         then and_then (back_substitute lib f res) (\<lambda>delta.
              if list_all (\<lambda>(v, d). is_finite (f_add v d)) (zip x delta)
              then Ok (map2 f_add x delta @ drop (length delta) x) else Ok x)
         else Ok x)"
  using compensated_residual_rows [OF assms(1), of x rhs] assms by (simp add: refine_def Let_def)

subsection \<open>Properties\<close>

text \<open>
  C16. The residual loop over compressed columns never panics on a validated matrix and computes,
  for every row on its own, the compensated sum of the right-hand side and the negated products
  of the row's entries, in column order.
\<close>

theorem compensated_residual_correct:
  assumes "csc_valid m" and "length x = nat (ncols m)" and "length rhs = nat (nrows m)"
  shows "compensated_residual m rhs x = Ok (map (residual_row m rhs x) [0..<nat (nrows m)])"
  by (rule compensated_residual_rows [OF assms])

theorem compensated_residual_correct_witness:
  "let m = \<lparr>nrows = 2, ncols = 2, col_ptr = [0, 2, 3], row_idx = [0, 1, 1],
            vals = [Fin 4, Fin 2, Fin 3]\<rparr>
   in csc_valid m \<and> compensated_residual m [Fin 1, Fin 1] [Fin 1, Fin 2] =
        Ok (map (residual_row m [Fin 1, Fin 1] [Fin 1, Fin 2]) [0..<2])"
proof -
  let ?m = "\<lparr>nrows = 2, ncols = 2, col_ptr = [0, 2, 3], row_idx = [0, 1, 1],
            vals = [Fin 4, Fin 2, Fin 3]\<rparr>"
  have v: "csc_valid ?m"
    unfolding validate_iff_csc_valid [symmetric] by code_simp
  from v compensated_residual_correct [OF v, of "[Fin 1, Fin 2]" "[Fin 1, Fin 1]"] show ?thesis
    by (simp add: Let_def)
qed

text \<open>
  C4. Each compensated update is error-free: unless the product or the new sum overflows or the
  product underflows, the rounded sum, the bits lost by the addition and the rounding error of
  the product add up, as exact numbers, to the old sum plus the exact product.
\<close>

theorem compensation_error_free:
  assumes "f_rep running" and "f_rep coefficient" and "f_rep activity"
    and "is_finite (f_mul coefficient activity)"
    and "is_finite (f_add running (f_mul coefficient activity))"
    and "f_val coefficient \<noteq> 0 \<Longrightarrow> f_val activity \<noteq> 0 \<Longrightarrow>
           - 1074 \<le> exp_of (f_val coefficient) + exp_of (f_val activity)"
  shows "f_val (fst (compensated_step (running, error) (coefficient, activity)))
         + f_val (lost_sum running (f_mul coefficient activity))
         + f_val (product_error coefficient activity)
         = f_val running + f_val coefficient * f_val activity"
  using product_error_exact [OF assms(2,3,4,6)]
    lost_sum_exact [OF assms(1) f_mul_val(2) [OF f_rep_finite [OF assms(2)] f_rep_finite [OF assms(3)] assms(4)] assms(5)]
  by (simp add: Let_def)

theorem compensation_error_free_witness:
  "f_val (fst (compensated_step (Fin (2 ^ 53), Fin 0) (Fin 1, Fin 1)))
   + f_val (lost_sum (Fin (2 ^ 53)) (f_mul (Fin 1) (Fin 1)))
   + f_val (product_error (Fin 1) (Fin 1)) = 2 ^ 53 + 1 \<and>
   f_val (f_add (Fin (2 ^ 53)) (Fin 1)) = 2 ^ 53"
proof -
  have r: "f_rep (Fin (2 ^ 53))" "f_rep (Fin 1)"
    using representableI [of 0 "2 ^ 53"] representableI [of 0 1]
    by (auto simp: f_rep_def multiple_of_def exI [of _ "2 ^ 53 :: int"] exI [of _ "1 :: int"])
  have one: "f_mul (Fin 1) (Fin 1) = Fin 1" by (simp add: f_mul_def)
  have add: "f_add (Fin (2 ^ 53)) (Fin 1) = Fin (2 ^ 53)"
    by (simp add: f_add_def) code_simp
  have "- 1074 \<le> exp_of (f_val (Fin 1)) + exp_of (f_val (Fin 1))" by code_simp
  with compensation_error_free [OF r(1) r(2) r(2), of "Fin 0"] one add show ?thesis by simp
qed

text \<open>
  C15. Solving never panics on a validated square matrix. A right-hand side of the wrong length is
  rejected; otherwise the back-substitution is corrected at most once, by the solution for its
  residual, and only when the residual is finite and above the tolerance and every corrected
  component is finite; a failing back-substitution is reported as it is.
\<close>

theorem solve_refines_once:
  assumes "csc_valid (uf_matrix f)" and "nrows (uf_matrix f) = ncols (uf_matrix f)"
    and "solve_keeps_length lib"
  shows "solve lib f rhs =
     (if length rhs \<noteq> nat (ncols (uf_matrix f))
      then Err (RhsDimensionMismatch (length rhs) (nat (ncols (uf_matrix f))))
      else case back_substitute lib f rhs of
        Inl e \<Rightarrow> Err e
      | Inr x \<Rightarrow>
          let res = map (residual_row (uf_matrix f) rhs x) [0..<length rhs];
              tol = f_mul f64_epsilon (foldl (\<lambda>norm b. f_max norm (f_abs b)) (Fin 0) rhs)
          in if (\<forall>r \<in> set res. is_finite r) \<and> (\<exists>r \<in> set res. f_gt (f_abs r) tol)
             then case back_substitute lib f res of
                    Inl e \<Rightarrow> Err e
                  | Inr d \<Rightarrow> if \<forall>v \<in> set (map2 f_add x d). is_finite v
                              then Ok (map2 f_add x d) else Ok x
             else Ok x)"
proof (cases "length rhs = nat (ncols (uf_matrix f))")
  case False
  moreover have "0 < ncols (uf_matrix f)" using assms(1) by (simp add: csc_valid_def)
  ultimately show ?thesis by (simp add: solve_def ok_or_def usize_try_from_def ensure_def)
next
  case len: True
  have pos: "0 < ncols (uf_matrix f)" using assms(1) by (simp add: csc_valid_def)
  then have "solve lib f rhs = and_then (back_substitute lib f rhs) (refine lib f rhs)"
    using len by (simp add: solve_def ok_or_def usize_try_from_def ensure_def)
  moreover
  { fix x assume x: "back_substitute lib f rhs = Ok x"
    then have lx: "length x = length rhs" by (rule back_substitute_length [OF assms(3)])
    let ?res = "map (residual_row (uf_matrix f) rhs x) [0..<length rhs]"
    have "length d = length x" if "back_substitute lib f ?res = Ok d" for d
      using back_substitute_length [OF assms(3) that] lx by simp
    then have "refine lib f rhs x =
      (let res = ?res;
           tol = f_mul f64_epsilon (foldl (\<lambda>norm b. f_max norm (f_abs b)) (Fin 0) rhs)
       in if (\<forall>r \<in> set res. is_finite r) \<and> (\<exists>r \<in> set res. f_gt (f_abs r) tol)
          then case back_substitute lib f res of
                 Inl e \<Rightarrow> Err e
               | Inr d \<Rightarrow> if \<forall>v \<in> set (map2 f_add x d). is_finite v
                           then Ok (map2 f_add x d) else Ok x
          else Ok x)"
      unfolding refine_rows [OF assms(1,2) len lx] Let_def list_all_iff list_ex_iff
      by (cases "back_substitute lib f ?res") auto }
  ultimately show ?thesis using len by (simp split: sum.split)
qed

theorem solve_refines_once_witness:
  "let m = \<lparr>nrows = 1, ncols = 1, col_ptr = [0, 1], row_idx = [0], vals = [Fin 1]\<rparr>;
       f = \<lparr>uf_matrix = m, uf_symbolic = 7, uf_numeric = 9, uf_control = (\<lambda>_. Fin 0),
            uf_stats = \<lparr>symbolic_status = 0, numeric_status = 0, symbolic_info = (\<lambda>_. Fin 0),
                        numeric_info = (\<lambda>_. Fin 0)\<rparr>\<rparr>
   in csc_valid (uf_matrix f) \<and> solve_keeps_length (identity_lib 0) \<and>
      solve (identity_lib 0) f [Fin 1, Fin 2] = Err (RhsDimensionMismatch 2 1)"
proof -
  let ?m = "\<lparr>nrows = 1, ncols = 1, col_ptr = [0, 1], row_idx = [0], vals = [Fin 1]\<rparr>"
  let ?f = "\<lparr>uf_matrix = ?m, uf_symbolic = 7, uf_numeric = 9, uf_control = (\<lambda>_. Fin 0),
            uf_stats = \<lparr>symbolic_status = 0, numeric_status = 0, symbolic_info = (\<lambda>_. Fin 0),
                        numeric_info = (\<lambda>_. Fin 0)\<rparr>\<rparr>"
  have v: "csc_valid (uf_matrix ?f)"
    unfolding validate_iff_csc_valid [symmetric] by code_simp
  from v solve_refines_once [OF v _ identity_lib_documented(1) [of 0], of "[Fin 1, Fin 2]"]
  show ?thesis by (simp add: Let_def identity_lib_documented)
qed

text \<open>
  With a library that hands out objects as documented, a factorization that succeeds and is
  dropped leaves the C heap as it was, and so does every failing factorization except one that
  reports a singular matrix.
\<close>

theorem factorize_releases_handles:
  assumes "documented_handles lib" and "factorize lib matrix options heap = (r, heap')"
  shows "case r of Inr f \<Rightarrow> drop_factorization f heap' = heap \<and> csc_valid (uf_matrix f) \<and>
                             nrows (uf_matrix f) = ncols (uf_matrix f) \<and> uf_matrix f = matrix
         | Inl e \<Rightarrow> e = SingularMatrix \<or> heap' = heap"
proof -
  let ?c = "(umfpack_di_defaults lib (\<lambda>_. Fin 0))(UMFPACK_PRL := print_level options)"
  obtain st h i where S: "umfpack_di_symbolic lib matrix ?c (\<lambda>_. Fin (- 1)) = (st, h, i)"
    by (metis prod_cases3)
  obtain st' h' i' where N: "umfpack_di_numeric lib matrix h ?c (\<lambda>_. Fin (- 1)) = (st', h', i')"
    by (metis prod_cases3)
  have sym: "h \<noteq> 0 \<longleftrightarrow> st = UMFPACK_OK"
    using conjunct1 [OF assms(1) [unfolded documented_handles_def], THEN spec, THEN spec, THEN spec,
        of matrix ?c "\<lambda>_. Fin (- 1)"] S by simp
  have num: "h' \<noteq> 0 \<longleftrightarrow> st' = UMFPACK_OK \<or> st' = UMFPACK_WARNING_SINGULAR"
    using conjunct2 [OF assms(1) [unfolded documented_handles_def], THEN spec, THEN spec, THEN spec,
        THEN spec, of matrix h ?c "\<lambda>_. Fin (- 1)"] N by simp
  note heap_defs = alloc_symbolic_def alloc_numeric_def free_symbolic_def free_numeric_def
    drop_factorization_def non_null_def
  show ?thesis
  proof (cases "validate matrix")
    case (Inl e)
    with assms(2) show ?thesis by (auto simp: factorize_def)
  next
    case (Inr u)
    then have v: "csc_valid matrix" by (simp add: csc_simps)
    show ?thesis
    proof (cases "nrows matrix = ncols matrix \<and> st = UMFPACK_OK")
      case False
      with assms(2) Inr S sym show ?thesis
        by (auto simp: factorize_def heap_defs Let_def split: if_splits)
    next
      case True
      with Inr S N sym have f: "factorize lib matrix options heap =
        (if st' = UMFPACK_WARNING_SINGULAR
         then (Err SingularMatrix, free_symbolic h (alloc_numeric h' (alloc_symbolic h heap)))
         else if st' \<noteq> UMFPACK_OK
         then (Err (NumericStatus st'), free_symbolic h (alloc_numeric h' (alloc_symbolic h heap)))
         else (Ok \<lparr>uf_matrix = matrix, uf_symbolic = h, uf_numeric = h', uf_control = ?c,
                   uf_stats = \<lparr>symbolic_status = st, numeric_status = st',
                               symbolic_info = i, numeric_info = i'\<rparr>\<rparr>,
               alloc_numeric h' (alloc_symbolic h heap)))"
        using num unfolding factorize_def
        by (auto simp: Let_def non_null_def UMFPACK_OK_def UMFPACK_WARNING_SINGULAR_def)
      from assms(2) [unfolded f] True v sym num show ?thesis
        by (auto simp: heap_defs split: if_splits)
    qed
  qed
qed

theorem factorize_releases_handles_witness:
  "let m = \<lparr>nrows = 1, ncols = 1, col_ptr = [0, 1], row_idx = [0], vals = [Fin 1]\<rparr>;
       h0 = \<lparr>live_symbolic = [], live_numeric = []\<rparr>
   in documented_handles (identity_lib 0) \<and>
      (case factorize (identity_lib 0) m default_options h0 of
         (Inr f, h1) \<Rightarrow> drop_factorization f h1 = h0 \<and> h1 \<noteq> h0
       | (Inl _, _) \<Rightarrow> False)"
proof -
  let ?m = "\<lparr>nrows = 1, ncols = 1, col_ptr = [0, 1], row_idx = [0], vals = [Fin 1]\<rparr>"
  let ?h = "\<lparr>live_symbolic = [], live_numeric = []\<rparr>"
  have "validate ?m = Ok ()" by code_simp
  then have f: "\<exists>f. factorize (identity_lib 0) ?m default_options ?h =
      (Ok f, \<lparr>live_symbolic = [7], live_numeric = [9]\<rparr>)"
    by (simp add: factorize_def identity_lib_def Let_def UMFPACK_OK_def UMFPACK_WARNING_SINGULAR_def
        non_null_def alloc_symbolic_def alloc_numeric_def)
  then obtain f where f: "factorize (identity_lib 0) ?m default_options ?h =
      (Ok f, \<lparr>live_symbolic = [7], live_numeric = [9]\<rparr>)" by blast
  from factorize_releases_handles [OF identity_lib_documented(2) f] f show ?thesis
    by (simp add: Let_def identity_lib_documented)
qed

text \<open>
  C22. When the numeric stage reports a singular matrix it has built its numeric object (the
  documented meaning of that warning); the wrapper frees the symbolic object only, so the
  numeric object stays allocated with no owner left to free it.
\<close>

theorem singular_numeric_object_leaks:
  assumes "csc_valid matrix" and "nrows matrix = ncols matrix"
    and "umfpack_di_symbolic lib matrix
           ((umfpack_di_defaults lib (\<lambda>_. Fin 0))(UMFPACK_PRL := print_level options)) (\<lambda>_. Fin (- 1))
           = (UMFPACK_OK, s, si)" and "s \<noteq> 0"
    and "umfpack_di_numeric lib matrix s
           ((umfpack_di_defaults lib (\<lambda>_. Fin 0))(UMFPACK_PRL := print_level options)) (\<lambda>_. Fin (- 1))
           = (UMFPACK_WARNING_SINGULAR, n, ni)" and "n \<noteq> 0"
  shows "factorize lib matrix options heap =
           (Err SingularMatrix, heap\<lparr>live_numeric := n # live_numeric heap\<rparr>)"
proof -
  have "validate matrix = Ok ()" using assms(1) by (simp add: csc_simps)
  with assms(2-6) show ?thesis
    by (simp add: factorize_def Let_def UMFPACK_OK_def UMFPACK_WARNING_SINGULAR_def non_null_def
        alloc_symbolic_def alloc_numeric_def free_symbolic_def)
qed

theorem singular_numeric_object_leaks_witness:
  "let m = \<lparr>nrows = 1, ncols = 1, col_ptr = [0, 0], row_idx = [], vals = []\<rparr>
   in documented_handles (identity_lib UMFPACK_WARNING_SINGULAR) \<and>
      factorize (identity_lib UMFPACK_WARNING_SINGULAR) m default_options
        \<lparr>live_symbolic = [], live_numeric = []\<rparr> =
      (Err SingularMatrix, \<lparr>live_symbolic = [], live_numeric = [9]\<rparr>)"
proof -
  let ?m = "\<lparr>nrows = 1, ncols = 1, col_ptr = [0, 0], row_idx = [], vals = []\<rparr>"
  have "csc_valid ?m"
    unfolding validate_iff_csc_valid [symmetric] by code_simp
  from singular_numeric_object_leaks [OF this, of "identity_lib UMFPACK_WARNING_SINGULAR"
      default_options 7 _ 9 _ "\<lparr>live_symbolic = [], live_numeric = []\<rparr>"]
  show ?thesis by (simp add: Let_def identity_lib_documented) (simp add: identity_lib_def)
qed

end
