(* ===== verification/Matrix_Validator.thy ===== *)
theory Matrix_Validator
  imports Csc_Matrix
begin

text \<open>
  The numerical pre-check of the matrix to factorize (\<open>solver-core/src/validator.rs\<close>).
  The nested scan over columns and stored entries is translated loop by loop; the report is
  then related to the entries of the matrix.
\<close>

subsection \<open>Data\<close>

datatype validation_status = StatusOk | WarningNearSingular | FailedInvalidStructure

record matrix_stats =
  ms_nrows :: i32
  ms_ncols :: i32
  ms_nnz :: usize
  sparsity :: f64
  empty_columns :: usize
  empty_rows :: usize
  near_zero_diagonal :: usize

record validation_report =
  status :: validation_status
  stats :: matrix_stats
  messages :: "string list"

subsection \<open>Operations\<close>

type_synonym entry_scan = "usize list \<times> bool \<times> usize"
type_synonym column_scan = "usize \<times> usize list \<times> usize"

text \<open>The body of the inner loop: row counter, diagonal flag, near-zero counter.\<close>

definition scan_entry :: "csc_matrix \<Rightarrow> f64 \<Rightarrow> nat \<Rightarrow> entry_scan \<Rightarrow> nat \<Rightarrow> entry_scan" where
  "scan_entry m diag_epsilon col s idx =
     (case s of (row_counts, found_diag, near_zero) \<Rightarrow>
        let row = unwrap_or (usize_try_from (row_idx m ! idx)) 0;
            row_counts' = (if row < length row_counts
                           then row_counts[row := row_counts ! row + 1] else row_counts)
        in if row = col
           then (row_counts', True,
                 if f_le (f_abs (vals m ! idx)) diag_epsilon then near_zero + 1 else near_zero)
           else (row_counts', found_diag, near_zero))"

text \<open>The body of the outer loop: empty columns, row counters, near-zero or missing diagonals.\<close>

definition scan_column :: "csc_matrix \<Rightarrow> f64 \<Rightarrow> column_scan \<Rightarrow> nat \<Rightarrow> column_scan" where
  "scan_column m diag_epsilon s col =
     (case s of (n_empty, row_counts, near_zero) \<Rightarrow>
        let start = col_start m col; stop = col_start m (col + 1);
            n_empty' = (if start = stop then n_empty + 1 else n_empty)
        in case foldl (scan_entry m diag_epsilon col) (row_counts, False, near_zero) [start..<stop] of
             (row_counts', found_diag, near_zero') \<Rightarrow>
               (n_empty', row_counts', if found_diag then near_zero' else near_zero' + 1))"

definition nnz_f64 :: "usize \<Rightarrow> f64" where
  "nnz_f64 n = (if n \<le> 4294967295 then f_of_int (int n) else f_of_int 4294967295)"

definition validate_factorization_matrix :: "csc_matrix \<Rightarrow> f64 \<Rightarrow> validation_report" where
  "validate_factorization_matrix matrix diag_epsilon =
     (let nr = nrows matrix; nc = ncols matrix;
          total_cells = f_mul (f_of_int (max nr 1)) (f_of_int (max nc 1));
          n = nnz matrix;
          square_messages = (if nr \<noteq> nc then [''M must be square for direct solve''] else []);
          (n_empty, row_counts, near_zero) =
             foldl (scan_column matrix diag_epsilon)
               (0, replicate (unwrap_or (usize_try_from nr) 0) 0, 0)
               [0..<unwrap_or (usize_try_from nc) 0];
          empty_row_count = length (filter (\<lambda>count. count = 0) row_counts);
          msgs = square_messages
             @ (if 0 < n_empty then [show_nat n_empty @ '' empty columns detected''] else [])
             @ (if 0 < empty_row_count
                then [show_nat empty_row_count @ '' empty rows detected''] else [])
             @ (if 0 < near_zero
                then [show_nat near_zero @ '' near-zero or missing diagonal entries''] else []);
          st = (if nr \<le> 0 \<or> nc \<le> 0 \<or> nr \<noteq> nc then FailedInvalidStructure
                else if msgs \<noteq> [] then WarningNearSingular else StatusOk)
      in \<lparr>status = st,
          stats = \<lparr>ms_nrows = nr, ms_ncols = nc, ms_nnz = n,
                   sparsity = f_sub (Fin 1) (f_div (nnz_f64 n) total_cells),
                   empty_columns = n_empty, empty_rows = empty_row_count,
                   near_zero_diagonal = near_zero\<rparr>,
          messages = msgs\<rparr>)"

subsection \<open>What the scan counts\<close>

definition column_empty :: "csc_matrix \<Rightarrow> nat \<Rightarrow> bool" where
  "column_empty m c \<longleftrightarrow> (\<forall>r < nat (nrows m). csc_entry m r c = None)"

definition row_empty :: "csc_matrix \<Rightarrow> nat \<Rightarrow> bool" where
  "row_empty m r \<longleftrightarrow> (\<forall>c < nat (ncols m). csc_entry m r c = None)"

definition weak_diagonal :: "csc_matrix \<Rightarrow> f64 \<Rightarrow> nat \<Rightarrow> bool" where
  "weak_diagonal m eps c \<longleftrightarrow>
     (case csc_entry m c c of None \<Rightarrow> True | Some v \<Rightarrow> f_le (f_abs v) eps)"

text \<open>A scan step on a stored entry instead of an index.\<close>

definition scan_pair :: "f64 \<Rightarrow> nat \<Rightarrow> entry_scan \<Rightarrow> i32 \<times> f64 \<Rightarrow> entry_scan" where
  "scan_pair eps col s p =
     (case s of (rc, fd, nz) \<Rightarrow>
        (if nat (fst p) < length rc then rc[nat (fst p) := rc ! nat (fst p) + 1] else rc,
         fd \<or> nat (fst p) = col,
         if nat (fst p) = col \<and> f_le (f_abs (snd p)) eps then nz + 1 else nz))"

lemma scan_entry_pair:
  "scan_entry m eps col s i = scan_pair eps col s (row_idx m ! i, vals m ! i)"
  by (auto simp: scan_entry_def scan_pair_def Let_def unwrap_or_def usize_try_from_def
      split: prod.split)

lemma foldl_scan_entry:
  "foldl (scan_entry m eps col) s is = foldl (scan_pair eps col) s (map (\<lambda>i. (row_idx m ! i, vals m ! i)) is)"
  by (induction "is" arbitrary: s) (simp_all add: scan_entry_pair)

lemma scan_pair_cases:
  obtains rc1 where "scan_pair eps col (rc, fd, nz) p =
      (rc1, fd \<or> nat (fst p) = col, nz + (if nat (fst p) = col \<and> f_le (f_abs (snd p)) eps then 1 else 0))"
    and "length rc1 = length rc"
    and "\<forall>r < length rc. rc1 ! r = rc ! r + (if nat (fst p) = r then 1 else 0)"
  by (rule that [of "if nat (fst p) < length rc then rc[nat (fst p) := rc ! nat (fst p) + 1] else rc"])
    (auto simp: scan_pair_def)

lemma foldl_scan_pair:
  assumes "foldl (scan_pair eps col) (rc, fd, nz) ps = (rc', fd', nz')"
  shows "length rc' = length rc \<and>
    (\<forall>r < length rc. rc' ! r = rc ! r + length (filter (\<lambda>p. nat (fst p) = r) ps)) \<and>
    (fd' \<longleftrightarrow> fd \<or> filter (\<lambda>p. nat (fst p) = col) ps \<noteq> []) \<and>
    nz' = nz + length (filter (\<lambda>p. f_le (f_abs (snd p)) eps)
                             (filter (\<lambda>p. nat (fst p) = col) ps))"
  using assms
proof (induction ps arbitrary: rc fd nz)
  case Nil
  then show ?case by simp
next
  case (Cons p ps)
  obtain rc1 where s: "scan_pair eps col (rc, fd, nz) p =
      (rc1, fd \<or> nat (fst p) = col, nz + (if nat (fst p) = col \<and> f_le (f_abs (snd p)) eps then 1 else 0))"
    and rc1: "length rc1 = length rc" "\<forall>r < length rc. rc1 ! r = rc ! r + (if nat (fst p) = r then 1 else 0)"
    by (rule scan_pair_cases)
  from Cons.prems s have "foldl (scan_pair eps col)
      (rc1, fd \<or> nat (fst p) = col, nz + (if nat (fst p) = col \<and> f_le (f_abs (snd p)) eps then 1 else 0)) ps =
      (rc', fd', nz')" by simp
  from Cons.IH [OF this] rc1 show ?case by (auto split: if_splits)
qed

lemma column_empty_iff:
  assumes "csc_valid m" and "c < nat (ncols m)"
  shows "column_empty m c \<longleftrightarrow> col_start m c = col_start m (c + 1)"
proof -
  have le: "col_start m c \<le> col_start m (c + 1)"
  proof -
    have "col_ptr m ! c \<le> col_ptr m ! (c + 1)"
      using assms by (intro sorted_nth_mono) (auto simp: csc_valid_def)
    then show ?thesis
      using csc_valid_start(1) [OF assms(1), of c] csc_valid_start(1) [OF assms(1), of "c + 1"] assms(2)
      by simp
  qed
  have "column_empty m c \<longleftrightarrow> csc_column m c = []"
  proof
    assume e: "column_empty m c"
    show "csc_column m c = []"
    proof (rule ccontr)
      assume "csc_column m c \<noteq> []"
      then obtain p where p: "p \<in> set (csc_column m c)" by (meson list.set_sel(1))
      then have "0 \<le> fst p \<and> fst p < nrows m"
        using csc_column_indices(3) [OF assms] unfolding csc_column_indices(1) [OF assms] by auto
      moreover have "csc_entry m (nat (fst p)) c \<noteq> None"
        using p calculation by (simp add: csc_entry_def map_of_eq_None_iff)
      ultimately show False using e by (simp add: column_empty_def nat_less_iff)
    qed
  qed (simp add: column_empty_def csc_entry_def)
  also have "\<dots> \<longleftrightarrow> col_start m c = col_start m (c + 1)"
    unfolding csc_column_indices(1) [OF assms] using le by auto
  finally show ?thesis .
qed

lemma scan_column_counts:
  assumes "csc_valid m" and "c < nat (ncols m)"
    and "scan_column m eps (ec, rc, nz) c = (ec', rc', nz')"
  shows "ec' = ec + (if column_empty m c then 1 else 0)"
    and "length rc' = length rc"
    and "r < length rc \<Longrightarrow> rc' ! r = rc ! r + (if csc_entry m r c = None then 0 else 1)"
    and "nz' = nz + (if weak_diagonal m eps c then 1 else 0)"
proof -
  obtain rc1 fd nz1 where f: "foldl (scan_pair eps c) (rc, False, nz) (csc_column m c) = (rc1, fd, nz1)"
    by (metis prod_cases3)
  then have "foldl (scan_entry m eps c) (rc, False, nz) [col_start m c..<col_start m (c + 1)] = (rc1, fd, nz1)"
    by (simp add: foldl_scan_entry csc_column_indices(1) [OF assms(1,2)])
  then have out: "ec' = ec + (if column_empty m c then 1 else 0)" "rc' = rc1"
    "nz' = (if fd then nz1 else nz1 + 1)"
    using assms(3) column_empty_iff [OF assms(1,2)] by (auto simp: scan_column_def)
  note p = foldl_scan_pair [OF f, unfolded csc_column_filter [OF assms(1,2)]]
  show "ec' = ec + (if column_empty m c then 1 else 0)" by (rule out)
  show "length rc' = length rc" using p out by simp
  show "rc' ! r = rc ! r + (if csc_entry m r c = None then 0 else 1)" if "r < length rc"
    using p that out by (auto split: option.splits)
  show "nz' = nz + (if weak_diagonal m eps c then 1 else 0)"
    using p out by (auto simp: weak_diagonal_def split: option.splits)
qed

lemma scan_columns_counts:
  assumes "csc_valid m" and "\<forall>c \<in> set cs. c < nat (ncols m)"
    and "foldl (scan_column m eps) (ec, rc, nz) cs = (ec', rc', nz')"
  shows "ec' = ec + length (filter (column_empty m) cs) \<and> length rc' = length rc \<and>
    (\<forall>r < length rc. rc' ! r = rc ! r + length (filter (\<lambda>c. csc_entry m r c \<noteq> None) cs)) \<and>
    nz' = nz + length (filter (weak_diagonal m eps) cs)"
  using assms(2,3)
proof (induction cs arbitrary: ec rc nz)
  case Nil
  then show ?case by simp
next
  case (Cons c cs)
  obtain ec1 rc1 nz1 where s: "scan_column m eps (ec, rc, nz) c = (ec1, rc1, nz1)"
    by (metis prod_cases3)
  note one = scan_column_counts [OF assms(1) _ s]
  have "foldl (scan_column m eps) (ec1, rc1, nz1) cs = (ec', rc', nz')"
    using Cons.prems(2) s by simp
  from Cons.IH [OF _ this] Cons.prems(1) one show ?case by auto
qed

lemma length_filter_nth_eq:
  "(\<And>i. i < length xs \<Longrightarrow> P (xs ! i) \<longleftrightarrow> Q i) \<Longrightarrow>
     length (filter P xs) = length (filter Q [0..<length xs])"
proof -
  assume a: "\<And>i. i < length xs \<Longrightarrow> P (xs ! i) \<longleftrightarrow> Q i"
  have "length (filter P xs) = length (filter P (map (\<lambda>i. xs ! i) [0..<length xs]))"
    by (simp add: map_nth)
  also have "\<dots> = length (filter (\<lambda>i. P (xs ! i)) [0..<length xs])"
    by (simp only: filter_map length_map o_def)
  also have "\<dots> = length (filter Q [0..<length xs])"
    using a by (intro arg_cong [where f = length] filter_cong) auto
  finally show ?thesis .
qed

lemma report_counts:
  fixes eps :: f64
  assumes "csc_valid m"
  defines "rep \<equiv> validate_factorization_matrix m eps"
  shows "empty_columns (stats rep) = length (filter (column_empty m) [0..<nat (ncols m)])"
    and "empty_rows (stats rep) = length (filter (row_empty m) [0..<nat (nrows m)])"
    and "near_zero_diagonal (stats rep) = length (filter (weak_diagonal m eps) [0..<nat (ncols m)])"
    and "messages rep = [] \<longleftrightarrow> nrows m = ncols m \<and> empty_columns (stats rep) = 0 \<and>
           empty_rows (stats rep) = 0 \<and> near_zero_diagonal (stats rep) = 0"
    and "status rep = (if nrows m \<noteq> ncols m then FailedInvalidStructure
           else if messages rep \<noteq> [] then WarningNearSingular else StatusOk)"
proof -
  have dims: "0 < nrows m" "0 < ncols m" using assms(1) by (auto simp: csc_valid_def)
  have conv: "unwrap_or (usize_try_from (nrows m)) 0 = nat (nrows m)"
    "unwrap_or (usize_try_from (ncols m)) 0 = nat (ncols m)"
    using dims by (auto simp: usize_try_from_def)
  obtain ec rc nz where f: "foldl (scan_column m eps) (0, replicate (nat (nrows m)) 0, 0)
      [0..<nat (ncols m)] = (ec, rc, nz)" by (metis prod_cases3)
  have c: "ec = length (filter (column_empty m) [0..<nat (ncols m)])" "length rc = nat (nrows m)"
    "\<And>r. r < nat (nrows m) \<Longrightarrow>
       rc ! r = length (filter (\<lambda>c. csc_entry m r c \<noteq> None) [0..<nat (ncols m)])"
    "nz = length (filter (weak_diagonal m eps) [0..<nat (ncols m)])"
    using scan_columns_counts [OF assms(1) _ f] by auto
  have "length (filter (\<lambda>n. n = 0) rc) = length (filter (row_empty m) [0..<length rc])"
    by (rule length_filter_nth_eq) (auto simp: c row_empty_def filter_empty_conv)
  with c show "empty_columns (stats rep) = length (filter (column_empty m) [0..<nat (ncols m)])"
    and "empty_rows (stats rep) = length (filter (row_empty m) [0..<nat (nrows m)])"
    and "near_zero_diagonal (stats rep) = length (filter (weak_diagonal m eps) [0..<nat (ncols m)])"
    unfolding rep_def validate_factorization_matrix_def Let_def conv f by simp_all
  show "messages rep = [] \<longleftrightarrow> nrows m = ncols m \<and> empty_columns (stats rep) = 0 \<and>
           empty_rows (stats rep) = 0 \<and> near_zero_diagonal (stats rep) = 0"
    unfolding rep_def validate_factorization_matrix_def Let_def conv f by simp
  show "status rep = (if nrows m \<noteq> ncols m then FailedInvalidStructure
           else if messages rep \<noteq> [] then WarningNearSingular else StatusOk)"
    using dims unfolding rep_def validate_factorization_matrix_def Let_def conv f by auto
qed

subsection \<open>Properties\<close>

text \<open>
  C20. The pre-check of a well-formed matrix reports exactly what the matrix holds: the number of
  columns and of rows without a stored entry, and the number of diagonal positions whose entry
  is missing or not above the threshold. A non-square matrix fails; a square one passes without
  warning exactly when no row or column is empty and every diagonal entry exceeds the threshold.
\<close>

theorem validator_report_exact:
  assumes "csc_valid m"
  shows "empty_columns (stats (validate_factorization_matrix m eps)) =
           card {c. c < nat (ncols m) \<and> (\<forall>r < nat (nrows m). csc_entry m r c = None)} \<and>
         empty_rows (stats (validate_factorization_matrix m eps)) =
           card {r. r < nat (nrows m) \<and> (\<forall>c < nat (ncols m). csc_entry m r c = None)} \<and>
         near_zero_diagonal (stats (validate_factorization_matrix m eps)) =
           card {c. c < nat (ncols m) \<and> (\<forall>v. csc_entry m c c = Some v \<longrightarrow> f_le (f_abs v) eps)} \<and>
         status (validate_factorization_matrix m eps) =
           (if nrows m \<noteq> ncols m then FailedInvalidStructure
            else if (\<forall>c < nat (ncols m). (\<exists>r < nat (nrows m). csc_entry m r c \<noteq> None) \<and>
                       (\<exists>r < nat (ncols m). csc_entry m c r \<noteq> None) \<and>
                       (\<exists>v. csc_entry m c c = Some v \<and> \<not> f_le (f_abs v) eps))
            then StatusOk else WarningNearSingular)"
proof -
  have card: "length (filter P [0..<n]) = card {i. i < n \<and> P i}" for P and n :: nat
    by (simp add: length_filter_conv_card cong: conj_cong)
  have weak: "weak_diagonal m eps c \<longleftrightarrow> (\<forall>v. csc_entry m c c = Some v \<longrightarrow> f_le (f_abs v) eps)" for c
    by (auto simp: weak_diagonal_def split: option.split)
  have empty: "length (filter P [0..<n]) = 0 \<longleftrightarrow> (\<forall>i < n. \<not> P i)" for P and n :: nat
    by (auto simp: filter_empty_conv)
  note r = report_counts [OF assms, of eps]
  have "status (validate_factorization_matrix m eps) =
           (if nrows m \<noteq> ncols m then FailedInvalidStructure
            else if (\<forall>c < nat (ncols m). \<not> column_empty m c \<and> \<not> row_empty m c \<and> \<not> weak_diagonal m eps c)
            then StatusOk else WarningNearSingular)"
    using r(4,5) unfolding r(1-3) empty by (auto split: if_splits)
  then show ?thesis
    unfolding r(1-3) card weak by (auto simp: column_empty_def row_empty_def)
qed

theorem validator_report_exact_witness:
  "let m = \<lparr>nrows = 2, ncols = 2, col_ptr = [0, 1, 2], row_idx = [0, 0], vals = [Fin 1, Fin 2]\<rparr>
   in csc_valid m \<and> status (validate_factorization_matrix m (Fin 0)) = WarningNearSingular \<and>
      empty_rows (stats (validate_factorization_matrix m (Fin 0))) =
        card {r. r < 2 \<and> (\<forall>c < 2. csc_entry m r c = None)}"
proof -
  let ?m = "\<lparr>nrows = 2, ncols = 2, col_ptr = [0, 1, 2], row_idx = [0, 0], vals = [Fin 1, Fin 2]\<rparr>"
  have v: "csc_valid ?m"
    unfolding validate_iff_csc_valid [symmetric] by code_simp
  have "csc_entry ?m 1 1 = None"
    by (simp add: csc_entry_def csc_column_def subslice_def col_start_def usize_try_from_def)
  then have "\<not> (\<forall>c < nat (ncols ?m). \<exists>v. csc_entry ?m c c = Some v \<and> \<not> f_le (f_abs v) (Fin 0))"
    by (auto intro!: exI [of _ 1])
  with v validator_report_exact [OF v, of "Fin 0"] show ?thesis
    unfolding Let_def by simp blast
qed

end
