(* ===== verification/Factorization_Cache.thy ===== *)
theory Factorization_Cache
  imports Umfpack Matrix_Validator
begin

text \<open>
  The byte-bounded factorization cache (\<open>solver-core/src/cache.rs\<close>). Every public operation
  takes the mutex for its whole body, so an execution is a sequence of operations; each is a
  function on the state behind the mutex. The entry map is an association list (newest first)
  whose order no operation but the choice among equally old entries can observe. The clock
  read by \<open>SystemTime::now()\<close> is an argument, and so are the UUID printer, the BLAKE3 digest
  and the allocator's vector capacity.
\<close>

named_theorems cache_simps \<open>projections of the cache operations\<close>

subsection \<open>Data\<close>

datatype solver_backend = BackendUmfpack

datatype factorization_state = Pending | Building | Ready | Failed | Stale

record factorization_key =
  fk_model_version :: uuid
  fk_backend :: solver_backend
  options_hash :: string

record prepared_model =
  pm_factorization :: umfpack_factorization
  pm_b :: csc_matrix
  pm_c :: csc_matrix
  pm_validation :: validation_report

record cache_entry =
  prepared :: "prepared_model option"
  entry_state :: factorization_state
  updated_at :: nat
  error_message :: "string option"
  estimated_bytes :: usize
  last_access :: u64

record factorization_cache_telemetry =
  t_capacity_bytes :: usize
  t_resident_bytes :: usize
  t_entry_count :: usize
  t_ready_entry_count :: usize
  t_eviction_count :: u64
  t_invalidation_count :: u64
  t_admission_rejection_count :: u64
  t_hit_count :: u64
  t_miss_count :: u64

record cache_admission_error =
  ae_estimated_bytes :: usize
  ae_capacity_bytes :: usize

type_synonym cache_map = "(factorization_key \<times> cache_entry) list"

record cache_inner =
  entries :: cache_map
  capacity_bytes :: usize
  resident_bytes :: usize
  access_clock :: u64
  eviction_count :: u64
  invalidation_count :: u64
  admission_rejection_count :: u64
  hit_count :: u64
  miss_count :: u64

subsection \<open>Keys and sizes\<close>

definition factorization_key_new ::
    "(nat list \<Rightarrow> string) \<Rightarrow> uuid \<Rightarrow> solver_backend \<Rightarrow> nat list \<Rightarrow> factorization_key" where
  "factorization_key_new blake3_hex mv backend options_bytes =
     \<lparr>fk_model_version = mv, fk_backend = backend, options_hash = blake3_hex options_bytes\<rparr>"

fun backend_u8 :: "solver_backend \<Rightarrow> nat" where
  "backend_u8 BackendUmfpack = 0"

definition factorization_id :: "(uuid \<Rightarrow> string) \<Rightarrow> factorization_key \<Rightarrow> string" where
  "factorization_id show_uuid key =
     show_uuid (fk_model_version key) @ '':'' @ options_hash key @ '':'' @
       show_nat (backend_u8 (fk_backend key))"

definition prepared_owned_bytes :: "(usize \<Rightarrow> usize) \<Rightarrow> prepared_model \<Rightarrow> usize" where
  "prepared_owned_bytes cap p =
     saturating_add
       (saturating_add (factorization_owned_bytes cap (pm_factorization p))
                       (estimated_owned_bytes cap (pm_b p)))
       (estimated_owned_bytes cap (pm_c p))"

subsection \<open>Operations\<close>

definition default_capacity_bytes :: usize where
  "default_capacity_bytes = 1024 * 1024 * 1024"

definition with_capacity :: "usize \<Rightarrow> cache_inner" where
  "with_capacity n =
     \<lparr>entries = [], capacity_bytes = n, resident_bytes = 0, access_clock = 0, eviction_count = 0,
      invalidation_count = 0, admission_rejection_count = 0, hit_count = 0, miss_count = 0\<rparr>"

definition cache_new :: cache_inner where
  "cache_new = with_capacity default_capacity_bytes"

definition next_access :: "cache_inner \<Rightarrow> u64 \<times> cache_inner" where
  "next_access inner =
     (let t = saturating_add (access_clock inner) 1 in (t, inner\<lparr>access_clock := t\<rparr>))"

definition remove_entry :: "factorization_key \<Rightarrow> cache_inner \<Rightarrow> cache_inner" where
  "remove_entry key inner =
     (case map_of (entries inner) key of
        None \<Rightarrow> inner
      | Some e \<Rightarrow> inner\<lparr>entries := filter (\<lambda>p. fst p \<noteq> key) (entries inner),
                       resident_bytes := saturating_sub (resident_bytes inner) (estimated_bytes e)\<rparr>)"

text \<open>\<open>HashMap::insert\<close> replaces an entry with the same key.\<close>

definition insert_entry :: "factorization_key \<Rightarrow> cache_entry \<Rightarrow> cache_inner \<Rightarrow> cache_inner" where
  "insert_entry key e inner =
     inner\<lparr>entries := (key, e) # filter (\<lambda>p. fst p \<noteq> key) (entries inner)\<rparr>"

definition set_building :: "nat \<Rightarrow> factorization_key \<Rightarrow> cache_inner \<Rightarrow> cache_inner" where
  "set_building now key inner =
     (case next_access (remove_entry key inner) of (access, inner1) \<Rightarrow>
        insert_entry key
          \<lparr>prepared = None, entry_state = Building, updated_at = now, error_message = None,
           estimated_bytes = 0, last_access = access\<rparr> inner1)"

text \<open>Older access first, ties by the stable id.\<close>

definition lru_le ::
    "(uuid \<Rightarrow> string) \<Rightarrow> factorization_key \<times> cache_entry \<Rightarrow> factorization_key \<times> cache_entry \<Rightarrow> bool" where
  "lru_le show_uuid l r \<longleftrightarrow>
     last_access (snd l) < last_access (snd r) \<or>
     last_access (snd l) = last_access (snd r) \<and>
       factorization_id show_uuid (fst l) \<le> factorization_id show_uuid (fst r)"

definition eviction_key :: "(uuid \<Rightarrow> string) \<Rightarrow> cache_inner \<Rightarrow> factorization_key option" where
  "eviction_key show_uuid inner =
     map_option fst (min_by (lru_le show_uuid)
       (filter (\<lambda>p. 0 < estimated_bytes (snd p)) (entries inner)))"

function evict_until :: "(uuid \<Rightarrow> string) \<Rightarrow> usize \<Rightarrow> cache_inner \<Rightarrow> cache_inner" where
  "evict_until show_uuid needed inner =
     (if capacity_bytes inner < saturating_add (resident_bytes inner) needed
      then case eviction_key show_uuid inner of
             None \<Rightarrow> inner
           | Some k \<Rightarrow>
               evict_until show_uuid needed
                 ((remove_entry k inner)\<lparr>eviction_count := saturating_add (eviction_count inner) 1\<rparr>)
      else inner)"
  by pat_completeness auto

definition admission_message :: "usize \<Rightarrow> usize \<Rightarrow> string" where
  "admission_message est capacity =
     ''cache admission rejected: estimated_bytes='' @ show_nat est @
     '' capacity_bytes='' @ show_nat capacity"

lemma eviction_key_mem:
  "eviction_key show_uuid inner = Some k \<Longrightarrow>
     \<exists>e. (k, e) \<in> set (entries inner) \<and> 0 < estimated_bytes e"
  by (auto simp: eviction_key_def dest!: min_by_mem)

termination evict_until
proof (relation "measure (\<lambda>(_, _, inner). length (entries inner))")
  fix show_uuid :: "uuid \<Rightarrow> string" and needed inner k
  assume "eviction_key show_uuid inner = Some k"
  then obtain e where e: "(k, e) \<in> set (entries inner)" using eviction_key_mem by blast
  then obtain e' where "map_of (entries inner) k = Some e'" by (metis weak_map_of_SomeI)
  moreover have "length (filter (\<lambda>p. fst p \<noteq> k) (entries inner)) < length (entries inner)"
    using e by (intro length_filter_less [of "(k, e)"]) auto
  ultimately show "((show_uuid, needed,
      (remove_entry k inner)\<lparr>eviction_count := saturating_add (eviction_count inner) 1\<rparr>),
      (show_uuid, needed, inner)) \<in> measure (\<lambda>(_, _, inner). length (entries inner))"
    by (simp add: remove_entry_def)
qed simp

declare evict_until.simps [simp del]

definition set_ready ::
    "(uuid \<Rightarrow> string) \<Rightarrow> (usize \<Rightarrow> usize) \<Rightarrow> nat \<Rightarrow> factorization_key \<Rightarrow> prepared_model \<Rightarrow> cache_inner \<Rightarrow>
       (cache_admission_error, usize) result \<times> cache_inner" where
  "set_ready show_uuid cap now key p inner =
     (let est = prepared_owned_bytes cap p;
          inner0 = remove_entry key inner
      in if capacity_bytes inner0 < est
         then case next_access (inner0\<lparr>admission_rejection_count :=
                     saturating_add (admission_rejection_count inner0) 1\<rparr>) of (access, inner1) \<Rightarrow>
              (Err \<lparr>ae_estimated_bytes = est, ae_capacity_bytes = capacity_bytes inner1\<rparr>,
               insert_entry key
                 \<lparr>prepared = None, entry_state = Failed, updated_at = now,
                  error_message = Some (admission_message est (capacity_bytes inner1)),
                  estimated_bytes = 0, last_access = access\<rparr> inner1)
         else case next_access (evict_until show_uuid est inner0) of (access, inner1) \<Rightarrow>
              (Ok est,
               insert_entry key
                 \<lparr>prepared = Some p, entry_state = Ready, updated_at = now, error_message = None,
                  estimated_bytes = est, last_access = access\<rparr>
                 (inner1\<lparr>resident_bytes := saturating_add (resident_bytes inner1) est\<rparr>)))"

definition set_failed :: "nat \<Rightarrow> factorization_key \<Rightarrow> string \<Rightarrow> cache_inner \<Rightarrow> cache_inner" where
  "set_failed now key msg inner =
     (case next_access (remove_entry key inner) of (access, inner1) \<Rightarrow>
        insert_entry key
          \<lparr>prepared = None, entry_state = Failed, updated_at = now, error_message = Some msg,
           estimated_bytes = 0, last_access = access\<rparr> inner1)"

definition stale_step :: "nat \<Rightarrow> cache_inner \<Rightarrow> factorization_key \<Rightarrow> cache_inner" where
  "stale_step now inner key =
     (case next_access (remove_entry key inner) of (access, inner1) \<Rightarrow>
        insert_entry key
          \<lparr>prepared = None, entry_state = Stale, updated_at = now, error_message = None,
           estimated_bytes = 0, last_access = access\<rparr> inner1)"

definition invalidate_model :: "nat \<Rightarrow> uuid \<Rightarrow> cache_inner \<Rightarrow> usize \<times> cache_inner" where
  "invalidate_model now mv inner =
     (let ks = filter (\<lambda>k. fk_model_version k = mv) (map fst (entries inner));
          inner1 = foldl (stale_step now) inner ks
      in (length ks,
          inner1\<lparr>invalidation_count := saturating_add (invalidation_count inner1) (length ks)\<rparr>))"

definition touch_entry :: "nat \<Rightarrow> u64 \<Rightarrow> factorization_key \<Rightarrow> cache_map \<Rightarrow> cache_map" where
  "touch_entry now access key es =
     map (\<lambda>(k, e). if k = key then (k, e\<lparr>last_access := access, updated_at := now\<rparr>) else (k, e)) es"

definition ready_lookup :: "factorization_key \<Rightarrow> cache_inner \<Rightarrow> prepared_model option" where
  "ready_lookup key inner =
     (case map_of (entries inner) key of
        None \<Rightarrow> None
      | Some e \<Rightarrow> if entry_state e = Ready then prepared e else None)"

definition get_ready ::
    "nat \<Rightarrow> factorization_key \<Rightarrow> cache_inner \<Rightarrow> prepared_model option \<times> cache_inner" where
  "get_ready now key inner =
     (case ready_lookup key inner of
        Some p \<Rightarrow>
          (case next_access inner of (access, inner1) \<Rightarrow>
             (Some p, inner1\<lparr>entries := touch_entry now access key (entries inner1),
                             hit_count := saturating_add (hit_count inner1) 1\<rparr>))
      | None \<Rightarrow> (None, inner\<lparr>miss_count := saturating_add (miss_count inner) 1\<rparr>))"

definition cache_state :: "factorization_key \<Rightarrow> cache_inner \<Rightarrow> factorization_state option" where
  "cache_state key inner = map_option entry_state (map_of (entries inner) key)"

definition cache_error :: "factorization_key \<Rightarrow> cache_inner \<Rightarrow> string option" where
  "cache_error key inner = Option.bind (map_of (entries inner) key) error_message"

definition telemetry :: "cache_inner \<Rightarrow> factorization_cache_telemetry" where
  "telemetry inner =
     \<lparr>t_capacity_bytes = capacity_bytes inner, t_resident_bytes = resident_bytes inner,
      t_entry_count = length (entries inner),
      t_ready_entry_count = length (filter (\<lambda>p. entry_state (snd p) = Ready) (entries inner)),
      t_eviction_count = eviction_count inner, t_invalidation_count = invalidation_count inner,
      t_admission_rejection_count = admission_rejection_count inner,
      t_hit_count = hit_count inner, t_miss_count = miss_count inner\<rparr>"

subsection \<open>Invariant\<close>

definition bytes_of :: "cache_map \<Rightarrow> nat" where
  "bytes_of es = sum_list (map (\<lambda>p. estimated_bytes (snd p)) es)"

text \<open>
  The capacity is below \<open>usize::MAX\<close>: with that capacity the saturating sum of the eviction
  test could not exceed it, and the loop would stop before the bytes fit.

  An entry owns a prepared model exactly when it is ready, is charged for what that model
  retains and for nothing otherwise, and carries a message exactly when it failed.
\<close>

definition entry_ok :: "(usize \<Rightarrow> usize) \<Rightarrow> u64 \<Rightarrow> cache_entry \<Rightarrow> bool" where
  "entry_ok cap clock e \<longleftrightarrow>
     (entry_state e = Ready \<longleftrightarrow> prepared e \<noteq> None) \<and>
     estimated_bytes e = (case prepared e of None \<Rightarrow> 0 | Some p \<Rightarrow> prepared_owned_bytes cap p) \<and>
     (entry_state e = Failed \<longleftrightarrow> error_message e \<noteq> None) \<and>
     entry_state e \<noteq> Pending \<and> last_access e \<le> clock"

definition cache_inv :: "(usize \<Rightarrow> usize) \<Rightarrow> cache_inner \<Rightarrow> bool" where
  "cache_inv cap s \<longleftrightarrow>
     distinct (map fst (entries s)) \<and>
     resident_bytes s = bytes_of (entries s) \<and> resident_bytes s \<le> capacity_bytes s \<and>
     capacity_bytes s < u64_max \<and> access_clock s \<le> u64_max \<and>
     (\<forall>p \<in> set (entries s). entry_ok cap (access_clock s) (snd p))"

subsection \<open>Elementary facts\<close>

lemma filter_absent: "map_of es k = None \<Longrightarrow> filter (\<lambda>p. fst p \<noteq> k) es = es"
  by (rule filter_True) (auto simp: map_of_eq_None_iff)

lemma remove_entry_fields [simp, cache_simps]:
  "entries (remove_entry k s) = filter (\<lambda>p. fst p \<noteq> k) (entries s)"
  "capacity_bytes (remove_entry k s) = capacity_bytes s"
  "access_clock (remove_entry k s) = access_clock s"
  "eviction_count (remove_entry k s) = eviction_count s"
  "hit_count (remove_entry k s) = hit_count s" "miss_count (remove_entry k s) = miss_count s"
  by (auto simp: remove_entry_def filter_absent split: option.split)

lemma next_access_fields [simp, cache_simps]:
  "fst (next_access s) = saturating_add (access_clock s) 1"
  "snd (next_access s) = s\<lparr>access_clock := saturating_add (access_clock s) 1\<rparr>"
  by (simp_all add: next_access_def Let_def)

lemma next_access_case [cache_simps]:
  "(case next_access s of (t, s') \<Rightarrow> f t s') =
     f (saturating_add (access_clock s) 1) (s\<lparr>access_clock := saturating_add (access_clock s) 1\<rparr>)"
  by (simp add: next_access_def Let_def)

lemma map_of_filter_key:
  "map_of (filter (\<lambda>p. fst p \<noteq> k) es) j = (if j = k then None else map_of es j)"
  by (induction es) auto

lemma bytes_of_simps [simp]:
  "bytes_of [] = 0" "bytes_of (p # es) = estimated_bytes (snd p) + bytes_of es"
  by (simp_all add: bytes_of_def)

lemma bytes_of_remove:
  "distinct (map fst es) \<Longrightarrow> map_of es k = Some e \<Longrightarrow>
     bytes_of es = estimated_bytes e + bytes_of (filter (\<lambda>p. fst p \<noteq> k) es)"
proof (induction es)
  case Nil
  then show ?case by simp
next
  case (Cons p es)
  show ?case
  proof (cases "fst p = k")
    case True
    with Cons.prems have "map_of es k = None" "e = snd p"
      by (auto simp: map_of_eq_None_iff split: if_splits)
    with True show ?thesis by (simp add: filter_absent)
  next
    case False
    with Cons show ?thesis by (cases p) simp
  qed
qed

lemma saturating_clock_mono: "c \<le> u64_max \<Longrightarrow> c \<le> saturating_add c 1"
  by (simp add: saturating_add_def)

lemma entry_ok_mono: "entry_ok cap c e \<Longrightarrow> c \<le> d \<Longrightarrow> entry_ok cap d e"
  by (auto simp: entry_ok_def)

lemma cache_inv_entry:
  "cache_inv cap s \<Longrightarrow> map_of (entries s) k = Some e \<Longrightarrow> entry_ok cap (access_clock s) e"
  by (auto simp: cache_inv_def dest!: map_of_SomeD)

subsection \<open>The invariant is kept\<close>

lemma inv_with_capacity: "n < u64_max \<Longrightarrow> cache_inv cap (with_capacity n)"
  by (simp add: cache_inv_def with_capacity_def)

lemma inv_counters [simp]:
  "cache_inv cap (s\<lparr>eviction_count := n\<rparr>) = cache_inv cap s"
  "cache_inv cap (s\<lparr>invalidation_count := n\<rparr>) = cache_inv cap s"
  "cache_inv cap (s\<lparr>admission_rejection_count := n\<rparr>) = cache_inv cap s"
  "cache_inv cap (s\<lparr>hit_count := n\<rparr>) = cache_inv cap s"
  "cache_inv cap (s\<lparr>miss_count := n\<rparr>) = cache_inv cap s"
  by (simp_all add: cache_inv_def)

lemma inv_remove:
  assumes "cache_inv cap s"
  shows "cache_inv cap (remove_entry k s)"
proof (cases "map_of (entries s) k")
  case None
  with assms show ?thesis by (simp add: remove_entry_def)
next
  case (Some e)
  with assms bytes_of_remove [of "entries s" k e] show ?thesis
    by (auto simp: cache_inv_def remove_entry_def saturating_sub_def distinct_map inj_on_def)
qed

lemma inv_tick: "cache_inv cap s \<Longrightarrow> cache_inv cap (s\<lparr>access_clock := saturating_add (access_clock s) 1\<rparr>)"
  using saturating_clock_mono [of "access_clock s"]
  by (auto simp: cache_inv_def intro: entry_ok_mono)

lemma inv_insert:
  assumes "cache_inv cap s" and "map_of (entries s) k = None"
    and "entry_ok cap (access_clock s) e" and "resident_bytes s + estimated_bytes e \<le> capacity_bytes s"
  shows "cache_inv cap (insert_entry k e (s\<lparr>resident_bytes := saturating_add (resident_bytes s) (estimated_bytes e)\<rparr>))"
proof -
  have "filter (\<lambda>p. fst p \<noteq> k) (entries s) = entries s" by (rule filter_absent [OF assms(2)])
  with assms show ?thesis
    by (auto simp: cache_inv_def insert_entry_def saturating_add_def map_of_eq_None_iff)
qed

text \<open>Replacing an entry by one that holds nothing: the shape of every operation but \<open>set_ready\<close>.\<close>

lemma inv_place_empty:
  assumes "cache_inv cap s" and "entry_ok cap (saturating_add (access_clock s) 1) e"
    and "estimated_bytes e = 0"
  shows "cache_inv cap (insert_entry k e
           ((remove_entry k s)\<lparr>access_clock := saturating_add (access_clock s) 1\<rparr>))"
proof -
  let ?t = "(remove_entry k s)\<lparr>access_clock := saturating_add (access_clock s) 1\<rparr>"
  have t: "cache_inv cap ?t" using inv_tick [OF inv_remove [OF assms(1), of k]] by simp
  then have "?t\<lparr>resident_bytes := saturating_add (resident_bytes ?t) 0\<rparr> = ?t"
    by (simp add: cache_inv_def saturating_add_def)
  with inv_insert [OF t, of k e] t assms show ?thesis
    by (simp add: map_of_filter_key cache_inv_def)
qed

lemma inv_set_building: "cache_inv cap s \<Longrightarrow> cache_inv cap (set_building now k s)"
  unfolding set_building_def next_access_case remove_entry_fields
  by (rule inv_place_empty) (simp_all add: entry_ok_def)

lemma inv_set_failed: "cache_inv cap s \<Longrightarrow> cache_inv cap (set_failed now k msg s)"
  unfolding set_failed_def next_access_case remove_entry_fields
  by (rule inv_place_empty) (simp_all add: entry_ok_def)

lemma inv_stale_step: "cache_inv cap s \<Longrightarrow> cache_inv cap (stale_step now s k)"
  unfolding stale_step_def next_access_case remove_entry_fields
  by (rule inv_place_empty) (simp_all add: entry_ok_def)

lemma inv_invalidate_model: "cache_inv cap s \<Longrightarrow> cache_inv cap (snd (invalidate_model now mv s))"
  unfolding invalidate_model_def Let_def snd_conv inv_counters
  by (rule foldl_invariant [where P = "cache_inv cap"]) (auto intro: inv_stale_step)

lemma touch_entry_simps [simp]:
  "map fst (touch_entry now t k es) = map fst es" "bytes_of (touch_entry now t k es) = bytes_of es"
  by (induction es) (auto simp: touch_entry_def)

lemma inv_get_ready:
  assumes "cache_inv cap s"
  shows "cache_inv cap (snd (get_ready now k s))"
proof (cases "ready_lookup k s")
  case None
  with assms show ?thesis by (simp add: get_ready_def)
next
  case (Some p)
  let ?t = "saturating_add (access_clock s) 1"
  have "entry_ok cap ?t (snd q)" if "q \<in> set (touch_entry now ?t k (entries s))" for q
  proof -
    from that obtain p where p: "p \<in> set (entries s)"
      "snd q = snd p \<or> snd q = (snd p)\<lparr>last_access := ?t, updated_at := now\<rparr>"
      by (auto simp: touch_entry_def split: if_splits)
    with assms have "entry_ok cap (access_clock s) (snd p)" by (simp add: cache_inv_def)
    moreover have "access_clock s \<le> ?t"
      by (rule saturating_clock_mono) (use assms in \<open>simp add: cache_inv_def\<close>)
    ultimately show ?thesis using p(2) by (auto simp: entry_ok_def)
  qed
  with assms Some show ?thesis
    by (simp add: get_ready_def next_access_case cache_inv_def)
qed

subsection \<open>Eviction\<close>

interpretation lru: total_preorder "lru_le show_uuid" for show_uuid
  by unfold_locales (auto simp: lru_le_def)

lemma eviction_key_least:
  assumes "eviction_key show_uuid s = Some k" and "distinct (map fst (entries s))"
  obtains e where "map_of (entries s) k = Some e" and "0 < estimated_bytes e"
    and "\<And>q. q \<in> set (entries s) \<Longrightarrow> 0 < estimated_bytes (snd q) \<Longrightarrow> lru_le show_uuid (k, e) q"
proof -
  from assms(1) obtain p where p: "min_by (lru_le show_uuid)
      (filter (\<lambda>p. 0 < estimated_bytes (snd p)) (entries s)) = Some p" "k = fst p"
    by (auto simp: eviction_key_def)
  show thesis
  proof (rule that [of "snd p"])
    show "map_of (entries s) k = Some (snd p)" and "0 < estimated_bytes (snd p)"
      using min_by_mem [OF p(1)] assms(2) p(2) by auto
    show "lru_le show_uuid (k, snd p) q"
      if "q \<in> set (entries s)" "0 < estimated_bytes (snd q)" for q
      using lru.min_by_least [OF p(1)] that p(2) by simp
  qed
qed

lemma eviction_key_None: "eviction_key show_uuid s = None \<Longrightarrow> bytes_of (entries s) = 0"
  by (auto simp: eviction_key_def bytes_of_def filter_empty_conv)

text \<open>
  What the loop does: the victims are a set of keys of byte-holding entries, none of them
  younger than a surviving byte-holding entry; the rest is untouched; the needed bytes fit;
  and without its last victim they would not have fitted.
\<close>

definition evicted :: "(uuid \<Rightarrow> string) \<Rightarrow> usize \<Rightarrow> cache_inner \<Rightarrow> cache_inner \<Rightarrow> factorization_key set \<Rightarrow> bool" where
  "evicted show_uuid needed s s' V \<longleftrightarrow>
     entries s' = filter (\<lambda>p. fst p \<notin> V) (entries s) \<and>
     V \<subseteq> {fst p | p. p \<in> set (entries s) \<and> 0 < estimated_bytes (snd p)} \<and>
     (\<forall>p \<in> set (entries s). \<forall>q \<in> set (entries s'). fst p \<in> V \<longrightarrow> 0 < estimated_bytes (snd q) \<longrightarrow>
        lru_le show_uuid p q) \<and>
     resident_bytes s' + needed \<le> capacity_bytes s' \<and>
     (V \<noteq> {} \<longrightarrow> (\<exists>p \<in> set (entries s). fst p \<in> V \<and>
        capacity_bytes s < resident_bytes s' + estimated_bytes (snd p) + needed))"

lemma evict_until_spec:
  assumes "cache_inv cap s" and "needed \<le> capacity_bytes s"
  shows "cache_inv cap (evict_until show_uuid needed s) \<and>
         capacity_bytes (evict_until show_uuid needed s) = capacity_bytes s \<and>
         access_clock (evict_until show_uuid needed s) = access_clock s \<and>
         (\<exists>V. evicted show_uuid needed s (evict_until show_uuid needed s) V)"
  using assms
proof (induction show_uuid needed s rule: evict_until.induct)
  case (1 show_uuid needed s)
  have fits: "capacity_bytes s < saturating_add (resident_bytes s) needed \<longleftrightarrow>
      capacity_bytes s < resident_bytes s + needed"
    using "1.prems"(1) by (auto simp: cache_inv_def saturating_add_def)
  show ?case
  proof (cases "capacity_bytes s < resident_bytes s + needed")
    case False
    then have "evict_until show_uuid needed s = s" by (simp add: evict_until.simps fits)
    moreover have "evicted show_uuid needed s s {}" using False by (simp add: evicted_def)
    ultimately show ?thesis using "1.prems"(1) by auto
  next
    case True
    have "eviction_key show_uuid s \<noteq> None"
      using eviction_key_None [of show_uuid s] True "1.prems" by (auto simp: cache_inv_def)
    then obtain k where k: "eviction_key show_uuid s = Some k" by blast
    have d: "distinct (map fst (entries s))" using "1.prems"(1) by (simp add: cache_inv_def)
    from eviction_key_least [OF k d] obtain e where e: "map_of (entries s) k = Some e"
      "0 < estimated_bytes e"
      "\<And>q. q \<in> set (entries s) \<Longrightarrow> 0 < estimated_bytes (snd q) \<Longrightarrow> lru_le show_uuid (k, e) q"
      by blast
    define s1 where "s1 = (remove_entry k s)\<lparr>eviction_count := saturating_add (eviction_count s) 1\<rparr>"
    have step: "evict_until show_uuid needed s = evict_until show_uuid needed s1"
      by (subst evict_until.simps) (simp add: fits True k s1_def)
    have s1: "cache_inv cap s1" "capacity_bytes s1 = capacity_bytes s" "access_clock s1 = access_clock s"
      "entries s1 = filter (\<lambda>p. fst p \<noteq> k) (entries s)"
      using inv_remove [OF "1.prems"(1)] by (simp_all add: s1_def)
    have "capacity_bytes s < saturating_add (resident_bytes s) needed" using True fits by simp
    from "1.IH" [OF this k] s1 "1.prems"(2) obtain V where
      ih: "cache_inv cap (evict_until show_uuid needed s1)"
      "capacity_bytes (evict_until show_uuid needed s1) = capacity_bytes s"
      "access_clock (evict_until show_uuid needed s1) = access_clock s"
      "evicted show_uuid needed s1 (evict_until show_uuid needed s1) V"
      unfolding s1_def by auto
    let ?s' = "evict_until show_uuid needed s1"
    have ent: "entries ?s' = filter (\<lambda>p. fst p \<notin> insert k V) (entries s)"
      using ih(4) s1(4) by (auto simp: evicted_def intro: filter_cong)
    have key: "p = (k, e)" if "p \<in> set (entries s)" "fst p = k" for p
      using that e(1) d by (metis eq_fst_iff map_of_eq_Some_iff option.inject prod.collapse)
    have last: "(\<exists>p \<in> set (entries s). fst p \<in> insert k V \<and>
        capacity_bytes s < resident_bytes ?s' + estimated_bytes (snd p) + needed)"
    proof (cases "V = {}")
      case True
      then have "entries ?s' = entries s1" using ih(4) by (simp add: evicted_def)
      then have "bytes_of (entries s) = estimated_bytes e + resident_bytes ?s'"
        using bytes_of_remove [OF d e(1)] ih(1) s1(4) by (simp add: cache_inv_def)
      then have "capacity_bytes s < resident_bytes ?s' + estimated_bytes e + needed"
        using \<open>capacity_bytes s < resident_bytes s + needed\<close> "1.prems"(1) by (simp add: cache_inv_def)
      with e(1) show ?thesis by (intro bexI [of _ "(k, e)"]) (auto dest: map_of_SomeD)
    next
      case False
      with ih(4) s1(2) obtain p where "p \<in> set (entries s1)" "fst p \<in> V"
        "capacity_bytes s < resident_bytes ?s' + estimated_bytes (snd p) + needed"
        unfolding evicted_def by metis
      with s1(4) show ?thesis by (intro bexI [of _ p]) auto
    qed
    have order: "\<forall>p \<in> set (entries s). \<forall>q \<in> set (entries ?s'). fst p \<in> insert k V \<longrightarrow>
        0 < estimated_bytes (snd q) \<longrightarrow> lru_le show_uuid p q"
    proof (intro ballI impI)
      fix p q assume p: "p \<in> set (entries s)" "fst p \<in> insert k V"
        and q: "q \<in> set (entries ?s')" "0 < estimated_bytes (snd q)"
      show "lru_le show_uuid p q"
      proof (cases "fst p = k")
        case True
        then show ?thesis using key [OF p(1) True] e(3) [of q] q ent by auto
      next
        case False
        then have "p \<in> set (entries s1)" "fst p \<in> V" using p s1(4) by auto
        with ih(4) q show ?thesis by (auto simp: evicted_def)
      qed
    qed
    have sub: "insert k V \<subseteq> {fst p | p. p \<in> set (entries s) \<and> 0 < estimated_bytes (snd p)}"
    proof -
      have "V \<subseteq> {fst p | p. p \<in> set (entries s) \<and> 0 < estimated_bytes (snd p)}"
        using ih(4) s1(4) unfolding evicted_def by auto
      moreover have "(k, e) \<in> set (entries s)" using e(1) by (rule map_of_SomeD)
      ultimately show ?thesis using e(2) by force
    qed
    have fit: "resident_bytes ?s' + needed \<le> capacity_bytes ?s'"
      using ih(4) by (simp add: evicted_def)
    have "evicted show_uuid needed s ?s' (insert k V)"
      unfolding evicted_def by (intro conjI impI ent sub order fit last)
    with ih step show ?thesis by auto
  qed
qed

subsection \<open>Admission\<close>

lemma remove_entry_counter:
  "(remove_entry k s)\<lparr>admission_rejection_count := n\<rparr> = remove_entry k (s\<lparr>admission_rejection_count := n\<rparr>)"
  by (simp add: remove_entry_def split: option.split)

lemma set_ready_rejected:
  assumes "capacity_bytes s < prepared_owned_bytes cap p"
  shows "set_ready show_uuid cap now k p s =
     (Err \<lparr>ae_estimated_bytes = prepared_owned_bytes cap p, ae_capacity_bytes = capacity_bytes s\<rparr>,
      insert_entry k
        \<lparr>prepared = None, entry_state = Failed, updated_at = now,
         error_message = Some (admission_message (prepared_owned_bytes cap p) (capacity_bytes s)),
         estimated_bytes = 0, last_access = saturating_add (access_clock s) 1\<rparr>
        ((remove_entry k (s\<lparr>admission_rejection_count :=
             saturating_add (admission_rejection_count (remove_entry k s)) 1\<rparr>))
           \<lparr>access_clock := saturating_add (access_clock s) 1\<rparr>))"
  using assms by (simp add: set_ready_def Let_def next_access_case remove_entry_counter)

lemma set_ready_admitted:
  assumes "prepared_owned_bytes cap p \<le> capacity_bytes s"
  shows "set_ready show_uuid cap now k p s =
     (let s1 = evict_until show_uuid (prepared_owned_bytes cap p) (remove_entry k s);
          t = saturating_add (access_clock s1) 1
      in (Ok (prepared_owned_bytes cap p),
          insert_entry k
            \<lparr>prepared = Some p, entry_state = Ready, updated_at = now, error_message = None,
             estimated_bytes = prepared_owned_bytes cap p, last_access = t\<rparr>
            (s1\<lparr>access_clock := t, resident_bytes :=
               saturating_add (resident_bytes s1) (prepared_owned_bytes cap p)\<rparr>)))"
  using assms by (simp add: set_ready_def Let_def next_access_case)

lemma inv_set_ready:
  assumes "cache_inv cap s"
  shows "cache_inv cap (snd (set_ready show_uuid cap now k p s))"
proof (cases "prepared_owned_bytes cap p \<le> capacity_bytes s")
  case False
  then have "capacity_bytes s < prepared_owned_bytes cap p" by simp
  let ?s = "s\<lparr>admission_rejection_count := saturating_add (admission_rejection_count (remove_entry k s)) 1\<rparr>"
  have "cache_inv cap ?s" using assms by simp
  note inv_place_empty [OF this, of "\<lparr>prepared = None, entry_state = Failed, updated_at = now,
         error_message = Some (admission_message (prepared_owned_bytes cap p) (capacity_bytes s)),
         estimated_bytes = 0, last_access = saturating_add (access_clock s) 1\<rparr>" k]
  then show ?thesis unfolding set_ready_rejected [OF \<open>capacity_bytes s < _\<close>] snd_conv
    by (simp add: entry_ok_def)
next
  case True
  let ?n = "prepared_owned_bytes cap p" and ?s0 = "remove_entry k s"
  let ?s1 = "evict_until show_uuid ?n ?s0"
  let ?t = "saturating_add (access_clock ?s1) 1"
  have "cache_inv cap ?s0" "?n \<le> capacity_bytes ?s0" using inv_remove [OF assms] True by auto
  from evict_until_spec [OF this, of show_uuid] obtain V where
    s1: "cache_inv cap ?s1" "evicted show_uuid ?n ?s0 ?s1 V" by blast
  have "cache_inv cap (?s1\<lparr>access_clock := ?t\<rparr>)" by (rule inv_tick [OF s1(1)])
  moreover have "map_of (entries ?s1) k = None"
    using s1(2) by (auto simp: evicted_def map_of_eq_None_iff)
  moreover have "resident_bytes ?s1 + ?n \<le> capacity_bytes ?s1" using s1(2) by (simp add: evicted_def)
  ultimately have "cache_inv cap (insert_entry k
      \<lparr>prepared = Some p, entry_state = Ready, updated_at = now, error_message = None,
       estimated_bytes = ?n, last_access = ?t\<rparr>
      ((?s1\<lparr>access_clock := ?t\<rparr>)\<lparr>resident_bytes := saturating_add (resident_bytes (?s1\<lparr>access_clock := ?t\<rparr>))
        (estimated_bytes \<lparr>prepared = Some p, entry_state = Ready, updated_at = now, error_message = None,
       estimated_bytes = ?n, last_access = ?t\<rparr>)\<rparr>))"
    by (intro inv_insert) (simp_all add: entry_ok_def)
  then show ?thesis by (simp add: set_ready_admitted [OF True] Let_def)
qed

subsection \<open>Lookups\<close>

lemma ready_lookup_insert [cache_simps]:
  "ready_lookup j (insert_entry k e s) =
     (if j = k then if entry_state e = Ready then prepared e else None else ready_lookup j s)"
  by (simp add: ready_lookup_def insert_entry_def map_of_filter_key)

lemma ready_lookup_remove [cache_simps]:
  "ready_lookup j (remove_entry k s) = (if j = k then None else ready_lookup j s)"
  by (simp add: ready_lookup_def map_of_filter_key)

lemma ready_lookup_fields [simp, cache_simps]:
  "ready_lookup j (s\<lparr>access_clock := c\<rparr>) = ready_lookup j s"
  "ready_lookup j (s\<lparr>resident_bytes := b\<rparr>) = ready_lookup j s"
  "ready_lookup j (s\<lparr>miss_count := n\<rparr>) = ready_lookup j s"
  "ready_lookup j (s\<lparr>invalidation_count := n\<rparr>) = ready_lookup j s"
  "ready_lookup j (s\<lparr>admission_rejection_count := n\<rparr>) = ready_lookup j s"
  by (simp_all add: ready_lookup_def)

lemma cache_state_placed [simp]:
  "cache_state k (insert_entry k e s) = Some (entry_state e)"
  "cache_state k (set_building now k s) = Some Building"
  "cache_state k (set_failed now k msg s) = Some Failed"
  by (simp_all add: cache_state_def set_building_def set_failed_def insert_entry_def next_access_case)

lemma ready_lookup_set_building [cache_simps]:
  "ready_lookup j (set_building now k s) = (if j = k then None else ready_lookup j s)"
  by (simp add: set_building_def cache_simps)

lemma ready_lookup_set_failed [cache_simps]:
  "ready_lookup j (set_failed now k msg s) = (if j = k then None else ready_lookup j s)"
  by (simp add: set_failed_def cache_simps)

lemma ready_lookup_stale_step [cache_simps]:
  "ready_lookup j (stale_step now s k) = (if j = k then None else ready_lookup j s)"
  by (simp add: stale_step_def cache_simps)

lemma ready_lookup_foldl_stale:
  "ready_lookup j (foldl (stale_step now) s ks) = (if j \<in> set ks then None else ready_lookup j s)"
  by (induction ks arbitrary: s) (auto simp: cache_simps)

lemma ready_lookup_present: "ready_lookup j s = Some m \<Longrightarrow> j \<in> fst ` set (entries s)"
  by (auto simp: ready_lookup_def split: option.splits dest: map_of_SomeD)
    (metis domI dom_map_of_conv_image_fst)

lemma ready_lookup_invalidate [cache_simps]:
  "ready_lookup j (snd (invalidate_model now mv s)) =
     (if fk_model_version j = mv then None else ready_lookup j s)"
proof -
  have "ready_lookup j s = None" if "j \<notin> fst ` set (entries s)"
    using that ready_lookup_present by (metis option.exhaust)
  then show ?thesis
    by (auto simp: invalidate_model_def Let_def ready_lookup_foldl_stale)
qed

lemma map_of_touch:
  "map_of (touch_entry now t k es) j =
     (if j = k then map_option (\<lambda>e. e\<lparr>last_access := t, updated_at := now\<rparr>) (map_of es k)
      else map_of es j)"
  by (induction es) (auto simp: touch_entry_def)

lemma get_ready_result [cache_simps]:
  "fst (get_ready now k s) = ready_lookup k s"
  "ready_lookup j (snd (get_ready now k s)) = ready_lookup j s"
  by (auto simp: get_ready_def next_access_case map_of_touch split: option.split)
    (auto simp: ready_lookup_def map_of_touch split: option.splits)

lemma ready_lookup_set_ready:
  assumes "cache_inv cap s" and "set_ready show_uuid cap now k p s = (r, s')"
  shows "ready_lookup k s' = (if r = Ok (prepared_owned_bytes cap p) then Some p else None)"
    and "j \<noteq> k \<Longrightarrow> ready_lookup j s' = ready_lookup j s \<or> ready_lookup j s' = None"
    and "r = (if prepared_owned_bytes cap p \<le> capacity_bytes s then Ok (prepared_owned_bytes cap p)
              else Err \<lparr>ae_estimated_bytes = prepared_owned_bytes cap p,
                        ae_capacity_bytes = capacity_bytes s\<rparr>)"
proof -
  have "ready_lookup k s' = (if r = Ok (prepared_owned_bytes cap p) then Some p else None) \<and>
     (j \<noteq> k \<longrightarrow> ready_lookup j s' = ready_lookup j s \<or> ready_lookup j s' = None) \<and>
     r = (if prepared_owned_bytes cap p \<le> capacity_bytes s then Ok (prepared_owned_bytes cap p)
              else Err \<lparr>ae_estimated_bytes = prepared_owned_bytes cap p,
                        ae_capacity_bytes = capacity_bytes s\<rparr>)"
  proof (cases "prepared_owned_bytes cap p \<le> capacity_bytes s")
    case False
    then have "capacity_bytes s < prepared_owned_bytes cap p" by simp
    from set_ready_rejected [OF this, of show_uuid now k] assms(2) False show ?thesis
      by (auto simp: cache_simps)
  next
    case True
    let ?s1 = "evict_until show_uuid (prepared_owned_bytes cap p) (remove_entry k s)"
    from evict_until_spec [OF inv_remove [OF assms(1)], of "prepared_owned_bytes cap p" k show_uuid] True
    obtain V where "evicted show_uuid (prepared_owned_bytes cap p) (remove_entry k s) ?s1 V" by auto
    then have ent: "entries ?s1 = filter (\<lambda>q. fst q \<notin> V) (entries (remove_entry k s))"
      by (simp add: evicted_def)
    have "map_of (filter (\<lambda>q. fst q \<notin> V) es) j = (if j \<in> V then None else map_of es j)"
      for es :: cache_map by (induction es) auto
    then have "ready_lookup j ?s1 = ready_lookup j (remove_entry k s) \<or> ready_lookup j ?s1 = None"
      unfolding ready_lookup_def ent by (simp del: remove_entry_fields filter_filter)
    with True assms(2) show ?thesis
      by (auto simp: set_ready_admitted Let_def cache_simps)
  qed
  then show "ready_lookup k s' = (if r = Ok (prepared_owned_bytes cap p) then Some p else None)"
    and "j \<noteq> k \<Longrightarrow> ready_lookup j s' = ready_lookup j s \<or> ready_lookup j s' = None"
    and "r = (if prepared_owned_bytes cap p \<le> capacity_bytes s then Ok (prepared_owned_bytes cap p)
              else Err \<lparr>ae_estimated_bytes = prepared_owned_bytes cap p,
                        ae_capacity_bytes = capacity_bytes s\<rparr>)" by auto
qed

subsection \<open>The cache as its client sees it\<close>

text \<open>
  The contract the solver service relies on: what a lookup returns after each operation, and
  that every operation keeps the invariant. Admitting a model may drop other models, never
  change them.
\<close>

locale model_cache =
  fixes inv :: "'s \<Rightarrow> bool"
    and lookup :: "'k \<Rightarrow> 's \<Rightarrow> 'm option"
    and building :: "nat \<Rightarrow> 'k \<Rightarrow> 's \<Rightarrow> 's"
    and ready :: "nat \<Rightarrow> 'k \<Rightarrow> 'm \<Rightarrow> 's \<Rightarrow> ('e, usize) result \<times> 's"
    and failed :: "nat \<Rightarrow> 'k \<Rightarrow> string \<Rightarrow> 's \<Rightarrow> 's"
    and drop_keys :: "nat \<Rightarrow> 'v \<Rightarrow> 's \<Rightarrow> usize \<times> 's"
    and version :: "'k \<Rightarrow> 'v"
    and get :: "nat \<Rightarrow> 'k \<Rightarrow> 's \<Rightarrow> 'm option \<times> 's"
  assumes inv_building: "inv s \<Longrightarrow> inv (building now k s)"
    and inv_ready: "inv s \<Longrightarrow> inv (snd (ready now k m s))"
    and inv_failed: "inv s \<Longrightarrow> inv (failed now k msg s)"
    and inv_drop: "inv s \<Longrightarrow> inv (snd (drop_keys now v s))"
    and inv_get: "inv s \<Longrightarrow> inv (snd (get now k s))"
    and lookup_building: "lookup j (building now k s) = (if j = k then None else lookup j s)"
    and lookup_failed: "lookup j (failed now k msg s) = (if j = k then None else lookup j s)"
    and lookup_drop: "lookup j (snd (drop_keys now v s)) = (if version j = v then None else lookup j s)"
    and lookup_ready_ok: "inv s \<Longrightarrow> ready now k m s = (Ok n, s') \<Longrightarrow> lookup k s' = Some m"
    and lookup_ready_err: "inv s \<Longrightarrow> ready now k m s = (Err e, s') \<Longrightarrow> lookup k s' = None"
    and lookup_ready_other: "inv s \<Longrightarrow> ready now k m s = (r, s') \<Longrightarrow> j \<noteq> k \<Longrightarrow>
           lookup j s' = lookup j s \<or> lookup j s' = None"
    and get_result: "fst (get now k s) = lookup k s"
    and get_lookup: "lookup j (snd (get now k s)) = lookup j s"

datatype ('k, 'm, 'v) cache_op =
    OpSetBuilding 'k
  | OpSetReady 'k 'm
  | OpSetFailed 'k string
  | OpInvalidate 'v
  | OpGetReady 'k

text \<open>
  The abstract cache: an unbounded map. A bounded cache refines it when what it returns is
  always what the map holds, though it may have dropped the entry.
\<close>

fun spec_op :: "('k \<Rightarrow> 'v) \<Rightarrow> ('k, 'm, 'v) cache_op \<Rightarrow> ('k \<rightharpoonup> 'm) \<Rightarrow> ('k \<rightharpoonup> 'm)" where
  "spec_op version (OpSetBuilding k) a = a(k := None)"
| "spec_op version (OpSetReady k m) a = a(k \<mapsto> m)"
| "spec_op version (OpSetFailed k msg) a = a(k := None)"
| "spec_op version (OpInvalidate v) a = (\<lambda>k. if version k = v then None else a k)"
| "spec_op version (OpGetReady k) a = a"

context model_cache
begin

fun exec_op :: "nat \<times> ('k, 'm, 'v) cache_op \<Rightarrow> 's \<Rightarrow> 's" where
  "exec_op (now, OpSetBuilding k) s = building now k s"
| "exec_op (now, OpSetReady k m) s = snd (ready now k m s)"
| "exec_op (now, OpSetFailed k msg) s = failed now k msg s"
| "exec_op (now, OpInvalidate v) s = snd (drop_keys now v s)"
| "exec_op (now, OpGetReady k) s = snd (get now k s)"

lemma exec_op_inv: "inv s \<Longrightarrow> inv (exec_op op s)"
  by (cases "(op, s)" rule: exec_op.cases)
    (auto intro: inv_building inv_ready inv_failed inv_drop inv_get)

lemma exec_op_refines:
  assumes "inv s" and "\<forall>k m. lookup k s = Some m \<longrightarrow> a k = Some m"
    and "lookup k (exec_op op s) = Some m"
  shows "spec_op version (snd op) a k = Some m"
proof (cases "(op, s)" rule: exec_op.cases)
  case (2 now j n s)
  obtain r s' where r: "ready now j n s = (r, s')" by fastforce
  show ?thesis
  proof (cases "k = j")
    case True
    with 2 r assms lookup_ready_ok [of s now j n] lookup_ready_err [of s now j n] show ?thesis
      by (cases r) fastforce+
  next
    case False
    have "lookup k s' = Some m" using 2 r assms(3) by simp
    with 2 r assms(1) lookup_ready_other [of s now j n r s' k] False have "lookup k s = Some m" by auto
    with 2 False assms(2) show ?thesis by simp
  qed
qed (use assms in \<open>auto simp: lookup_building lookup_failed lookup_drop get_lookup split: if_splits\<close>)

lemma exec_refines:
  assumes "inv s" and "\<forall>k m. lookup k s = Some m \<longrightarrow> a k = Some m"
  shows "inv (fold exec_op ops s) \<and>
    (\<forall>k m. lookup k (fold exec_op ops s) = Some m \<longrightarrow> fold (spec_op version \<circ> snd) ops a k = Some m)"
  using assms
proof (induction ops arbitrary: s a)
  case Nil
  then show ?case by simp
next
  case (Cons op ops)
  have "\<forall>k m. lookup k (exec_op op s) = Some m \<longrightarrow> spec_op version (snd op) a k = Some m"
    using exec_op_refines [OF Cons.prems] by blast
  from Cons.IH [OF exec_op_inv [OF Cons.prems(1)] this] show ?case by simp
qed

lemma serve_after_ready:
  assumes "inv s" and "ready now k m s = (Ok n, s1)"
  shows "fst (get now' k s1) = Some m"
  using assms by (simp add: get_result lookup_ready_ok)

end

interpretation fcache: model_cache "cache_inv cap" ready_lookup set_building "set_ready show_uuid cap"
    set_failed invalidate_model fk_model_version get_ready for show_uuid cap
proof unfold_locales
  show "ready_lookup k s' = Some m" if "cache_inv cap s" "set_ready show_uuid cap now k m s = (Ok n, s')"
    for s now k m n s'
    using ready_lookup_set_ready(1,3) [OF that] by (auto split: if_splits)
  show "ready_lookup k s' = None" if "cache_inv cap s" "set_ready show_uuid cap now k m s = (Err e, s')"
    for s now k m e s'
    using ready_lookup_set_ready(1) [OF that] by simp
  show "ready_lookup j s' = ready_lookup j s \<or> ready_lookup j s' = None"
    if "cache_inv cap s" "set_ready show_uuid cap now k m s = (r, s')" "j \<noteq> k" for s now k m r s' j
    by (rule ready_lookup_set_ready(2) [OF that])
qed (simp_all add: inv_set_building inv_set_ready inv_set_failed inv_invalidate_model inv_get_ready
    cache_simps)

subsection \<open>Executions\<close>

type_synonym fcache_op = "(factorization_key, prepared_model, uuid) cache_op"

fun run_op :: "(uuid \<Rightarrow> string) \<Rightarrow> (usize \<Rightarrow> usize) \<Rightarrow> nat \<times> fcache_op \<Rightarrow> cache_inner \<Rightarrow> cache_inner" where
  "run_op show_uuid cap (now, OpSetBuilding k) s = set_building now k s"
| "run_op show_uuid cap (now, OpSetReady k m) s = snd (set_ready show_uuid cap now k m s)"
| "run_op show_uuid cap (now, OpSetFailed k msg) s = set_failed now k msg s"
| "run_op show_uuid cap (now, OpInvalidate v) s = snd (invalidate_model now v s)"
| "run_op show_uuid cap (now, OpGetReady k) s = snd (get_ready now k s)"

lemma run_op_exec: "run_op show_uuid cap = fcache.exec_op show_uuid cap"
proof (intro ext)
  fix op s show "run_op show_uuid cap op s = fcache.exec_op show_uuid cap op s"
    by (cases "(show_uuid, cap, op, s)" rule: run_op.cases) auto
qed

text \<open>States reachable from an empty cache of a given capacity, by operations in any order.\<close>

inductive cache_reachable :: "(uuid \<Rightarrow> string) \<Rightarrow> (usize \<Rightarrow> usize) \<Rightarrow> usize \<Rightarrow> cache_inner \<Rightarrow> bool"
  for show_uuid cap n where
  cache_init: "cache_reachable show_uuid cap n (with_capacity n)"
| cache_step: "cache_reachable show_uuid cap n s \<Longrightarrow>
    cache_reachable show_uuid cap n (run_op show_uuid cap op s)"

lemma capacity_kept [simp]:
  "capacity_bytes (insert_entry k e s) = capacity_bytes s"
  "capacity_bytes (set_building now k s) = capacity_bytes s"
  "capacity_bytes (set_failed now k msg s) = capacity_bytes s"
  "capacity_bytes (stale_step now s k) = capacity_bytes s"
  by (simp_all add: insert_entry_def set_building_def set_failed_def stale_step_def cache_simps)

lemma capacity_foldl_stale [simp]: "capacity_bytes (foldl (stale_step now) s ks) = capacity_bytes s"
  by (induction ks arbitrary: s) simp_all

lemma capacity_set_ready:
  assumes "cache_inv cap s"
  shows "capacity_bytes (snd (set_ready show_uuid cap now k p s)) = capacity_bytes s"
proof (cases "prepared_owned_bytes cap p \<le> capacity_bytes s")
  case True
  with evict_until_spec [OF inv_remove [OF assms], of "prepared_owned_bytes cap p" k show_uuid]
  show ?thesis by (simp add: set_ready_admitted Let_def)
qed (simp add: set_ready_rejected)

lemma run_op_inv:
  assumes "cache_inv cap s"
  shows "cache_inv cap (run_op show_uuid cap op s)"
    and "capacity_bytes (run_op show_uuid cap op s) = capacity_bytes s"
proof -
  show "cache_inv cap (run_op show_uuid cap op s)"
    unfolding run_op_exec by (rule fcache.exec_op_inv [OF assms])
  show "capacity_bytes (run_op show_uuid cap op s) = capacity_bytes s"
    using assms by (cases "(show_uuid, cap, op, s)" rule: run_op.cases)
      (auto simp: capacity_set_ready invalidate_model_def get_ready_def Let_def next_access_case
        split: option.split)
qed

lemma reachable_inv:
  "cache_reachable show_uuid cap n s \<Longrightarrow> n < u64_max \<Longrightarrow> cache_inv cap s \<and> capacity_bytes s = n"
  by (induction rule: cache_reachable.induct)
    (auto simp: inv_with_capacity run_op_inv, simp add: with_capacity_def)

lemma map_of_stale_step:
  "map_of (entries (stale_step now s k)) j =
     (if j = k then Some \<lparr>prepared = None, entry_state = Stale, updated_at = now, error_message = None,
        estimated_bytes = 0, last_access = saturating_add (access_clock s) 1\<rparr>
      else map_of (entries s) j)"
  by (simp add: stale_step_def next_access_case insert_entry_def map_of_filter_key)

lemma map_of_foldl_stale:
  "(j \<notin> set ks \<longrightarrow> map_of (entries (foldl (stale_step now) s ks)) j = map_of (entries s) j) \<and>
   (j \<in> set ks \<longrightarrow> (\<exists>e. map_of (entries (foldl (stale_step now) s ks)) j = Some e \<and>
      entry_state e = Stale \<and> prepared e = None \<and> estimated_bytes e = 0))"
proof (induction ks arbitrary: s)
  case Nil
  then show ?case by simp
next
  case (Cons k ks)
  show ?case
    using Cons.IH [of "stale_step now s k"] by (cases "j \<in> set ks"; cases "j = k") (auto simp: map_of_stale_step)
qed

subsection \<open>Example data\<close>

definition example_report :: validation_report where
  "example_report = \<lparr>status = StatusOk,
     stats = \<lparr>ms_nrows = 1, ms_ncols = 1, ms_nnz = 1, sparsity = Fin 0, empty_columns = 0,
              empty_rows = 0, near_zero_diagonal = 0\<rparr>, messages = []\<rparr>"

definition example_matrix :: csc_matrix where
  "example_matrix = \<lparr>nrows = 1, ncols = 1, col_ptr = [0, 1], row_idx = [0], vals = [Fin 1]\<rparr>"

definition example_model :: prepared_model where
  "example_model =
     \<lparr>pm_factorization =
        \<lparr>uf_matrix = example_matrix, uf_symbolic = 7, uf_numeric = 9, uf_control = (\<lambda>_. Fin 0),
         uf_stats = \<lparr>symbolic_status = 0, numeric_status = 0, symbolic_info = (\<lambda>_. Fin (- 1)),
                     numeric_info = (\<lambda>_. Fin (- 1))\<rparr>\<rparr>,
      pm_b = example_matrix, pm_c = example_matrix, pm_validation = example_report\<rparr>"

definition example_key :: "nat \<Rightarrow> factorization_key" where
  "example_key i = \<lparr>fk_model_version = of_nat i, fk_backend = BackendUmfpack, options_hash = ''h''\<rparr>"

lemma example_model_bytes: "prepared_owned_bytes id example_model = 60"
  by (simp add: prepared_owned_bytes_def example_model_def example_matrix_def
      factorization_owned_bytes_def estimated_owned_bytes_def info_units_to_bytes_def
      saturating_add_def saturating_mul_def u64_max_def f_lt_def f_le_def Let_def)

lemma example_key_eq [simp]: "example_key 1 = example_key 2 \<longleftrightarrow> False"
  by (simp add: example_key_def)

subsection \<open>Properties\<close>

text \<open>
  C2. In every state reachable by any sequence of cache operations, the charged bytes are the sum
  over the entries and never exceed the capacity, every key occurs once, an entry owns a
  prepared model exactly when it is ready and is then charged what the model retains, only
  failed entries carry a message, and no entry is newer than the access clock.
\<close>

theorem cache_reachable_invariant:
  assumes "cache_reachable show_uuid cap n s" and "n < u64_max"
  shows "resident_bytes s = (\<Sum>p\<leftarrow>entries s. estimated_bytes (snd p)) \<and>
         resident_bytes s \<le> n \<and> capacity_bytes s = n \<and> distinct (map fst (entries s)) \<and>
         (\<forall>p \<in> set (entries s).
            (entry_state (snd p) = Ready \<longleftrightarrow> prepared (snd p) \<noteq> None) \<and>
            estimated_bytes (snd p) =
              (case prepared (snd p) of None \<Rightarrow> 0 | Some m \<Rightarrow> prepared_owned_bytes cap m) \<and>
            (entry_state (snd p) = Failed \<longleftrightarrow> error_message (snd p) \<noteq> None) \<and>
            last_access (snd p) \<le> access_clock s)"
  using reachable_inv [OF assms] by (auto simp: cache_inv_def entry_ok_def bytes_of_def)

theorem cache_reachable_invariant_witness:
  "let s = run_op (\<lambda>_. []) id (5, OpSetReady (example_key 1) example_model) (with_capacity 100)
   in cache_reachable (\<lambda>_. []) id 100 s \<and> resident_bytes s = 60 \<and> resident_bytes s \<le> 100"
proof -
  let ?s = "run_op (\<lambda>_. []) id (5, OpSetReady (example_key 1) example_model) (with_capacity 100)"
  have r: "cache_reachable (\<lambda>_. []) id 100 ?s"
    by (rule cache_step [OF cache_init])
  have c: "prepared_owned_bytes id example_model \<le> capacity_bytes (with_capacity 100)"
    by (simp add: example_model_bytes with_capacity_def)
  have "resident_bytes ?s = 60"
    unfolding run_op.simps set_ready_admitted [OF c] Let_def snd_conv example_model_bytes
    by (simp add: with_capacity_def remove_entry_def evict_until.simps saturating_add_def u64_max_def
        insert_entry_def)
  with cache_reachable_invariant [OF r] r show ?thesis by (simp add: Let_def u64_max_def)
qed

text \<open>
  C11. Admission: a model larger than the whole capacity is rejected, its key is left failed and
  no other entry changes. Otherwise the model is admitted under its key, and the entries that
  disappear are exactly a set of byte-holding ones such that no surviving byte-holding entry
  is older (by last access, ties by the stable id), and evicting one entry less would not have
  made room.
\<close>

theorem set_ready_evicts_least_recently_used:
  assumes "cache_inv cap s" and "set_ready show_uuid cap now k m s = (r, s')"
  shows "if capacity_bytes s < prepared_owned_bytes cap m
         then r = Err \<lparr>ae_estimated_bytes = prepared_owned_bytes cap m, ae_capacity_bytes = capacity_bytes s\<rparr> \<and>
              cache_state k s' = Some Failed \<and> ready_lookup k s' = None \<and>
              (\<forall>j. j \<noteq> k \<longrightarrow> map_of (entries s') j = map_of (entries s) j)
         else r = Ok (prepared_owned_bytes cap m) \<and> ready_lookup k s' = Some m \<and>
              (\<exists>V. k \<notin> V \<and>
                (\<forall>j. j \<noteq> k \<longrightarrow> map_of (entries s') j = (if j \<in> V then None else map_of (entries s) j)) \<and>
                (\<forall>p \<in> set (entries s). fst p \<in> V \<longrightarrow> 0 < estimated_bytes (snd p)) \<and>
                (\<forall>p \<in> set (entries s). \<forall>q \<in> set (entries s'). fst p \<in> V \<longrightarrow> fst q \<noteq> k \<longrightarrow>
                   0 < estimated_bytes (snd q) \<longrightarrow> lru_le show_uuid p q) \<and>
                (V \<noteq> {} \<longrightarrow> (\<exists>p \<in> set (entries s). fst p \<in> V \<and>
                   capacity_bytes s < resident_bytes s' + estimated_bytes (snd p))))"
proof (cases "prepared_owned_bytes cap m \<le> capacity_bytes s")
  case False
  then have "capacity_bytes s < prepared_owned_bytes cap m" by simp
  with set_ready_rejected [OF this, of show_uuid now k] assms(2) show ?thesis
    by (auto simp: cache_state_def insert_entry_def map_of_filter_key ready_lookup_def)
next
  case True
  let ?n = "prepared_owned_bytes cap m" and ?s0 = "remove_entry k s"
  let ?s1 = "evict_until show_uuid ?n ?s0"
  from evict_until_spec [OF inv_remove [OF assms(1)], of ?n k show_uuid] True obtain V where
    V: "evicted show_uuid ?n ?s0 ?s1 V" and inv1: "cache_inv cap ?s1"
    and cap1: "capacity_bytes ?s1 = capacity_bytes s" by auto
  have s': "r = Ok ?n" "entries s' = (k, \<lparr>prepared = Some m, entry_state = Ready, updated_at = now,
      error_message = None, estimated_bytes = ?n, last_access = saturating_add (access_clock ?s1) 1\<rparr>)
      # filter (\<lambda>p. fst p \<noteq> k) (entries ?s1)"
    and res: "resident_bytes s' = saturating_add (resident_bytes ?s1) ?n"
    using assms(2) set_ready_admitted [OF True, of show_uuid now k]
    by (auto simp: Let_def insert_entry_def)
  have ent: "entries ?s1 = filter (\<lambda>p. fst p \<notin> V) (filter (\<lambda>p. fst p \<noteq> k) (entries s))"
    and kV: "k \<notin> V" using V by (auto simp: evicted_def)
  have res': "resident_bytes s' = resident_bytes ?s1 + ?n"
    unfolding res using V inv1 by (auto simp: evicted_def cache_inv_def saturating_add_def)
  have m: "map_of (filter (\<lambda>q. fst q \<notin> V) es) j = (if j \<in> V then None else map_of es j)"
    for es :: cache_map and j by (induction es) auto
  have "\<forall>j. j \<noteq> k \<longrightarrow> map_of (entries s') j = (if j \<in> V then None else map_of (entries s) j)"
    unfolding s' ent map_of.simps by (simp add: map_of_filter_key m del: filter_filter)
  moreover have "\<forall>p \<in> set (entries s). fst p \<in> V \<longrightarrow> 0 < estimated_bytes (snd p)"
  proof (intro ballI impI)
    fix p assume p: "p \<in> set (entries s)" "fst p \<in> V"
    then obtain q where q: "q \<in> set (entries s)" "fst q = fst p" "0 < estimated_bytes (snd q)"
      using V by (auto simp: evicted_def)
    have "distinct (map fst (entries s))" using assms(1) by (simp add: cache_inv_def)
    with p q have "p = q" by (metis eq_key_imp_eq_value prod.collapse)
    with q show "0 < estimated_bytes (snd p)" by simp
  qed
  moreover have "\<forall>p \<in> set (entries s). \<forall>q \<in> set (entries s'). fst p \<in> V \<longrightarrow> fst q \<noteq> k \<longrightarrow>
      0 < estimated_bytes (snd q) \<longrightarrow> lru_le show_uuid p q"
    using V kV by (auto simp: evicted_def s')
  moreover have "V \<noteq> {} \<longrightarrow> (\<exists>p \<in> set (entries s). fst p \<in> V \<and>
      capacity_bytes s < resident_bytes s' + estimated_bytes (snd p))"
  proof
    assume "V \<noteq> {}"
    then obtain p where "p \<in> set (entries ?s0)" "fst p \<in> V"
      "capacity_bytes ?s0 < resident_bytes ?s1 + estimated_bytes (snd p) + ?n"
      using V unfolding evicted_def by blast
    then show "\<exists>p \<in> set (entries s). fst p \<in> V \<and>
        capacity_bytes s < resident_bytes s' + estimated_bytes (snd p)"
      unfolding res' by (intro bexI [of _ p]) auto
  qed
  moreover have "ready_lookup k s' = Some m" by (simp add: ready_lookup_def s')
  ultimately show ?thesis using True s'(1) kV by auto
qed

theorem set_ready_evicts_least_recently_used_witness:
  "let s = run_op (\<lambda>_. []) id (5, OpSetReady (example_key 1) example_model) (with_capacity 100)
   in cache_inv id s \<and>
      ready_lookup (example_key 2) (snd (set_ready (\<lambda>_. []) id 6 (example_key 2) example_model s)) = Some example_model"
proof -
  let ?s = "run_op (\<lambda>_. []) id (5, OpSetReady (example_key 1) example_model) (with_capacity 100)"
  have "cache_reachable (\<lambda>_. []) id 100 ?s" by (rule cache_step [OF cache_init])
  then have i: "cache_inv id ?s" "capacity_bytes ?s = 100"
    using reachable_inv by (auto simp: u64_max_def)
  obtain r s' where r: "set_ready (\<lambda>_. []) id 6 (example_key 2) example_model ?s = (r, s')" by fastforce
  from set_ready_evicts_least_recently_used [OF i(1) r] i r show ?thesis
    unfolding Let_def i(2) example_model_bytes by simp
qed

text \<open>
  C14. The cache refines an unbounded map: after any sequence of operations on an empty cache, a
  lookup that answers returns exactly the model last admitted under that key, with no later
  rebuild, failure or invalidation of it. The cache may forget; it never serves stale state.
\<close>

theorem cache_refines_map:
  assumes "n < u64_max"
    and "ready_lookup k (fold (run_op show_uuid cap) ops (with_capacity n)) = Some m"
  shows "fold (spec_op fk_model_version \<circ> snd) ops Map.empty k = Some m"
proof -
  have "cache_inv cap (with_capacity n)" by (rule inv_with_capacity [OF assms(1)])
  moreover have "ready_lookup j (with_capacity n) = None" for j
    by (simp add: ready_lookup_def with_capacity_def)
  ultimately show ?thesis
    using fcache.exec_refines [of cap "with_capacity n" Map.empty show_uuid ops] assms(2)
    unfolding run_op_exec by simp
qed

theorem cache_refines_map_witness:
  "ready_lookup (example_key 1) (fold (run_op (\<lambda>_. []) id)
     [(1, OpSetBuilding (example_key 1)), (2, OpSetReady (example_key 1) example_model)]
     (with_capacity 100)) = Some example_model \<and>
   fold (spec_op fk_model_version \<circ> snd)
     [(1 :: nat, OpSetBuilding (example_key 1)), (2, OpSetReady (example_key 1) example_model)]
     Map.empty (example_key 1) = Some example_model"
proof -
  let ?ops = "[(1, OpSetBuilding (example_key 1)), (2, OpSetReady (example_key 1) example_model)]"
  let ?s1 = "set_building 1 (example_key 1) (with_capacity 100)"
  have i: "cache_inv id ?s1"
    by (rule inv_set_building [OF inv_with_capacity]) (simp add: u64_max_def)
  have c: "prepared_owned_bytes id example_model \<le> capacity_bytes ?s1"
    by (simp add: example_model_bytes with_capacity_def)
  obtain r s' where r: "set_ready (\<lambda>_. []) id 2 (example_key 1) example_model ?s1 = (r, s')" by fastforce
  from ready_lookup_set_ready(1,3) [OF i r] c r have
    l: "ready_lookup (example_key 1) (fold (run_op (\<lambda>_. []) id) ?ops (with_capacity 100)) = Some example_model"
    by simp
  from l cache_refines_map [OF _ l] show ?thesis by (simp add: u64_max_def)
qed

text \<open>
  Invalidating a model version marks exactly the entries of that version stale, releases
  their prepared state, leaves every other entry as it was, and returns how many there were.
\<close>

theorem invalidate_model_exact:
  assumes "invalidate_model now mv s = (n, s')"
  shows "n = length (filter (\<lambda>p. fk_model_version (fst p) = mv) (entries s)) \<and>
         (\<forall>k. fk_model_version k = mv \<longrightarrow> k \<in> fst ` set (entries s) \<longrightarrow>
            (\<exists>e. map_of (entries s') k = Some e \<and> entry_state e = Stale \<and> prepared e = None \<and>
                 estimated_bytes e = 0)) \<and>
         (\<forall>k. fk_model_version k \<noteq> mv \<or> k \<notin> fst ` set (entries s) \<longrightarrow>
            map_of (entries s') k = map_of (entries s) k)"
proof -
  let ?ks = "filter (\<lambda>k. fk_model_version k = mv) (map fst (entries s))"
  have n: "n = length ?ks" and s': "entries s' = entries (foldl (stale_step now) s ?ks)"
    using assms by (auto simp: invalidate_model_def Let_def)
  have "length ?ks = length (filter (\<lambda>p. fk_model_version (fst p) = mv) (entries s))"
    by (simp add: filter_map comp_def)
  with n show ?thesis
    unfolding s' using map_of_foldl_stale [of _ ?ks now s] by auto
qed

theorem invalidate_model_exact_witness:
  "let s = set_building 1 (example_key 1) (with_capacity 100)
   in fst (invalidate_model 2 1 s) = 1 \<and>
      (\<exists>e. map_of (entries (snd (invalidate_model 2 1 s))) (example_key 1) = Some e \<and> entry_state e = Stale)"
proof -
  let ?s = "set_building 1 (example_key 1) (with_capacity 100)"
  have e: "fst ` set (entries ?s) = {example_key 1}" "fk_model_version (example_key 1) = 1"
    by (auto simp: set_building_def next_access_case insert_entry_def with_capacity_def
        remove_entry_def example_key_def)
  have "length (filter (\<lambda>p. fk_model_version (fst p) = 1) (entries ?s)) = 1"
    by (simp add: set_building_def next_access_case insert_entry_def with_capacity_def
        remove_entry_def example_key_def)
  with invalidate_model_exact [of 2 1 ?s "fst (invalidate_model 2 1 ?s)" "snd (invalidate_model 2 1 ?s)"] e
  show ?thesis unfolding Let_def by (metis insertI1 prod.collapse)
qed

end
