(* ===== verification/Solver_Service.thy ===== *)
theory Solver_Service
  imports Data_Builder Factorization_Cache
begin

text \<open>
  The prepare/solve/invalidate service (\<open>solver-core/src/service.rs\<close>). A call maps the service
  state to a result and a new state; wall-clock readings are arguments. What is not in the
  repository (the UUID printer, BLAKE3, the allocator's capacities, UMFPACK) is collected in
  \<open>solver_env\<close>. Releasing the C handles of a dropped model is reference counting and is
  treated where the handles live, in the wrapper's theory.
\<close>

subsection \<open>Data\<close>

record solver_env =
  env_show_uuid :: "uuid \<Rightarrow> string"
  env_blake3_hex :: "nat list \<Rightarrow> string"
  env_vec_cap :: "usize \<Rightarrow> usize"
  env_lib :: umfpack_lib

record numeric_options =
  no_print_level :: f64

record solve_options =
  return_x :: bool
  return_g :: bool
  return_h :: bool

record factorization_diagnostics =
  fd_validation :: validation_report
  fd_backend :: solver_backend
  fd_m_nnz :: usize
  fd_b_nnz :: usize
  fd_c_nnz :: usize
  cache_entry_estimated_bytes :: usize
  factorization_reported_peak_bytes :: "usize option"
  fd_cache :: factorization_cache_telemetry

record prepare_result =
  pr_factorization_id :: string
  pr_status :: factorization_state
  pr_diagnostics :: factorization_diagnostics

record solve_result =
  sr_x :: "f64 list option"
  sr_g :: "f64 list option"
  sr_h :: "f64 list option"
  sr_factorization_state :: factorization_state

record solve_computation_timing =
  solve_mx_sec :: f64
  bx_sec :: f64
  cg_sec :: f64
  comparable_compute_sec :: f64

record timed_solve_result =
  ts_result :: solve_result
  ts_timing :: solve_computation_timing

datatype solver_error =
    SvcDataBuilder data_builder_error
  | SvcFactorization umfpack_error
  | NotPrepared uuid
  | ValidationFailed validation_report
  | SvcRhsDimensionMismatch usize usize
  | WorkloadAdmissionRejected usize usize f64
  | CacheAdmission cache_admission_error

record solver_service =
  svc_cache :: cache_inner
  svc_builder :: data_builder
  admission_fill_in_multiplier :: f64

text \<open>Elapsed seconds of the three compute stages, as \<open>Instant\<close> measures them.\<close>

record stage_clock =
  clk_solve :: f64
  clk_bx :: f64
  clk_cg :: f64

subsection \<open>Error messages\<close>

fun show_matrix_error :: "matrix_error \<Rightarrow> string" where
  "show_matrix_error (InvalidDimensions nr nc) =
     ''invalid matrix dimensions ('' @ show_int nr @ '', '' @ show_int nc @ '')''"
| "show_matrix_error (InvalidColPtrLength got expected) =
     ''col_ptr length '' @ show_nat got @ '' does not match ncols+1 ('' @ show_nat expected @ '')''"
| "show_matrix_error InvalidColPtrStart = ''col_ptr must start at 0''"
| "show_matrix_error NonMonotonicColPtr = ''col_ptr must be non-decreasing''"
| "show_matrix_error (InvalidNnz lst n) =
     ''final col_ptr value '' @ show_int lst @ '' does not match nnz '' @ show_nat n"
| "show_matrix_error (RowOutOfRange row nr) =
     ''row index '' @ show_int row @ '' out of range [0, '' @ show_int nr @ '')''"
| "show_matrix_error (ColOutOfRange col nc) =
     ''column index '' @ show_int col @ '' out of range [0, '' @ show_int nc @ '')''"
| "show_matrix_error NonSortedOrDuplicateRows =
     ''row indices within each column must be strictly increasing''"
| "show_matrix_error IndexOverflow = ''matrix conversion overflow''"

fun show_umfpack_error :: "umfpack_error \<Rightarrow> string" where
  "show_umfpack_error (UmfMatrix e) = ''invalid matrix: '' @ show_matrix_error e"
| "show_umfpack_error (RhsDimensionMismatch rhs_len n) =
     ''RHS length '' @ show_nat rhs_len @ '' does not match matrix columns '' @ show_nat n"
| "show_umfpack_error SingularMatrix = ''matrix is singular''"
| "show_umfpack_error (SymbolicStatus st) =
     ''umfpack symbolic factorization returned status '' @ show_int st"
| "show_umfpack_error (NumericStatus st) =
     ''umfpack numeric factorization returned status '' @ show_int st"
| "show_umfpack_error (SolveStatus st) = ''umfpack solve returned status '' @ show_int st"
| "show_umfpack_error NullHandle = ''umfpack returned null pointer''"
| "show_umfpack_error UmfPanic = ''panic''"

subsection \<open>Construction\<close>

definition numeric_options_default :: numeric_options where
  "numeric_options_default = \<lparr>no_print_level = Fin 0\<rparr>"

definition solve_options_default :: solve_options where
  "solve_options_default = \<lparr>return_x = True, return_g = True, return_h = True\<rparr>"

definition service_default :: solver_service where
  "service_default = \<lparr>svc_cache = cache_new, svc_builder = data_builder_default,
                      admission_fill_in_multiplier = Fin 0\<rparr>"

definition service_new :: solver_service where
  "service_new = \<lparr>svc_cache = cache_new, svc_builder = data_builder_default,
                  admission_fill_in_multiplier = Fin 8\<rparr>"

definition with_cache_policy :: "usize \<Rightarrow> f64 \<Rightarrow> solver_service" where
  "with_cache_policy capacity multiplier =
     \<lparr>svc_cache = with_capacity capacity, svc_builder = data_builder_default,
      admission_fill_in_multiplier = f_max multiplier (Fin 1)\<rparr>"

definition with_exact_zero_policy :: "usize \<Rightarrow> f64 \<Rightarrow> solver_service" where
  "with_exact_zero_policy capacity multiplier =
     \<lparr>svc_cache = with_capacity capacity, svc_builder = data_builder_new (Fin 0),
      admission_fill_in_multiplier = f_max multiplier (Fin 1)\<rparr>"

definition factorization_key :: "solver_env \<Rightarrow> uuid \<Rightarrow> numeric_options \<Rightarrow> factorization_key" where
  "factorization_key env mv options =
     factorization_key_new (env_blake3_hex env) mv BackendUmfpack
       (f64_to_le_bytes (no_print_level options))"

subsection \<open>Prepare\<close>

definition factorize_matrix ::
    "solver_env \<Rightarrow> csc_matrix \<Rightarrow> numeric_options \<Rightarrow> (umfpack_error, umfpack_factorization) result" where
  "factorize_matrix env m options =
     fst (factorize (env_lib env) m \<lparr>print_level = no_print_level options\<rparr>
            \<lparr>live_symbolic = [], live_numeric = []\<rparr>)"

definition workload_estimate :: "solver_env \<Rightarrow> f64 \<Rightarrow> built_matrices \<Rightarrow> usize" where
  "workload_estimate env multiplier bm =
     (let owned = estimated_owned_bytes (env_vec_cap env);
          matrix_bytes = saturating_add (saturating_add (owned (bm_m bm)) (owned (bm_b bm))) (owned (bm_c bm));
          scaled = f_ceil (f_mul (f_of_int (int (owned (bm_m bm)))) multiplier);
          working = unwrap_or (parse_usize_of_fmt0 scaled) u64_max
      in saturating_add matrix_bytes working)"

text \<open>The threshold \<open>1e-12\<close> the pre-check is called with.\<close>

definition diag_epsilon :: f64 where
  "diag_epsilon = round64 (1 / 10 ^ 12)"

definition workload_message :: "usize \<Rightarrow> usize \<Rightarrow> string" where
  "workload_message est capacity =
     ''workload admission rejected: estimated_bytes='' @ show_nat est @
     '' capacity_bytes='' @ show_nat capacity"

definition prepare ::
    "solver_env \<Rightarrow> nat \<Rightarrow> nat \<Rightarrow> model_sparse_data \<Rightarrow> numeric_options \<Rightarrow> solver_service \<Rightarrow>
       (solver_error, prepare_result) result \<times> solver_service" where
  "prepare env now later data options self =
     (let key = factorization_key env (model_version data) options;
          cache1 = set_building now key (svc_cache self)
      in case build (svc_builder self) data of
           Inl e \<Rightarrow> (Err (SvcDataBuilder e), self\<lparr>svc_cache := cache1\<rparr>)
         | Inr matrices \<Rightarrow>
             let validation = validate_factorization_matrix (bm_m matrices) diag_epsilon
             in if status validation = FailedInvalidStructure
                then (Err (ValidationFailed validation),
                      self\<lparr>svc_cache :=
                        set_failed later key ''matrix structural validation failed'' cache1\<rparr>)
                else
                  let est = workload_estimate env (admission_fill_in_multiplier self) matrices;
                      capacity = t_capacity_bytes (telemetry cache1)
                  in if capacity < est
                     then (Err (WorkloadAdmissionRejected est capacity (admission_fill_in_multiplier self)),
                           self\<lparr>svc_cache := set_failed later key (workload_message est capacity) cache1\<rparr>)
                     else case factorize_matrix env (bm_m matrices) options of
                            Inl e \<Rightarrow>
                              (Err (SvcFactorization e),
                               self\<lparr>svc_cache :=
                                 set_failed later key (''factorization failed: '' @ show_umfpack_error e) cache1\<rparr>)
                          | Inr f \<Rightarrow>
                              (case set_ready (env_show_uuid env) (env_vec_cap env) later key
                                      \<lparr>pm_factorization = f, pm_b = bm_b matrices, pm_c = bm_c matrices,
                                       pm_validation = validation\<rparr> cache1 of
                                 (Inl e, cache2) \<Rightarrow> (Err (CacheAdmission e), self\<lparr>svc_cache := cache2\<rparr>)
                               | (Inr bytes, cache2) \<Rightarrow>
                                   (Ok \<lparr>pr_factorization_id = factorization_id (env_show_uuid env) key,
                                        pr_status = Ready,
                                        pr_diagnostics =
                                          \<lparr>fd_validation = validation, fd_backend = BackendUmfpack,
                                           fd_m_nnz = m_nnz matrices, fd_b_nnz = b_nnz matrices,
                                           fd_c_nnz = c_nnz matrices,
                                           cache_entry_estimated_bytes = bytes,
                                           factorization_reported_peak_bytes = reported_peak_bytes f,
                                           fd_cache = telemetry cache2\<rparr>\<rparr>,
                                    self\<lparr>svc_cache := cache2\<rparr>)))"

definition factorization_status ::
    "solver_env \<Rightarrow> uuid \<Rightarrow> numeric_options \<Rightarrow> solver_service \<Rightarrow> factorization_state option" where
  "factorization_status env mv options self =
     cache_state (factorization_key env mv options) (svc_cache self)"

subsection \<open>Solve\<close>

text \<open>The part of a solve that follows the cache lookup.\<close>

definition solve_prepared ::
    "solver_env \<Rightarrow> stage_clock \<Rightarrow> prepared_model \<Rightarrow> f64 list \<Rightarrow> solve_options \<Rightarrow>
       (solver_error, timed_solve_result) result" where
  "solve_prepared env clk p rhs so =
     (let n = unwrap_or (usize_try_from (ncols (matrix_of (pm_factorization p)))) 0
      in and_then (ensure (length rhs = n) (SvcRhsDimensionMismatch (length rhs) n)) (\<lambda>_.
         and_then (map_err SvcFactorization (solve (env_lib env) (pm_factorization p) rhs)) (\<lambda>x.
         let needs_g = (return_g so \<or> return_h so);
             g = (if needs_g then Some (mul_vector (pm_b p) x) else None);
             bx = (if needs_g then clk_bx clk else Fin 0);
             h = (if return_h so then map_option (mul_vector (pm_c p)) g else None);
             cg = (if return_h so then clk_cg clk else Fin 0)
         in Ok \<lparr>ts_result =
                  \<lparr>sr_x = (if return_x so then Some x else None),
                   sr_g = (if return_g so then g else None),
                   sr_h = h, sr_factorization_state = Ready\<rparr>,
                ts_timing =
                  \<lparr>solve_mx_sec = clk_solve clk, bx_sec = bx, cg_sec = cg,
                   comparable_compute_sec = f_add (f_add (clk_solve clk) bx) cg\<rparr>\<rparr>)))"

definition solve_one_timed ::
    "solver_env \<Rightarrow> nat \<Rightarrow> stage_clock \<Rightarrow> uuid \<Rightarrow> numeric_options \<Rightarrow> f64 list \<Rightarrow> solve_options \<Rightarrow> solver_service \<Rightarrow>
       (solver_error, timed_solve_result) result \<times> solver_service" where
  "solve_one_timed env now clk mv options rhs so self =
     (case get_ready now (factorization_key env mv options) (svc_cache self) of (found, cache1) \<Rightarrow>
        (and_then (ok_or found (NotPrepared mv)) (\<lambda>p. solve_prepared env clk p rhs so),
         self\<lparr>svc_cache := cache1\<rparr>))"

definition solve_one ::
    "solver_env \<Rightarrow> nat \<Rightarrow> stage_clock \<Rightarrow> uuid \<Rightarrow> numeric_options \<Rightarrow> f64 list \<Rightarrow> solve_options \<Rightarrow> solver_service \<Rightarrow>
       (solver_error, solve_result) result \<times> solver_service" where
  "solve_one env now clk mv options rhs so self =
     (case solve_one_timed env now clk mv options rhs so self of (r, self1) \<Rightarrow>
        (and_then r (\<lambda>t. Ok (ts_result t)), self1))"

text \<open>Each right-hand side comes with the clock readings of its own call.\<close>

fun solve_batch ::
    "solver_env \<Rightarrow> uuid \<Rightarrow> numeric_options \<Rightarrow> (nat \<times> stage_clock \<times> f64 list) list \<Rightarrow> solve_options \<Rightarrow>
       solver_service \<Rightarrow> (solver_error, solve_result list) result \<times> solver_service" where
  "solve_batch env mv options [] so self = (Ok [], self)"
| "solve_batch env mv options ((now, clk, rhs) # rest) so self =
     (case solve_one env now clk mv options rhs so self of
        (Inl e, self1) \<Rightarrow> (Err e, self1)
      | (Inr item, self1) \<Rightarrow>
          (case solve_batch env mv options rest so self1 of (r, self2) \<Rightarrow>
             (and_then r (\<lambda>items. Ok (item # items)), self2)))"

definition invalidate :: "nat \<Rightarrow> uuid \<Rightarrow> solver_service \<Rightarrow> usize \<times> solver_service" where
  "invalidate now mv self =
     (case invalidate_model now mv (svc_cache self) of (n, cache1) \<Rightarrow> (n, self\<lparr>svc_cache := cache1\<rparr>))"

subsection \<open>The service over its cache\<close>

definition service_inv :: "solver_env \<Rightarrow> solver_service \<Rightarrow> bool" where
  "service_inv env self \<longleftrightarrow> cache_inv (env_vec_cap env) (svc_cache self)"

text \<open>The ways a prepare can end, with the cache each leaves behind.\<close>

definition prepare_key :: "solver_env \<Rightarrow> model_sparse_data \<Rightarrow> numeric_options \<Rightarrow> factorization_key" where
  "prepare_key env data options = factorization_key env (model_version data) options"

lemma prepare_build_error:
  assumes "build (svc_builder self) data = Err e"
  shows "prepare env now later data options self =
     (Err (SvcDataBuilder e),
      self\<lparr>svc_cache := set_building now (prepare_key env data options) (svc_cache self)\<rparr>)"
  using assms by (simp add: prepare_def prepare_key_def Let_def)

lemma prepare_set_failed:
  assumes "build (svc_builder self) data = Ok bm"
    and "status (validate_factorization_matrix (bm_m bm) diag_epsilon) = FailedInvalidStructure \<or>
         capacity_bytes (svc_cache self) < workload_estimate env (admission_fill_in_multiplier self) bm \<or>
         factorize_matrix env (bm_m bm) options = Err e"
  shows "\<exists>err msg. prepare env now later data options self =
     (Err err, self\<lparr>svc_cache := set_failed later (prepare_key env data options) msg
        (set_building now (prepare_key env data options) (svc_cache self))\<rparr>)"
  using assms by (auto simp: prepare_def prepare_key_def Let_def telemetry_def)

lemma prepare_set_ready:
  fixes env data options bm f now self
  defines "k \<equiv> prepare_key env data options"
    and "val \<equiv> validate_factorization_matrix (bm_m bm) diag_epsilon"
  defines "p \<equiv> \<lparr>pm_factorization = f, pm_b = bm_b bm, pm_c = bm_c bm, pm_validation = val\<rparr>"
    and "c \<equiv> set_building now k (svc_cache self)"
  assumes "build (svc_builder self) data = Ok bm" and "status val \<noteq> FailedInvalidStructure"
    and "\<not> capacity_bytes (svc_cache self) < workload_estimate env (admission_fill_in_multiplier self) bm"
    and "factorize_matrix env (bm_m bm) options = Ok f"
    and "set_ready (env_show_uuid env) (env_vec_cap env) later k p c = (r, c')"
  shows "snd (prepare env now later data options self) = self\<lparr>svc_cache := c'\<rparr>"
    and "fst (prepare env now later data options self) =
      (case r of Inl e \<Rightarrow> Err (CacheAdmission e)
       | Inr bytes \<Rightarrow>
           Ok \<lparr>pr_factorization_id = factorization_id (env_show_uuid env) k, pr_status = Ready,
               pr_diagnostics =
                 \<lparr>fd_validation = val, fd_backend = BackendUmfpack, fd_m_nnz = m_nnz bm,
                  fd_b_nnz = b_nnz bm, fd_c_nnz = c_nnz bm, cache_entry_estimated_bytes = bytes,
                  factorization_reported_peak_bytes = reported_peak_bytes f,
                  fd_cache = telemetry c'\<rparr>\<rparr>)"
  using assms(5-9) unfolding p_def c_def k_def val_def
  by (auto simp: prepare_def prepare_key_def Let_def telemetry_def split: sum.split)

lemma prepare_cases:
  obtains (build_error) e where "build (svc_builder self) data = Err e"
  | (failed) bm err msg where "build (svc_builder self) data = Ok bm"
      "prepare env now later data options self =
        (Err err, self\<lparr>svc_cache := set_failed later (prepare_key env data options) msg
        (set_building now (prepare_key env data options) (svc_cache self))\<rparr>)"
  | (stored) bm f where "build (svc_builder self) data = Ok bm"
      "status (validate_factorization_matrix (bm_m bm) diag_epsilon) \<noteq> FailedInvalidStructure"
      "\<not> capacity_bytes (svc_cache self) < workload_estimate env (admission_fill_in_multiplier self) bm"
      "factorize_matrix env (bm_m bm) options = Ok f"
proof (cases "build (svc_builder self) data")
  case (Inl e)
  then show thesis by (rule build_error)
next
  case (Inr bm)
  show thesis
  proof (cases "status (validate_factorization_matrix (bm_m bm) diag_epsilon) = FailedInvalidStructure \<or>
         capacity_bytes (svc_cache self) < workload_estimate env (admission_fill_in_multiplier self) bm \<or>
         (\<exists>e. factorize_matrix env (bm_m bm) options = Err e)")
    case True
    with prepare_set_failed [OF Inr] failed [OF Inr] show thesis by meson
  next
    case False
    then show thesis using stored [OF Inr] by (cases "factorize_matrix env (bm_m bm) options") auto
  qed
qed

lemma service_inv_prepare:
  assumes "service_inv env self"
  shows "service_inv env (snd (prepare env now later data options self))"
proof (rule prepare_cases [where self = self and data = data and env = env and now = now
      and later = later and options = options])
  fix e assume "build (svc_builder self) data = Err e"
  with assms show ?thesis by (simp add: prepare_build_error service_inv_def inv_set_building)
next
  fix bm err msg
  assume "prepare env now later data options self =
        (Err err, self\<lparr>svc_cache := set_failed later (prepare_key env data options) msg
        (set_building now (prepare_key env data options) (svc_cache self))\<rparr>)"
  with assms show ?thesis by (simp add: service_inv_def inv_set_building inv_set_failed)
next
  fix bm f
  assume stored: "build (svc_builder self) data = Ok bm"
    "status (validate_factorization_matrix (bm_m bm) diag_epsilon) \<noteq> FailedInvalidStructure"
    "\<not> capacity_bytes (svc_cache self) < workload_estimate env (admission_fill_in_multiplier self) bm"
    "factorize_matrix env (bm_m bm) options = Ok f"
  let ?k = "prepare_key env data options"
  let ?p = "\<lparr>pm_factorization = f, pm_b = bm_b bm, pm_c = bm_c bm, pm_validation =
     validate_factorization_matrix (bm_m bm) diag_epsilon\<rparr>"
  let ?c = "set_building now ?k (svc_cache self)"
  obtain r c' where r: "set_ready (env_show_uuid env) (env_vec_cap env) later ?k ?p ?c = (r, c')"
    by fastforce
  have "cache_inv (env_vec_cap env) ?c" using assms by (simp add: service_inv_def inv_set_building)
  from inv_set_ready [OF this, of "env_show_uuid env" later ?k ?p] r
  show ?thesis by (simp add: prepare_set_ready(1) [OF stored r] service_inv_def)
qed

lemma service_inv_solve:
  "service_inv env self \<Longrightarrow> service_inv env (snd (solve_one env now clk mv options rhs so self))"
  using inv_get_ready [of "env_vec_cap env" "svc_cache self" now "factorization_key env mv options"]
  by (auto simp: solve_one_def solve_one_timed_def service_inv_def split: prod.split)

lemma service_inv_invalidate:
  "service_inv env self \<Longrightarrow> service_inv env (snd (invalidate now mv self))"
  using inv_invalidate_model [of "env_vec_cap env" "svc_cache self" now mv]
  by (auto simp: invalidate_def service_inv_def split: prod.split)

lemma solve_one_lookup:
  "solve_one env now clk mv options rhs so self =
     (and_then (ok_or (ready_lookup (factorization_key env mv options) (svc_cache self)) (NotPrepared mv))
        (\<lambda>p. and_then (solve_prepared env clk p rhs so) (\<lambda>t. Ok (ts_result t))),
      self\<lparr>svc_cache := snd (get_ready now (factorization_key env mv options) (svc_cache self))\<rparr>)"
proof -
  obtain f c where g: "get_ready now (factorization_key env mv options) (svc_cache self) = (f, c)"
    by fastforce
  then have "f = ready_lookup (factorization_key env mv options) (svc_cache self)"
    using get_ready_result(1) [of now "factorization_key env mv options" "svc_cache self"] by simp
  with g show ?thesis
    by (simp add: solve_one_def solve_one_timed_def and_then_assoc)
qed

lemma csc_new_fields: "csc_new nr nc cp ri vs = Ok m \<Longrightarrow> nrows m = nr \<and> ncols m = nc"
  by (auto simp: csc_new_def Let_def and_then_Ok_iff)

lemma from_triplet_iter_fields: "from_triplet_iter nr nc ts eps = Ok m \<Longrightarrow> nrows m = nr \<and> ncols m = nc"
  by (auto simp: from_triplet_iter_def csc_of_entries_def Let_def and_then_Ok_iff dest!: csc_new_fields)

lemma build_Ok_dims:
  "build b data = Ok bm \<Longrightarrow> ncols (bm_m bm) = process_count data \<and> 0 < process_count data"
  by (auto simp: build_def and_then_Ok_iff dest!: from_triplet_iter_fields)

lemma factorize_Ok_matrix:
  "fst (factorize lib m options heap) = Ok f \<Longrightarrow> uf_matrix f = m"
  by (auto simp: factorize_def Let_def split: sum.splits prod.splits if_splits option.splits)

lemma solve_one_state:
  "ready_lookup k (svc_cache (snd (solve_one env now clk mv options rhs so self))) =
   ready_lookup k (svc_cache self)"
  by (simp add: solve_one_lookup get_ready_result)

text \<open>
  Service states reachable from a fresh service through calls in any order. A prepare is not
  one critical section; since each cache operation is, the cache of an interleaved run is
  among the states covered by \<open>cache_reachable\<close>.
\<close>

inductive service_reachable :: "solver_env \<Rightarrow> usize \<Rightarrow> solver_service \<Rightarrow> bool" for env n where
  reach_policy: "service_reachable env n (with_cache_policy n multiplier)"
| reach_exact: "service_reachable env n (with_exact_zero_policy n multiplier)"
| reach_prepare: "service_reachable env n self \<Longrightarrow>
    service_reachable env n (snd (prepare env now later data options self))"
| reach_solve: "service_reachable env n self \<Longrightarrow>
    service_reachable env n (snd (solve_one env now clk mv options rhs so self))"
| reach_invalidate: "service_reachable env n self \<Longrightarrow>
    service_reachable env n (snd (invalidate now mv self))"

lemma capacity_get_ready [simp]: "capacity_bytes (snd (get_ready now k s)) = capacity_bytes s"
  by (auto simp: get_ready_def next_access_case split: option.split)

lemma capacity_prepare:
  assumes "service_inv env self"
  shows "capacity_bytes (svc_cache (snd (prepare env now later data options self))) =
           capacity_bytes (svc_cache self)"
proof (rule prepare_cases [where self = self and data = data and env = env and now = now
      and later = later and options = options])
  fix e assume "build (svc_builder self) data = Err e"
  then show ?thesis by (simp add: prepare_build_error)
next
  fix bm err msg
  assume "prepare env now later data options self =
        (Err err, self\<lparr>svc_cache := set_failed later (prepare_key env data options) msg
        (set_building now (prepare_key env data options) (svc_cache self))\<rparr>)"
  then show ?thesis by simp
next
  fix bm f
  assume stored: "build (svc_builder self) data = Ok bm"
    "status (validate_factorization_matrix (bm_m bm) diag_epsilon) \<noteq> FailedInvalidStructure"
    "\<not> capacity_bytes (svc_cache self) < workload_estimate env (admission_fill_in_multiplier self) bm"
    "factorize_matrix env (bm_m bm) options = Ok f"
  let ?k = "prepare_key env data options"
  let ?p = "\<lparr>pm_factorization = f, pm_b = bm_b bm, pm_c = bm_c bm, pm_validation =
     validate_factorization_matrix (bm_m bm) diag_epsilon\<rparr>"
  let ?c = "set_building now ?k (svc_cache self)"
  obtain r c' where r: "set_ready (env_show_uuid env) (env_vec_cap env) later ?k ?p ?c = (r, c')"
    by fastforce
  have "cache_inv (env_vec_cap env) ?c" using assms by (simp add: service_inv_def inv_set_building)
  from capacity_set_ready [OF this, of "env_show_uuid env" later ?k ?p] r
  show ?thesis by (simp add: prepare_set_ready(1) [OF stored r])
qed

lemma service_reachable_inv:
  assumes "service_reachable env n self" and "n < u64_max"
  shows "service_inv env self \<and> capacity_bytes (svc_cache self) = n"
  using assms
proof (induction rule: service_reachable.induct)
  case (reach_prepare self now later data options)
  then show ?case by (simp add: service_inv_prepare capacity_prepare)
next
  case (reach_solve self now clk mv options rhs so)
  then show ?case by (simp add: service_inv_solve) (simp add: solve_one_lookup)
next
  case (reach_invalidate self now mv)
  then show ?case by (simp add: service_inv_invalidate) (simp add: invalidate_def invalidate_model_def Let_def)
qed (simp_all add: with_cache_policy_def with_exact_zero_policy_def service_inv_def inv_with_capacity,
    simp_all add: with_capacity_def)

subsection \<open>Example data\<close>

definition example_env :: solver_env where
  "example_env = \<lparr>env_show_uuid = (\<lambda>_. []), env_blake3_hex = (\<lambda>_. ''h''), env_vec_cap = id,
                  env_lib = identity_lib 0\<rparr>"

definition example_data :: model_sparse_data where
  "example_data =
     \<lparr>model_version = 1, process_count = 1, flow_count = 1, impact_count = 1,
      technosphere_entries = [],
      biosphere_entries = [\<lparr>st_row = 0, st_col = 0, st_value = Fin 2\<rparr>],
      characterization_factors = [\<lparr>st_row = 0, st_col = 0, st_value = Fin 3\<rparr>]\<rparr>"

definition example_service :: solver_service where
  "example_service = with_exact_zero_policy 1000 (Fin 1)"

definition bad_data :: model_sparse_data where
  "bad_data = example_data\<lparr>process_count := 0\<rparr>"

lemma example_service_inv: "service_inv example_env example_service"
  by (simp add: service_inv_def example_service_def with_exact_zero_policy_def example_env_def
      inv_with_capacity u64_max_def)

definition example_bm :: built_matrices where
  "example_bm = \<lparr>bm_m = example_matrix, bm_b = example_matrix\<lparr>vals := [Fin 2]\<rparr>,
     bm_c = example_matrix\<lparr>vals := [Fin 3]\<rparr>, m_nnz = 1, b_nnz = 1, c_nnz = 1\<rparr>"

definition example_options :: numeric_options where
  "example_options = \<lparr>no_print_level = Fin 0\<rparr>"

lemma example_build: "build (svc_builder example_service) example_data = Ok example_bm"
proof -
  have "build (data_builder_new (Fin 0)) example_data = Ok example_bm"
    by (simp add: build_def example_data_def data_builder_new_def to_matrix_triplet_def
        unit_triplet_def from_triplet_iter_def acc_step_def ensure_def range_contains_def f_le_def
        f_lt_def f_eq_def acc_entries_def csc_of_entries_def csc_new_def Let_def usize_try_from_def
        count_step_def prefix_step_def f_add_def validate_def wrap_i32_def example_matrix_def
        subslice_def ok_or_def example_bm_def nnz_def map_err_def upt_Suc)
  then show ?thesis by (simp add: example_service_def with_exact_zero_policy_def)
qed

lemma example_workload: "workload_estimate example_env (Fin 1) example_bm = 80"
proof -
  have "rne (numeral n) = numeral n" for n by (metis rne_of_int of_int_numeral)
  then show ?thesis
    by (simp add: workload_estimate_def example_bm_def example_matrix_def example_env_def
        estimated_owned_bytes_def saturating_add_def saturating_mul_def u64_max_def Let_def
        f_of_int_def f_mul_def)
qed

lemma example_not_rejected:
  "status (validate_factorization_matrix (bm_m example_bm) diag_epsilon) \<noteq> FailedInvalidStructure"
  "\<not> capacity_bytes (svc_cache example_service) <
     workload_estimate example_env (admission_fill_in_multiplier example_service) example_bm"
proof -
  show "status (validate_factorization_matrix (bm_m example_bm) diag_epsilon) \<noteq> FailedInvalidStructure"
    by (simp add: validate_factorization_matrix_def Let_def example_bm_def example_matrix_def
        split: prod.split)
  have "f_max (Fin 1) (Fin 1) = Fin 1" by (simp add: f_max_def)
  then show "\<not> capacity_bytes (svc_cache example_service) <
     workload_estimate example_env (admission_fill_in_multiplier example_service) example_bm"
    using example_workload by (simp add: example_service_def with_exact_zero_policy_def with_capacity_def)
qed

lemma example_factorize:
  "factorize_matrix example_env (bm_m example_bm) example_options = Ok (pm_factorization example_model)"
proof -
  have "validate example_matrix = Ok ()" by code_simp
  then show ?thesis
    by (simp add: factorize_matrix_def factorize_def example_env_def identity_lib_def UMFPACK_OK_def
        UMFPACK_WARNING_SINGULAR_def Let_def non_null_def example_model_def example_bm_def
        example_matrix_def UMFPACK_PRL_def fun_eq_iff example_options_def)
qed

lemma example_prepare: "\<exists>pr self1. prepare example_env 1 2 example_data example_options example_service = (Ok pr, self1)"
proof -
  let ?k = "prepare_key example_env example_data example_options"
  let ?p = "\<lparr>pm_factorization = pm_factorization example_model, pm_b = bm_b example_bm, pm_c = bm_c example_bm,
     pm_validation = validate_factorization_matrix (bm_m example_bm) diag_epsilon\<rparr>"
  let ?c = "set_building 1 ?k (svc_cache example_service)"
  obtain r c' where r: "set_ready (env_show_uuid example_env) (env_vec_cap example_env) 2 ?k ?p ?c = (r, c')"
    by fastforce
  have i: "cache_inv (env_vec_cap example_env) ?c"
    using example_service_inv by (simp add: service_inv_def inv_set_building)
  have "prepared_owned_bytes (env_vec_cap example_env) ?p = prepared_owned_bytes id example_model"
    by (simp add: prepared_owned_bytes_def example_env_def example_bm_def example_model_def
        estimated_owned_bytes_def example_matrix_def)
  then have "r = Ok 60"
    using ready_lookup_set_ready(3) [OF i r]
    by (simp add: example_model_bytes example_service_def with_exact_zero_policy_def with_capacity_def)
  with prepare_set_ready [OF example_build example_not_rejected example_factorize r] show ?thesis
    by (metis (mono_tags, lifting) old.sum.simps(6) prod.collapse)
qed

text \<open>What the solves after a successful prepare compute.\<close>

lemma prepared_solves:
  assumes "service_inv env self"
    and "prepare env now later data options self = (Ok pr, self1)"
  shows "\<exists>bm f. build (svc_builder self) data = Ok bm \<and>
     factorize_matrix env (bm_m bm) options = Ok f \<and>
     (\<forall>now' clk rhs so. fst (solve_one env now' clk (model_version data) options rhs so self1) =
        (if length rhs \<noteq> nat (process_count data)
         then Err (SvcRhsDimensionMismatch (length rhs) (nat (process_count data)))
         else case solve (env_lib env) f rhs of
                Inl e \<Rightarrow> Err (SvcFactorization e)
              | Inr x \<Rightarrow> Ok \<lparr>sr_x = (if return_x so then Some x else None),
                   sr_g = (if return_g so then Some (mul_vector (bm_b bm) x) else None),
                   sr_h = (if return_h so then Some (mul_vector (bm_c bm) (mul_vector (bm_b bm) x)) else None),
                   sr_factorization_state = Ready\<rparr>))"
proof (rule prepare_cases [where self = self and data = data and env = env and now = now
      and later = later and options = options])
  fix bm f
  assume stored: "build (svc_builder self) data = Ok bm"
    "status (validate_factorization_matrix (bm_m bm) diag_epsilon) \<noteq> FailedInvalidStructure"
    "\<not> capacity_bytes (svc_cache self) < workload_estimate env (admission_fill_in_multiplier self) bm"
    "factorize_matrix env (bm_m bm) options = Ok f"
  let ?k = "prepare_key env data options"
  let ?p = "\<lparr>pm_factorization = f, pm_b = bm_b bm, pm_c = bm_c bm, pm_validation =
     validate_factorization_matrix (bm_m bm) diag_epsilon\<rparr>"
  let ?c = "set_building now ?k (svc_cache self)"
  obtain r c' where r: "set_ready (env_show_uuid env) (env_vec_cap env) later ?k ?p ?c = (r, c')"
    by fastforce
  have c: "cache_inv (env_vec_cap env) ?c" using assms(1) by (simp add: service_inv_def inv_set_building)
  from prepare_set_ready [OF stored r] assms(2) obtain bytes where "r = Ok bytes" "svc_cache self1 = c'"
    by (cases r) auto
  with fcache.lookup_ready_ok [OF c] r
  have look: "ready_lookup (factorization_key env (model_version data) options) (svc_cache self1) = Some ?p"
    by (simp add: prepare_key_def)
  have "uf_matrix f = bm_m bm" using stored(4) factorize_Ok_matrix by (simp add: factorize_matrix_def)
  with build_Ok_dims [OF stored(1)]
  have n: "unwrap_or (usize_try_from (ncols (matrix_of f))) 0 = nat (process_count data)"
    by (simp add: matrix_of_def usize_try_from_def)
  have "fst (solve_one env now' clk (model_version data) options rhs so self1) =
      and_then (solve_prepared env clk ?p rhs so) (\<lambda>t. Ok (ts_result t))" for now' clk rhs so
    by (simp add: solve_one_lookup look ok_or_def)
  with n stored(1,4) show ?thesis
    by (intro exI [of _ bm] exI [of _ f])
      (auto simp: solve_prepared_def Let_def ensure_def map_err_def split: sum.split)
qed (use assms(2) in \<open>simp_all add: prepare_build_error\<close>)

subsection \<open>Properties\<close>

text \<open>
  C1. End to end: once a prepare has succeeded, a solve with the same model version and options
  uses the factorization of \<open>M = I - A\<close> built from that data, and returns exactly the requested
  ones of \<open>x\<close>, \<open>g = Bx\<close> and \<open>h = C(Bx)\<close> with the matrices built from that data; it rejects a
  right-hand side whose length is not the process count and reports solver failures.
\<close>

theorem prepare_then_solve:
  assumes "service_inv env self"
    and "prepare env now later data options self = (Ok pr, self1)"
  shows "\<exists>bm f. build (svc_builder self) data = Ok bm \<and>
     factorize_matrix env (bm_m bm) options = Ok f \<and>
     (\<forall>now' clk rhs so. fst (solve_one env now' clk (model_version data) options rhs so self1) =
        (if length rhs \<noteq> nat (process_count data)
         then Err (SvcRhsDimensionMismatch (length rhs) (nat (process_count data)))
         else case solve (env_lib env) f rhs of
                Inl e \<Rightarrow> Err (SvcFactorization e)
              | Inr x \<Rightarrow> Ok \<lparr>sr_x = (if return_x so then Some x else None),
                   sr_g = (if return_g so then Some (mul_vector (bm_b bm) x) else None),
                   sr_h = (if return_h so then Some (mul_vector (bm_c bm) (mul_vector (bm_b bm) x)) else None),
                   sr_factorization_state = Ready\<rparr>))"
  by (rule prepared_solves [OF assms])

theorem prepare_then_solve_witness:
  "\<exists>pr self1. prepare example_env 1 2 example_data example_options example_service = (Ok pr, self1) \<and>
     fst (solve_one example_env 3 \<lparr>clk_solve = Fin 0, clk_bx = Fin 0, clk_cg = Fin 0\<rparr> 1 example_options
            [Fin 1, Fin 2] \<lparr>return_x = True, return_g = True, return_h = True\<rparr> self1) =
       Err (SvcRhsDimensionMismatch 2 1)"
proof -
  obtain pr self1 where p: "prepare example_env 1 2 example_data example_options example_service = (Ok pr, self1)"
    using example_prepare by blast
  have "model_version example_data = 1" "process_count example_data = 1" by (simp_all add: example_data_def)
  with prepare_then_solve [OF example_service_inv p] p show ?thesis by fastforce
qed

text \<open>
  C18. What a failed prepare leaves behind: the model is not served, and its reported state is
  failed after a validation, admission or factorization error. After an error of the matrix
  build, the state stays building although no factorization is in progress any more.
\<close>

theorem prepare_error_state:
  assumes "service_inv env self" and "prepare env now later data options self = (Err e, self1)"
  shows "factorization_status env (model_version data) options self1 =
           Some (case e of SvcDataBuilder _ \<Rightarrow> Building | _ \<Rightarrow> Failed) \<and>
         fst (solve_one env now' clk (model_version data) options rhs so self1) =
           Err (NotPrepared (model_version data))"
proof (rule prepare_cases [where self = self and data = data and env = env and now = now
      and later = later and options = options])
  fix d assume "build (svc_builder self) data = Err d"
  with assms(2) show ?thesis
    by (auto simp: prepare_build_error factorization_status_def prepare_key_def solve_one_lookup
        ready_lookup_set_building)
next
  fix bm err msg
  assume f: "build (svc_builder self) data = Ok bm" "prepare env now later data options self =
        (Err err, self\<lparr>svc_cache := set_failed later (prepare_key env data options) msg
        (set_building now (prepare_key env data options) (svc_cache self))\<rparr>)"
  have "e \<noteq> SvcDataBuilder d" for d
    using assms(2) f(1) by (auto simp: prepare_def Let_def split: sum.splits prod.splits if_splits)
  then have "(case e of SvcDataBuilder _ \<Rightarrow> Building | _ \<Rightarrow> Failed) = Failed" by (cases e) auto
  with assms(2) f(2) show ?thesis
    by (auto simp: factorization_status_def prepare_key_def solve_one_lookup ready_lookup_set_failed)
next
  fix bm f
  assume stored: "build (svc_builder self) data = Ok bm"
    "status (validate_factorization_matrix (bm_m bm) diag_epsilon) \<noteq> FailedInvalidStructure"
    "\<not> capacity_bytes (svc_cache self) < workload_estimate env (admission_fill_in_multiplier self) bm"
    "factorize_matrix env (bm_m bm) options = Ok f"
  let ?k = "prepare_key env data options"
  let ?p = "\<lparr>pm_factorization = f, pm_b = bm_b bm, pm_c = bm_c bm, pm_validation =
     validate_factorization_matrix (bm_m bm) diag_epsilon\<rparr>"
  let ?c = "set_building now ?k (svc_cache self)"
  obtain r c' where r: "set_ready (env_show_uuid env) (env_vec_cap env) later ?k ?p ?c = (r, c')"
    by fastforce
  have c: "cache_inv (env_vec_cap env) ?c" using assms(1) by (simp add: service_inv_def inv_set_building)
  from prepare_set_ready [OF stored r] assms(2) obtain a where
    a: "r = Err a" "e = CacheAdmission a" "svc_cache self1 = c'" by (cases r) auto
  with ready_lookup_set_ready(3) [OF c r] have over: "capacity_bytes ?c < prepared_owned_bytes (env_vec_cap env) ?p"
    by (simp split: if_splits)
  have "cache_state ?k c' = Some Failed"
    using set_ready_rejected [OF over, of "env_show_uuid env" later ?k] r by auto
  with a fcache.lookup_ready_err [OF c] r show ?thesis
    by (simp add: factorization_status_def prepare_key_def solve_one_lookup ok_or_def)
qed

theorem prepare_error_state_witness:
  "let r = prepare example_env 1 2 bad_data example_options example_service
   in fst r = Err (SvcDataBuilder (BuilderInvalidDimensions 0 1 1)) \<and>
      factorization_status example_env 1 example_options (snd r) = Some Building"
proof -
  have "build (svc_builder example_service) bad_data = Err (BuilderInvalidDimensions 0 1 1)"
    by (simp add: build_def bad_data_def example_data_def ensure_def)
  then have p: "prepare example_env 1 2 bad_data example_options example_service =
      (Err (SvcDataBuilder (BuilderInvalidDimensions 0 1 1)),
       example_service\<lparr>svc_cache := set_building 1 (prepare_key example_env bad_data example_options)
          (svc_cache example_service)\<rparr>)"
    by (rule prepare_build_error)
  have "model_version bad_data = 1" by (simp add: bad_data_def example_data_def)
  with prepare_error_state [OF example_service_inv p] p show ?thesis by (simp add: Let_def)
qed

text \<open>
  A batch solve returns, in order, exactly what the single solves return on the service state
  before the batch, and stops with the first error among them.
\<close>

theorem solve_batch_is_pointwise:
  "fst (solve_batch env mv options requests so self) =
     traverse (\<lambda>(now, clk, rhs). fst (solve_one env now clk mv options rhs so self)) requests"
proof -
  have "fst (solve_batch env mv options requests so self') =
      traverse (\<lambda>(now, clk, rhs). fst (solve_one env now clk mv options rhs so self)) requests"
    if "\<And>k. ready_lookup k (svc_cache self') = ready_lookup k (svc_cache self)" for self'
    using that
  proof (induction env mv options requests so self' rule: solve_batch.induct)
    case (2 env mv options now clk rhs rest so self')
    obtain r s1 where r: "solve_one env now clk mv options rhs so self' = (r, s1)" by fastforce
    have same: "fst (solve_one env now clk mv options rhs so self) = r"
      using arg_cong [OF r, of fst] by (simp add: solve_one_lookup "2.prems")
    have "ready_lookup k (svc_cache s1) = ready_lookup k (svc_cache self)" for k
      using solve_one_state [of k env now clk mv options rhs so self'] r "2.prems" by simp
    then show ?case
      using "2.IH" r same by (cases r) (auto split: prod.split)
  qed simp
  then show ?thesis by blast
qed

text \<open>
  After a model version has been invalidated, every solve for it reports that it is not
  prepared, whatever the options, and solves for other versions are unaffected.
\<close>

theorem invalidate_then_solve:
  "fst (solve_one env now' clk v options rhs so (snd (invalidate now mv self))) =
     (if v = mv then Err (NotPrepared v) else fst (solve_one env now' clk v options rhs so self))"
proof -
  have "svc_cache (snd (invalidate now mv self)) = snd (invalidate_model now mv (svc_cache self))"
    by (simp add: invalidate_def split: prod.split)
  moreover have "fk_model_version (factorization_key env v options) = v"
    by (simp add: factorization_key_def factorization_key_new_def)
  ultimately show ?thesis by (simp add: solve_one_lookup ready_lookup_invalidate ok_or_def)
qed

text \<open>
  C19. Whatever the calls, the bytes retained by the service's cache never exceed the configured
  capacity, and a ready entry always owns the model it was charged for.
\<close>

theorem service_memory_bounded:
  assumes "service_reachable env n self" and "n < u64_max"
  shows "t_resident_bytes (telemetry (svc_cache self)) \<le> n \<and>
         t_resident_bytes (telemetry (svc_cache self)) =
           (\<Sum>p\<leftarrow>entries (svc_cache self).
              (case prepared (snd p) of None \<Rightarrow> 0 | Some m \<Rightarrow> prepared_owned_bytes (env_vec_cap env) m))"
proof -
  from service_reachable_inv [OF assms] have i: "cache_inv (env_vec_cap env) (svc_cache self)"
    and c: "capacity_bytes (svc_cache self) = n" by (auto simp: service_inv_def)
  have "(\<Sum>p\<leftarrow>entries (svc_cache self). estimated_bytes (snd p)) = (\<Sum>p\<leftarrow>entries (svc_cache self).
      (case prepared (snd p) of None \<Rightarrow> 0 | Some m \<Rightarrow> prepared_owned_bytes (env_vec_cap env) m))"
    using i by (intro arg_cong [where f = sum_list] map_cong) (auto simp: cache_inv_def entry_ok_def)
  with i c show ?thesis by (simp add: cache_inv_def telemetry_def bytes_of_def)
qed

theorem service_memory_bounded_witness:
  "let self = snd (prepare example_env 1 2 example_data example_options (with_exact_zero_policy 1000 (Fin 1)))
   in service_reachable example_env 1000 self \<and> t_resident_bytes (telemetry (svc_cache self)) \<le> 1000"
proof -
  let ?s = "snd (prepare example_env 1 2 example_data example_options (with_exact_zero_policy 1000 (Fin 1)))"
  have "service_reachable example_env 1000 ?s" by (intro service_reachable.intros)
  with service_memory_bounded [OF this] show ?thesis by (simp add: Let_def u64_max_def)
qed

end
