(* ===== verification/Rust_Text.thy ===== *)
theory Rust_Text
  imports Prelude
begin

text \<open>
  The parts of Rust's \<open>str\<close> interface the worker uses: \<open>trim\<close>, \<open>lines\<close>, \<open>split\<close>, \<open>split_once\<close>,
  \<open>strip_prefix\<close>, \<open>to_ascii_uppercase\<close>, \<open>parse::<u64>\<close>, and \<open>find_map\<close> on iterators. A string
  is its list of bytes; white space is the ASCII white space, so text with Unicode spaces at
  its ends is outside the model.
\<close>

subsection \<open>Definitions\<close>

definition is_ws :: "char \<Rightarrow> bool" where
  "is_ws c \<longleftrightarrow> c \<in> {CHR '' '', CHR 0x09, CHR 0x0A, CHR 0x0B, CHR 0x0C, CHR 0x0D}"

fun split_on :: "char \<Rightarrow> string \<Rightarrow> string list" where
  "split_on d [] = [[]]"
| "split_on d (c # cs) =
     (if c = d then [] # split_on d cs
      else case split_on d cs of [] \<Rightarrow> [[c]] | w # ws \<Rightarrow> (c # w) # ws)"

definition strip_cr :: "string \<Rightarrow> string" where
  "strip_cr s = (if s \<noteq> [] \<and> last s = CHR 0x0D then butlast s else s)"

definition text_lines :: "string \<Rightarrow> string list" where
  "text_lines s =
     (let ls = split_on (CHR 0x0A) s
      in map strip_cr (butlast ls) @ (if last ls = [] then [] else [last ls]))"

definition trim :: "string \<Rightarrow> string" where
  "trim s = rev (dropWhile is_ws (rev (dropWhile is_ws s)))"

definition first_word :: "string \<Rightarrow> string option" where
  "first_word s = (let w = takeWhile (\<lambda>c. \<not> is_ws c) (dropWhile is_ws s) in if w = [] then None else Some w)"

definition strip_prefix :: "string \<Rightarrow> string \<Rightarrow> string option" where
  "strip_prefix p s = (if take (length p) s = p then Some (drop (length p) s) else None)"

definition is_digit :: "char \<Rightarrow> bool" where
  "is_digit c \<longleftrightarrow> 48 \<le> (of_char c :: nat) \<and> (of_char c :: nat) \<le> 57"

definition parse_u64 :: "string \<Rightarrow> u64 option" where
  "parse_u64 s =
     (let ds = (case s of CHR ''+'' # r \<Rightarrow> r | _ \<Rightarrow> s);
          n = foldl (\<lambda>a c. a * 10 + (of_char c - 48)) 0 ds
      in if ds \<noteq> [] \<and> list_all is_digit ds \<and> n \<le> u64_max then Some n else None)"

fun find_map :: "('a \<Rightarrow> 'b option) \<Rightarrow> 'a list \<Rightarrow> 'b option" where
  "find_map f [] = None"
| "find_map f (x # xs) = (case f x of None \<Rightarrow> find_map f xs | Some y \<Rightarrow> Some y)"

definition checked_mul :: "nat \<Rightarrow> nat \<Rightarrow> nat option" where
  "checked_mul a b = (if a * b \<le> u64_max then Some (a * b) else None)"

definition split_once :: "char \<Rightarrow> string \<Rightarrow> (string \<times> string) option" where
  "split_once d s =
     (if d \<in> set s then Some (takeWhile (\<lambda>c. c \<noteq> d) s, tl (dropWhile (\<lambda>c. c \<noteq> d) s)) else None)"

definition trim_nonempty :: "string \<Rightarrow> string option" where
  "trim_nonempty s = (if trim s = [] then None else Some (trim s))"

definition ascii_upper :: "char \<Rightarrow> char" where
  "ascii_upper c =
     (let n = (of_char c :: nat) in if 97 \<le> n \<and> n \<le> 122 then char_of (n - 32) else c)"

definition is_ascii_alphabetic :: "char \<Rightarrow> bool" where
  "is_ascii_alphabetic c \<longleftrightarrow>
     (let n = (of_char c :: nat) in 65 \<le> n \<and> n \<le> 90 \<or> 97 \<le> n \<and> n \<le> 122)"

subsection \<open>Trimming and splitting\<close>

lemma dropWhile_id: "xs = [] \<or> \<not> P (hd xs) \<Longrightarrow> dropWhile P xs = xs"
  by (cases xs) auto

lemma trim_ends: "trim s = [] \<or> \<not> is_ws (hd (trim s)) \<and> \<not> is_ws (last (trim s))"
proof (cases "trim s = []")
  case False
  let ?t = "dropWhile is_ws s"
  have t: "trim s = rev (dropWhile is_ws (rev ?t))" by (simp add: trim_def)
  with False have "?t \<noteq> []" by (metis dropWhile.simps(1) rev.simps(1))
  then have "\<not> is_ws (hd ?t)" by (rule hd_dropWhile)
  moreover obtain u where u: "?t = trim s @ u"
    using takeWhile_dropWhile_id [of is_ws "rev ?t"] t by (metis rev_append rev_rev_ident)
  moreover have "\<not> is_ws (last (trim s))"
    using False t hd_dropWhile [of is_ws "rev ?t"] by (simp add: last_rev)
  ultimately show ?thesis using False by simp
qed simp

lemma trim_id: "s = [] \<or> \<not> is_ws (hd s) \<and> \<not> is_ws (last s) \<Longrightarrow> trim s = s"
  by (auto simp: trim_def dropWhile_id hd_rev)

lemma trim_idem [simp]: "trim (trim s) = trim s"
  using trim_ends by (rule trim_id)

lemma trim_no_ws: "\<forall>c \<in> set s. \<not> is_ws c \<Longrightarrow> trim s = s"
  by (intro trim_id) (cases s, auto)

lemma split_once_first:
  "d \<notin> set a \<Longrightarrow> split_once d (a @ d # b) = Some (a, b)"
  by (induction a) (auto simp: split_once_def)

lemma trim_surrounded:
  assumes "\<forall>c \<in> set before. is_ws c" and "\<forall>c \<in> set after. is_ws c" and "s \<noteq> []" "\<not> is_ws (hd s)"
  shows "trim (before @ s @ after) = trim s"
proof -
  have "dropWhile is_ws (before @ s @ after) = s @ after"
    using assms by (cases s) (simp_all add: dropWhile_append2)
  moreover have "dropWhile is_ws (rev (s @ after)) = dropWhile is_ws (rev s)"
    unfolding rev_append by (rule dropWhile_append2) (use assms(2) in simp)
  moreover have "dropWhile is_ws s = s" using assms(4) by (rule dropWhile_id [OF disjI2])
  ultimately show ?thesis by (simp add: trim_def)
qed

end
