(* ===== verification/Resource_Admission.thy ===== *)
theory Resource_Admission
  imports Rust_Text
begin

text \<open>
  Resource admission, cancellation and measurement (\<open>solver-worker/src/resource.rs\<close>). The
  cancellation token is a shared flag, here a state of its own; the pseudo files the process
  measures itself with are an argument mapping a path to its contents, and a directory tree is
  a datatype whose error leaves stand for failed system calls.
\<close>

subsection \<open>Data\<close>

definition resource_profile_schema :: string where
  "resource_profile_schema = ''worker.resource-profile.v1''"

record resource_limits =
  memory_soft_bytes :: "u64 option"
  memory_hard_bytes :: "u64 option"
  lim_temp_bytes :: "u64 option"
  lim_object_download_bytes :: "u64 option"
  lim_object_upload_bytes :: "u64 option"
  lim_cache_bytes :: "u64 option"
  lim_stage_window_bytes :: "u64 option"
  max_concurrency :: "nat option"

record resource_profile =
  rp_schema :: string
  job_family :: string
  limits :: resource_limits

record resource_admission =
  memory_soft_limit_exceeded :: bool

record resource_demand =
  owned_estimate_bytes :: "u64 option"
  temp_bytes :: "u64 option"
  object_download_bytes :: "u64 option"
  object_upload_bytes :: "u64 option"
  cache_bytes :: "u64 option"
  stage_window_bytes :: "u64 option"
  concurrency :: "nat option"

datatype resource_error =
    AdmissionRejected string u64 u64
  | ArtifactLimitExceeded string u64 u64
  | Cancelled string
  | InvalidProfile string

record resource_counters =
  rc_owned_estimate_bytes :: "u64 option"
  rc_temp_bytes :: "u64 option"
  rc_object_bytes :: "u64 option"
  rc_cache_bytes :: "u64 option"
  rc_rows :: "u64 option"
  rc_nnz :: "u64 option"

record cgroup_memory_info =
  anon_bytes :: "u64 option"
  file_bytes :: "u64 option"
  current_bytes :: "u64 option"
  peak_bytes :: "u64 option"

record resource_measurement =
  rm_schema :: string
  phase :: string
  rm_process_rss_bytes :: "u64 option"
  cgroup :: cgroup_memory_info
  counters :: resource_counters

subsection \<open>Admission\<close>

definition resource_profile_new :: "string \<Rightarrow> resource_limits \<Rightarrow> resource_profile" where
  "resource_profile_new family lims =
     \<lparr>rp_schema = resource_profile_schema, job_family = family, limits = lims\<rparr>"

definition profile_validate :: "resource_profile \<Rightarrow> (resource_error, unit) result" where
  "profile_validate self =
     and_then (ensure (rp_schema self = resource_profile_schema)
        (InvalidProfile (''unsupported resource profile schema: '' @ rp_schema self))) (\<lambda>_.
     and_then (case (memory_soft_bytes (limits self), memory_hard_bytes (limits self)) of
          (Some soft, Some hard) \<Rightarrow>
            ensure (\<not> hard < soft)
              (InvalidProfile (''memory soft limit must not exceed hard limit: soft='' @ show_nat soft @
                 '' hard='' @ show_nat hard))
        | _ \<Rightarrow> Ok ()) (\<lambda>_.
     ensure (max_concurrency (limits self) \<noteq> Some 0)
       (InvalidProfile ''resource profile max concurrency must be greater than zero'')))"

definition demand_validate :: "resource_demand \<Rightarrow> (resource_error, unit) result" where
  "demand_validate self =
     ensure (concurrency self \<noteq> Some 0)
       (InvalidProfile ''resource demand concurrency must be greater than zero'')"

definition check_limit :: "string \<Rightarrow> u64 option \<Rightarrow> u64 option \<Rightarrow> (resource_error, unit) result" where
  "check_limit resource requested limit =
     (case (requested, limit) of
        (Some r, Some l) \<Rightarrow> ensure (\<not> l < r) (AdmissionRejected resource r l)
      | _ \<Rightarrow> Ok ())"

definition admit :: "resource_profile \<Rightarrow> resource_demand \<Rightarrow> (resource_error, resource_admission) result" where
  "admit self demand =
     and_then (profile_validate self) (\<lambda>_.
     and_then (demand_validate demand) (\<lambda>_.
     and_then (check_limit ''ownedEstimateBytes'' (owned_estimate_bytes demand) (memory_hard_bytes (limits self))) (\<lambda>_.
     and_then (check_limit ''tempBytes'' (temp_bytes demand) (lim_temp_bytes (limits self))) (\<lambda>_.
     and_then (check_limit ''objectDownloadBytes'' (object_download_bytes demand) (lim_object_download_bytes (limits self))) (\<lambda>_.
     and_then (check_limit ''objectUploadBytes'' (object_upload_bytes demand) (lim_object_upload_bytes (limits self))) (\<lambda>_.
     and_then (check_limit ''cacheBytes'' (cache_bytes demand) (lim_cache_bytes (limits self))) (\<lambda>_.
     and_then (check_limit ''stageWindowBytes'' (stage_window_bytes demand) (lim_stage_window_bytes (limits self))) (\<lambda>_.
     and_then (check_limit ''concurrency'' (concurrency demand) (max_concurrency (limits self))) (\<lambda>_.
     Ok \<lparr>memory_soft_limit_exceeded =
           (case (owned_estimate_bytes demand, memory_soft_bytes (limits self)) of
              (Some r, Some l) \<Rightarrow> l < r | _ \<Rightarrow> False)\<rparr>)))))))))"

fun error_code :: "resource_error \<Rightarrow> string" where
  "error_code (AdmissionRejected _ _ _) = ''resource_admission_rejected''"
| "error_code (InvalidProfile _) = ''resource_admission_rejected''"
| "error_code (ArtifactLimitExceeded _ _ _) = ''artifact_limit_exceeded''"
| "error_code (Cancelled _) = ''operation_cancelled''"

subsection \<open>Cancellation\<close>

record cancellation_token =
  cancelled :: bool

definition cancel :: "cancellation_token \<Rightarrow> cancellation_token" where
  "cancel self = self\<lparr>cancelled := True\<rparr>"

definition is_cancelled :: "cancellation_token \<Rightarrow> bool" where
  "is_cancelled self = cancelled self"

definition check_cancel :: "cancellation_token \<Rightarrow> string \<Rightarrow> (resource_error, unit) result" where
  "check_cancel self stage = (if is_cancelled self then Err (Cancelled stage) else Ok ())"

subsection \<open>Measurement\<close>

datatype fs_node =
    FsError
  | FsFile u64
  | FsOther
  | FsUnreadable
  | FsDir "fs_node list"

fun directory_bytes :: "fs_node \<Rightarrow> u64 option"
  and directory_total :: "u64 \<Rightarrow> fs_node list \<Rightarrow> u64 option" where
  "directory_bytes FsError = None"
| "directory_bytes (FsFile n) = Some n"
| "directory_bytes FsOther = Some 0"
| "directory_bytes FsUnreadable = None"
| "directory_bytes (FsDir es) = directory_total 0 es"
| "directory_total acc [] = Some acc"
| "directory_total acc (e # es) =
     (case directory_bytes e of
        None \<Rightarrow> None
      | Some n \<Rightarrow> (case checked_add acc n of
                    None \<Rightarrow> None
                  | Some t \<Rightarrow> directory_total t es))"

type_synonym pseudo_files = "string \<Rightarrow> string option"

definition process_rss_bytes :: "pseudo_files \<Rightarrow> u64 option" where
  "process_rss_bytes read_to_string =
     Option.bind (read_to_string ''/proc/self/status'') (\<lambda>status.
     Option.bind (find_map (\<lambda>line.
        Option.bind (strip_prefix ''VmRSS:'' line) (\<lambda>rest.
        Option.bind (first_word rest) parse_u64)) (text_lines status)) (\<lambda>kib.
     checked_mul kib 1024))"

definition path_join :: "string \<Rightarrow> string \<Rightarrow> string" where
  "path_join a b =
     (if b \<noteq> [] \<and> hd b = CHR ''/'' then b
      else if a = [] \<or> last a = CHR ''/'' then a @ b else a @ ''/'' @ b)"

definition cgroup_v2_path :: "pseudo_files \<Rightarrow> string option" where
  "cgroup_v2_path read_to_string =
     Option.bind (read_to_string ''/proc/self/cgroup'') (\<lambda>cg.
     Option.bind (find_map (strip_prefix ''0::'') (text_lines cg)) (\<lambda>relative.
     Some (path_join ''/sys/fs/cgroup'' (dropWhile (\<lambda>c. c = CHR ''/'') relative))))"

definition read_u64 :: "pseudo_files \<Rightarrow> string \<Rightarrow> u64 option" where
  "read_u64 read_to_string path = Option.bind (read_to_string path) (\<lambda>s. parse_u64 (trim s))"

definition stat_value :: "string option \<Rightarrow> string \<Rightarrow> u64 option" where
  "stat_value memory_stat name =
     Option.bind memory_stat (\<lambda>s.
     find_map (\<lambda>line. Option.bind (split_once (CHR '' '') line)
                 (\<lambda>(key, v). if key = name then parse_u64 v else None)) (text_lines s))"

definition cgroup_memory :: "pseudo_files \<Rightarrow> cgroup_memory_info" where
  "cgroup_memory read_to_string =
     (case cgroup_v2_path read_to_string of
        None \<Rightarrow> \<lparr>anon_bytes = None, file_bytes = None, current_bytes = None, peak_bytes = None\<rparr>
      | Some base \<Rightarrow>
          let stat = read_to_string (path_join base ''memory.stat'')
          in \<lparr>anon_bytes = stat_value stat ''anon'', file_bytes = stat_value stat ''file'',
              current_bytes = read_u64 read_to_string (path_join base ''memory.current''),
              peak_bytes = read_u64 read_to_string (path_join base ''memory.peak'')\<rparr>)"

definition capture :: "pseudo_files \<Rightarrow> string \<Rightarrow> resource_counters \<Rightarrow> resource_measurement" where
  "capture read_to_string ph cs =
     \<lparr>rm_schema = resource_profile_schema, phase = ph,
      rm_process_rss_bytes = process_rss_bytes read_to_string,
      cgroup = cgroup_memory read_to_string, counters = cs\<rparr>"

subsection \<open>Facts\<close>

text \<open>The pairs of demand and limit, in the order they are checked.\<close>

definition checked_pairs :: "resource_profile \<Rightarrow> resource_demand \<Rightarrow> (string \<times> u64 option \<times> u64 option) list" where
  "checked_pairs prof d =
     [(''ownedEstimateBytes'', owned_estimate_bytes d, memory_hard_bytes (limits prof)),
      (''tempBytes'', temp_bytes d, lim_temp_bytes (limits prof)),
      (''objectDownloadBytes'', object_download_bytes d, lim_object_download_bytes (limits prof)),
      (''objectUploadBytes'', object_upload_bytes d, lim_object_upload_bytes (limits prof)),
      (''cacheBytes'', cache_bytes d, lim_cache_bytes (limits prof)),
      (''stageWindowBytes'', stage_window_bytes d, lim_stage_window_bytes (limits prof)),
      (''concurrency'', concurrency d, max_concurrency (limits prof))]"

fun over :: "string \<times> u64 option \<times> u64 option \<Rightarrow> bool" where
  "over (_, Some r, Some l) = (l < r)"
| "over _ = False"

definition profile_ok :: "resource_profile \<Rightarrow> bool" where
  "profile_ok prof \<longleftrightarrow>
     rp_schema prof = resource_profile_schema \<and>
     (\<forall>soft hard. memory_soft_bytes (limits prof) = Some soft \<longrightarrow>
        memory_hard_bytes (limits prof) = Some hard \<longrightarrow> soft \<le> hard) \<and>
     max_concurrency (limits prof) \<noteq> Some 0"

lemma profile_validate_Ok: "profile_validate prof = Ok u \<longleftrightarrow> profile_ok prof"
  by (cases u) (auto simp: profile_validate_def profile_ok_def and_then_Ok_iff not_less split: option.splits)

lemma check_limit_over:
  "check_limit n r l = (if over (n, r, l) then Err (AdmissionRejected n (the r) (the l)) else Ok ())"
  by (auto simp: check_limit_def ensure_def split: option.split)

subsection \<open>Properties\<close>

text \<open>
  C27. A demand is admitted exactly when the profile is valid (known schema, soft limit not above
  the hard one, positive concurrency), the demanded concurrency is positive and no demanded
  quantity exceeds its limit; the soft-limit flag is then whether the owned estimate exceeds
  the soft limit. For valid inputs the first exceeded limit, in the fixed order, is the one reported.
\<close>

theorem admit_decides:
  "admit prof d =
     (case profile_validate prof of
        Inl e \<Rightarrow> Err e
      | Inr _ \<Rightarrow>
          if concurrency d = Some 0
          then Err (InvalidProfile ''resource demand concurrency must be greater than zero'')
          else case find over (checked_pairs prof d) of
                 Some (n, r, l) \<Rightarrow> Err (AdmissionRejected n (the r) (the l))
               | None \<Rightarrow> Ok \<lparr>memory_soft_limit_exceeded =
                             over ('''', owned_estimate_bytes d, memory_soft_bytes (limits prof))\<rparr>) \<and>
   (profile_validate prof = Ok () \<longleftrightarrow> profile_ok prof)"
proof
  show "profile_validate prof = Ok () \<longleftrightarrow> profile_ok prof" by (rule profile_validate_Ok)
  have soft: "(case (owned_estimate_bytes d, memory_soft_bytes (limits prof)) of
      (Some r, Some l) \<Rightarrow> l < r | _ \<Rightarrow> False) =
      over ('''', owned_estimate_bytes d, memory_soft_bytes (limits prof))"
    by (auto split: option.split)
  show "admit prof d =
     (case profile_validate prof of
        Inl e \<Rightarrow> Err e
      | Inr _ \<Rightarrow>
          if concurrency d = Some 0
          then Err (InvalidProfile ''resource demand concurrency must be greater than zero'')
          else case find over (checked_pairs prof d) of
                 Some (n, r, l) \<Rightarrow> Err (AdmissionRejected n (the r) (the l))
               | None \<Rightarrow> Ok \<lparr>memory_soft_limit_exceeded =
                             over ('''', owned_estimate_bytes d, memory_soft_bytes (limits prof))\<rparr>)"
    unfolding admit_def soft
    by (cases "profile_validate prof")
      (simp_all add: demand_validate_def ensure_def check_limit_over checked_pairs_def)
qed

text \<open>
  The byte total of a directory is the sum over its entries, and it is absent when any entry
  cannot be read or the sum does not fit 64 bits.
\<close>

theorem directory_bytes_correct:
  "directory_bytes (FsDir es) =
     (if (\<forall>e \<in> set es. directory_bytes e \<noteq> None) \<and> (\<Sum>e\<leftarrow>es. the (directory_bytes e)) \<le> u64_max
      then Some (\<Sum>e\<leftarrow>es. the (directory_bytes e)) else None)"
proof -
  have "directory_total t es =
     (if (\<forall>e \<in> set es. directory_bytes e \<noteq> None) \<and> t + (\<Sum>e\<leftarrow>es. the (directory_bytes e)) \<le> u64_max
      then Some (t + (\<Sum>e\<leftarrow>es. the (directory_bytes e))) else None)" if "t \<le> u64_max" for t
    using that
    by (induction es arbitrary: t) (auto simp: checked_add_def split: option.splits)
  then show ?thesis by simp
qed

theorem directory_bytes_correct_witness:
  "directory_bytes (FsDir [FsFile 3, FsDir [FsFile 4, FsOther]]) = Some 7"
  using directory_bytes_correct [of "[FsFile 3, FsDir [FsFile 4, FsOther]]"]
  by (simp add: checked_add_def u64_max_def)

end
