(* ===== verification/Signed_Flow.thy ===== *)
theory Signed_Flow
  imports F64_Exact
begin

text \<open>
  Direction-neutral signed-flow primitives (\<open>solver-worker/src/signed_flow.rs\<close>): the algebraic
  sign of an exchange, the normalization of a quantitative reference, and the resolution of a
  residual coefficient against weighted reference ports. Each \<open>ensure!\<close> and \<open>bail!\<close> is an
  error constructor of its own; the numbers interpolated into a message are its arguments.
\<close>

subsection \<open>Data\<close>

definition signed_flow_closure_tolerance :: f64 where
  "signed_flow_closure_tolerance = round64 (1 / 10 ^ 12)"

datatype signed_flow_direction = Input | Output

datatype technosphere_boundary_policy = Closed | Open | Cutoff

record reference_pivot =
  raw_coefficient :: f64
  scale :: f64
  pivot_coefficient :: f64

record weighted_reference_port =
  wp_reference_coefficient :: f64
  wp_routing_weight :: f64

record balance_contribution =
  bc_reference_coefficient :: f64
  bc_routing_weight :: f64
  activity_requirement :: f64

record signed_flow_balance =
  residual_coefficient :: f64
  contributions :: "balance_contribution list"
  closure_residual :: f64

datatype signed_flow_error =
    UnsupportedBoundaryPolicy string
  | AmountNotFinite
  | CoefficientNotFinite
  | ReferenceNotFinite
  | ReferenceZero
  | ReferenceScaleInvalid
  | ResidualNotFinite
  | ZeroResidualWithPorts
  | NoReferencePort
  | RoutingWeightInvalid
  | RoutingWeightsNotClosed f64
  | PortCoefficientInvalid
  | PortSameSign
  | ActivityInvalid
  | BalanceNotClosed f64

subsection \<open>Operations\<close>

fun direction_sign :: "signed_flow_direction \<Rightarrow> f64" where
  "direction_sign Input = Fin (- 1)"
| "direction_sign Output = Fin 1"

definition boundary_policy_parse :: "string \<Rightarrow> (signed_flow_error, technosphere_boundary_policy) result" where
  "boundary_policy_parse v =
     (if v = ''closed'' then Ok Closed else if v = ''open'' then Ok Open
      else if v = ''cutoff'' then Ok Cutoff else Err (UnsupportedBoundaryPolicy v))"

fun boundary_policy_as_str :: "technosphere_boundary_policy \<Rightarrow> string" where
  "boundary_policy_as_str Closed = ''closed''"
| "boundary_policy_as_str Open = ''open''"
| "boundary_policy_as_str Cutoff = ''cutoff''"

fun requires_closure :: "technosphere_boundary_policy \<Rightarrow> bool" where
  "requires_closure Closed = True"
| "requires_closure _ = False"

definition signed_coefficient :: "signed_flow_direction \<Rightarrow> f64 \<Rightarrow> (signed_flow_error, f64) result" where
  "signed_coefficient direction amount =
     and_then (ensure (is_finite amount) AmountNotFinite) (\<lambda>_.
     let coefficient = f_mul (direction_sign direction) amount in
     and_then (ensure (is_finite coefficient) CoefficientNotFinite) (\<lambda>_. Ok coefficient))"

definition normalize_reference_coefficient :: "f64 \<Rightarrow> (signed_flow_error, reference_pivot) result" where
  "normalize_reference_coefficient raw =
     and_then (ensure (is_finite raw) ReferenceNotFinite) (\<lambda>_.
     and_then (ensure (\<not> f_eq raw (Fin 0)) ReferenceZero) (\<lambda>_.
     let sc = f_recip (f_abs raw); coefficient = f_signum raw in
     and_then (ensure (is_finite sc \<and> f_gt sc (Fin 0)) ReferenceScaleInvalid) (\<lambda>_.
     Ok \<lparr>raw_coefficient = raw, scale = sc, pivot_coefficient = coefficient\<rparr>)))"

definition weight_step :: "f64 \<Rightarrow> weighted_reference_port \<Rightarrow> (signed_flow_error, f64) result" where
  "weight_step weight_sum port =
     and_then (ensure (is_finite (wp_routing_weight port) \<and> f_ge (wp_routing_weight port) (Fin 0))
                      RoutingWeightInvalid) (\<lambda>_.
     Ok (f_add weight_sum (wp_routing_weight port)))"

definition contribution_step ::
    "f64 \<Rightarrow> balance_contribution list \<times> f64 \<Rightarrow> weighted_reference_port \<Rightarrow>
       (signed_flow_error, balance_contribution list \<times> f64) result" where
  "contribution_step residual st port =
     (case st of (cs, balanced) \<Rightarrow>
     let reference = wp_reference_coefficient port in
     and_then (ensure (is_finite reference \<and> \<not> f_eq reference (Fin 0)) PortCoefficientInvalid) (\<lambda>_.
     and_then (ensure (\<not> f_ge (f_mul residual reference) (Fin 0)) PortSameSign) (\<lambda>_.
     let activity = f_mul (f_div (f_neg residual) reference) (wp_routing_weight port) in
     and_then (ensure (is_finite activity \<and> f_ge activity (Fin 0)) ActivityInvalid) (\<lambda>_.
     Ok (cs @ [\<lparr>bc_reference_coefficient = reference, bc_routing_weight = wp_routing_weight port,
                activity_requirement = activity\<rparr>],
         f_add balanced (f_mul reference activity))))))"

definition resolve_weighted_balance ::
    "f64 \<Rightarrow> weighted_reference_port list \<Rightarrow> (signed_flow_error, signed_flow_balance) result" where
  "resolve_weighted_balance residual ports =
     and_then (ensure (is_finite residual) ResidualNotFinite) (\<lambda>_.
     if f_eq residual (Fin 0)
     then and_then (ensure (ports = []) ZeroResidualWithPorts) (\<lambda>_.
          Ok \<lparr>residual_coefficient = residual, contributions = [], closure_residual = Fin 0\<rparr>)
     else
       and_then (ensure (ports \<noteq> []) NoReferencePort) (\<lambda>_.
       and_then (fold_result weight_step (Fin 0) ports) (\<lambda>weight_sum.
       and_then (ensure (is_finite weight_sum \<and>
                   f_le (f_abs (f_sub weight_sum (Fin 1))) signed_flow_closure_tolerance)
                   (RoutingWeightsNotClosed weight_sum)) (\<lambda>_.
       and_then (fold_result (contribution_step residual) ([], Fin 0) ports) (\<lambda>(cs, balanced).
       let closure = f_add residual balanced; closure_scale = f_max (f_abs residual) (Fin 1) in
       and_then (ensure (f_le (f_abs closure) (f_mul signed_flow_closure_tolerance closure_scale))
                   (BalanceNotClosed closure)) (\<lambda>_.
       Ok \<lparr>residual_coefficient = residual, contributions = cs, closure_residual = closure\<rparr>))))))"

subsection \<open>Facts on the loops\<close>

lemma weight_loop_Ok:
  assumes "fold_result weight_step s ports = Ok t"
  shows "(\<forall>p \<in> set ports. is_finite (wp_routing_weight p) \<and> f_ge (wp_routing_weight p) (Fin 0)) \<and>
         t = foldl f_add s (map wp_routing_weight ports)"
  using assms
  by (induction ports arbitrary: s) (auto simp: weight_step_def and_then_Ok_iff)

definition port_activity :: "f64 \<Rightarrow> weighted_reference_port \<Rightarrow> f64" where
  "port_activity residual p =
     f_mul (f_div (f_neg residual) (wp_reference_coefficient p)) (wp_routing_weight p)"

definition port_contribution :: "f64 \<Rightarrow> weighted_reference_port \<Rightarrow> balance_contribution" where
  "port_contribution residual p =
     \<lparr>bc_reference_coefficient = wp_reference_coefficient p, bc_routing_weight = wp_routing_weight p,
      activity_requirement = port_activity residual p\<rparr>"

definition port_ok :: "f64 \<Rightarrow> weighted_reference_port \<Rightarrow> bool" where
  "port_ok residual p \<longleftrightarrow>
     is_finite (wp_reference_coefficient p) \<and> \<not> f_eq (wp_reference_coefficient p) (Fin 0) \<and>
     \<not> f_ge (f_mul residual (wp_reference_coefficient p)) (Fin 0) \<and>
     is_finite (port_activity residual p) \<and> f_ge (port_activity residual p) (Fin 0)"

lemma contribution_step_Ok:
  "contribution_step residual (cs, b) p = Ok st \<longleftrightarrow>
     port_ok residual p \<and>
     st = (cs @ [port_contribution residual p],
           f_add b (f_mul (wp_reference_coefficient p) (port_activity residual p)))"
  by (auto simp: contribution_step_def and_then_Ok_iff Let_def port_ok_def port_contribution_def
      port_activity_def)

lemma contribution_loop_Ok:
  "fold_result (contribution_step residual) (cs, b) ports = Ok (cs', b') \<longleftrightarrow>
     (\<forall>p \<in> set ports. port_ok residual p) \<and> cs' = cs @ map (port_contribution residual) ports \<and>
     b' = foldl f_add b
            (map (\<lambda>p. f_mul (wp_reference_coefficient p) (port_activity residual p)) ports)"
proof (induction ports arbitrary: cs b)
  case Nil
  then show ?case by auto
next
  case (Cons p ports)
  show ?case
    by (auto simp: and_then_Ok_iff contribution_step_Ok Cons.IH)
qed

lemma f_rep_Fin_unit: "f_rep (Fin 1)" "f_rep (Fin (- 1))"
proof -
  have "representable 1" by (rule representableI [of 0]) (auto simp: multiple_of_def exI [of _ "1 :: int"])
  then show "f_rep (Fin 1)" "f_rep (Fin (- 1))"
    using representable_minus by (auto simp: f_rep_def)
qed

text \<open>Multiplying or dividing by plus or minus one is exact.\<close>

lemma f_rep_round64: "f_rep x \<Longrightarrow> f_val x \<noteq> 0 \<Longrightarrow> round64 (f_val x) = x"
proof -
  assume x: "f_rep x" "f_val x \<noteq> 0"
  then obtain q where q: "x = Fin q" by (cases x) (auto simp: f_rep_def)
  with x have "round_val q = q" "q \<noteq> 0" "\<bar>q\<bar> < 2 ^ 1024" by (auto simp: f_rep_def round_val_exact)
  moreover have "round_mag \<bar>q\<bar> = \<bar>q\<bar>"
    using calculation by (cases "0 < q") (auto simp: round_val_def sgn_if)
  ultimately show ?thesis by (simp add: q round64_def Let_def)
qed

lemma f_mul_unit:
  assumes "f_rep x" and "f_val x \<noteq> 0"
  shows "f_mul (Fin 1) x = x" and "f_mul (Fin (- 1)) x = f_neg x" and "f_mul x (Fin 1) = x"
    and "f_mul x (Fin (- 1)) = f_neg x"
proof -
  have fin: "is_finite x" "\<not> is_nan x" "\<not> is_zero x"
    using assms finite_not_special f_rep_finite by (auto simp: is_zero_iff)
  have n: "round64 (- f_val x) = f_neg x"
    using f_rep_round64 [OF f_rep_neg [OF assms(1)]] assms(2) by simp
  show "f_mul (Fin 1) x = x" "f_mul (Fin (- 1)) x = f_neg x" "f_mul x (Fin 1) = x"
    "f_mul x (Fin (- 1)) = f_neg x"
    using fin n f_rep_round64 [OF assms] by (simp_all add: f_mul_def)
qed

lemma f_div_unit:
  assumes "f_rep x" and "f_val x \<noteq> 0"
  shows "f_div x (Fin 1) = x" and "f_div x (Fin (- 1)) = f_neg x"
proof -
  have fin: "is_finite x" "\<not> is_nan x" "\<not> is_zero x"
    using assms finite_not_special f_rep_finite by (auto simp: is_zero_iff)
  have n: "round64 (- f_val x) = f_neg x"
    using f_rep_round64 [OF f_rep_neg [OF assms(1)]] assms(2) by simp
  show "f_div x (Fin 1) = x" "f_div x (Fin (- 1)) = f_neg x"
    using fin n f_rep_round64 [OF assms] by (simp_all add: f_div_def Let_def)
qed

lemma f_mul_pos_ge:
  assumes "0 < p" and "0 < q"
  shows "f_ge (f_mul (Fin p) (Fin q)) (Fin 0)"
proof -
  have "f_mul (Fin p) (Fin q) = round64 (p * q)" using assms by (simp add: f_mul_def)
  with round64_pos [of "p * q"] assms show ?thesis by (auto simp: f_le_def f_lt_def f_eq_def)
qed

lemma tolerance_pos: "\<exists>t. signed_flow_closure_tolerance = Fin t \<and> 0 < t"
proof -
  have "case signed_flow_closure_tolerance of Fin t \<Rightarrow> 0 < t | _ \<Rightarrow> False" by code_simp
  then show ?thesis by (auto split: f64.splits)
qed

lemma f_le_0_tolerance: "f_le (Fin 0) (f_mul signed_flow_closure_tolerance (f_max (Fin q) (Fin 1)))"
proof -
  obtain t where t: "signed_flow_closure_tolerance = Fin t" "0 < t" using tolerance_pos by blast
  have "\<exists>q'. f_max (Fin q) (Fin 1) = Fin q' \<and> 0 < q'" by (auto simp: f_max_def f_lt_def)
  with t f_mul_pos_ge show ?thesis by metis
qed

lemma resolve_weighted_balance_iff:
  assumes "is_finite residual" and "\<not> f_eq residual (Fin 0)"
  shows "resolve_weighted_balance residual ports = Ok b \<longleftrightarrow>
    ports \<noteq> [] \<and>
    (\<forall>p \<in> set ports. is_finite (wp_routing_weight p) \<and> f_ge (wp_routing_weight p) (Fin 0)) \<and>
    (\<forall>p \<in> set ports. port_ok residual p) \<and>
    (let w = foldl f_add (Fin 0) (map wp_routing_weight ports)
     in is_finite w \<and> f_le (f_abs (f_sub w (Fin 1))) signed_flow_closure_tolerance) \<and>
    (let closure = f_add residual (foldl f_add (Fin 0)
         (map (\<lambda>p. f_mul (wp_reference_coefficient p) (port_activity residual p)) ports))
     in f_le (f_abs closure) (f_mul signed_flow_closure_tolerance (f_max (f_abs residual) (Fin 1))) \<and>
        b = \<lparr>residual_coefficient = residual, contributions = map (port_contribution residual) ports,
             closure_residual = closure\<rparr>)"
proof -
  have w: "fold_result weight_step (Fin 0) ports = Ok t \<longleftrightarrow>
      (\<forall>p \<in> set ports. is_finite (wp_routing_weight p) \<and> f_ge (wp_routing_weight p) (Fin 0)) \<and>
      t = foldl f_add (Fin 0) (map wp_routing_weight ports)" for t
  proof -
    have "\<And>s. (\<forall>p \<in> set ports. is_finite (wp_routing_weight p) \<and> f_ge (wp_routing_weight p) (Fin 0)) \<Longrightarrow>
       fold_result weight_step s ports = Ok (foldl f_add s (map wp_routing_weight ports))"
      by (induction ports) (auto simp: weight_step_def ensure_def)
    with weight_loop_Ok [of "Fin 0" ports t] show ?thesis by auto
  qed
  show ?thesis
    using assms
    by (auto simp: resolve_weighted_balance_def and_then_Ok_iff w contribution_loop_Ok Let_def)
qed

lemma single_port_balance:
  assumes "f_rep residual" and "f_val residual \<noteq> 0"
  shows "resolve_weighted_balance residual
           [\<lparr>wp_reference_coefficient = f_neg (f_signum residual), wp_routing_weight = Fin 1\<rparr>] =
         Ok \<lparr>residual_coefficient = residual,
             contributions = [\<lparr>bc_reference_coefficient = f_neg (f_signum residual),
                               bc_routing_weight = Fin 1, activity_requirement = f_abs residual\<rparr>],
             closure_residual = Fin 0\<rparr>"
proof -
  let ?p = "\<lparr>wp_reference_coefficient = f_neg (f_signum residual), wp_routing_weight = Fin 1\<rparr>"
  obtain q where q: "residual = Fin q" "q \<noteq> 0"
    using assms by (cases residual) (auto simp: f_rep_def)
  let ?a = "f_abs residual" and ?s = "f_neg (f_signum residual)"
  have ra: "f_rep ?a" "f_val ?a \<noteq> 0"
    using assms(1) q representable_minus by (auto simp: f_rep_def abs_if)
  have s: "?s = (if 0 < q then Fin (- 1) else Fin 1)" using q by (auto simp: not_less)
  have act: "port_activity residual ?p = ?a"
    using f_div_unit [OF f_rep_neg [OF assms(1)]] f_mul_unit(3) [OF ra] q s
    by (auto simp: port_activity_def)
  have mul: "f_mul residual ?s = f_neg ?a" "f_mul ?s ?a = f_neg residual"
    using f_mul_unit [OF assms] f_mul_unit [OF ra] q s by (auto simp: not_less)
  have add0: "f_add (Fin 0) (f_neg residual) = f_neg residual"
    using f_rep_round64 [OF f_rep_neg [OF assms(1)]] q by (simp add: f_add_def)
  have add1: "f_add residual (f_neg residual) = Fin 0" using q by (simp add: f_add_def)
  have ok: "port_ok residual ?p"
    unfolding port_ok_def act using q s mul by (auto simp: f_le_def f_lt_def f_eq_def)
  have w: "f_add (Fin 0) (Fin 1) = Fin 1" "f_sub (Fin 1) (Fin 1) = Fin 0" "f_ge (Fin 1) (Fin 0)"
    by (simp_all add: f_add_def f_sub_def f_le_def f_lt_def)
  have t: "f_le (Fin 0) signed_flow_closure_tolerance"
  proof -
    obtain r where r: "signed_flow_closure_tolerance = Fin r" "0 < r" using tolerance_pos by blast
    show ?thesis by (subst r(1)) (use r(2) in \<open>simp add: f_le_def f_lt_def\<close>)
  qed
  have fin: "is_finite residual" "\<not> f_eq residual (Fin 0)" using q by (auto simp: f_eq_def)
  have "f_le (Fin 0) (f_mul signed_flow_closure_tolerance (f_max ?a (Fin 1)))"
    using f_le_0_tolerance [of "\<bar>q\<bar>"] q by simp
  then show ?thesis
    unfolding resolve_weighted_balance_iff [OF fin]
    using ok w t act mul(2) add0 add1
    by (simp add: Let_def port_contribution_def)
qed

subsection \<open>Properties\<close>

text \<open>
  C23. Resolving a non-zero residual succeeds exactly when every port's coefficient is finite,
  non-zero and opposite in sign, every weight is finite and non-negative with the weights
  closing to one, every activity is finite and non-negative, and the balance closes within the
  scaled tolerance; the result lists the ports in order with their activities.
\<close>

theorem resolve_weighted_balance_decides:
  assumes "is_finite residual" and "\<not> f_eq residual (Fin 0)"
  shows "resolve_weighted_balance residual ports = Ok b \<longleftrightarrow>
    ports \<noteq> [] \<and>
    (\<forall>p \<in> set ports. is_finite (wp_routing_weight p) \<and> f_ge (wp_routing_weight p) (Fin 0)) \<and>
    (\<forall>p \<in> set ports. port_ok residual p) \<and>
    (let w = foldl f_add (Fin 0) (map wp_routing_weight ports)
     in is_finite w \<and> f_le (f_abs (f_sub w (Fin 1))) signed_flow_closure_tolerance) \<and>
    (let closure = f_add residual (foldl f_add (Fin 0)
         (map (\<lambda>p. f_mul (wp_reference_coefficient p) (port_activity residual p)) ports))
     in f_le (f_abs closure) (f_mul signed_flow_closure_tolerance (f_max (f_abs residual) (Fin 1))) \<and>
        b = \<lparr>residual_coefficient = residual, contributions = map (port_contribution residual) ports,
             closure_residual = closure\<rparr>)"
  using assms by (rule resolve_weighted_balance_iff)

theorem resolve_weighted_balance_decides_witness:
  "is_finite (Fin 2) \<and> \<not> f_eq (Fin 2) (Fin 0) \<and>
   (\<forall>b. resolve_weighted_balance (Fin 2)
          [\<lparr>wp_reference_coefficient = Fin 1, wp_routing_weight = Fin 1\<rparr>] \<noteq> Ok b)"
proof -
  have "f_mul (Fin 2) (Fin 1) = Fin 2" by (simp add: f_mul_def)
  then have "\<not> port_ok (Fin 2) \<lparr>wp_reference_coefficient = Fin 1, wp_routing_weight = Fin 1\<rparr>"
    by (simp add: port_ok_def f_le_def f_lt_def)
  moreover have "is_finite (Fin 2)" "\<not> f_eq (Fin 2) (Fin 0)" by (simp_all add: f_eq_def)
  ultimately show ?thesis
    using resolve_weighted_balance_decides [of "Fin 2"
        "[\<lparr>wp_reference_coefficient = Fin 1, wp_routing_weight = Fin 1\<rparr>]"] by simp
qed

text \<open>
  A residual routed entirely to one normalized port of the opposite sign is resolved exactly:
  the activity is the magnitude of the residual and the balance closes with residual zero.
\<close>

theorem single_port_exact:
  assumes "f_rep residual" and "f_val residual \<noteq> 0"
  shows "resolve_weighted_balance residual
           [\<lparr>wp_reference_coefficient = f_neg (f_signum residual), wp_routing_weight = Fin 1\<rparr>] =
         Ok \<lparr>residual_coefficient = residual,
             contributions = [\<lparr>bc_reference_coefficient = f_neg (f_signum residual),
                               bc_routing_weight = Fin 1, activity_requirement = f_abs residual\<rparr>],
             closure_residual = Fin 0\<rparr>"
  using assms by (rule single_port_balance)

theorem single_port_exact_witness:
  "f_rep (Fin 1) \<and> resolve_weighted_balance (Fin 1)
     [\<lparr>wp_reference_coefficient = Fin (- 1), wp_routing_weight = Fin 1\<rparr>] =
   Ok \<lparr>residual_coefficient = Fin 1,
       contributions = [\<lparr>bc_reference_coefficient = Fin (- 1), bc_routing_weight = Fin 1,
                         activity_requirement = Fin 1\<rparr>],
       closure_residual = Fin 0\<rparr>"
  using single_port_exact [OF f_rep_Fin_unit(1)] f_rep_Fin_unit by simp

text \<open>
  The boundary policy identifiers round-trip: a string parses to a policy exactly when it is
  that policy's identifier.
\<close>

lemma boundary_policy_roundtrip:
  "boundary_policy_parse v = Ok p \<longleftrightarrow> v = boundary_policy_as_str p"
  by (cases p) (auto simp: boundary_policy_parse_def)

text \<open>
  An exchange's coefficient is its amount, negated for an input, with no rounding; an amount
  that is not finite is rejected.
\<close>

theorem signed_coefficient_exact:
  "(f_rep x \<longrightarrow> signed_coefficient d x = Ok (case d of Input \<Rightarrow> f_neg x | Output \<Rightarrow> x)) \<and>
   (\<not> is_finite x \<longrightarrow> signed_coefficient d x = Err AmountNotFinite)"
proof (cases "f_rep x \<and> f_val x \<noteq> 0")
  case True
  then show ?thesis
    using f_mul_unit [of x] f_rep_finite [of x] by (cases d) (auto simp: signed_coefficient_def ensure_def)
next
  case False
  then have "x = Fin 0 \<or> x = NegZero \<or> \<not> f_rep x"
    by (cases x) (auto simp: f_rep_def)
  then show ?thesis
    by (cases d) (auto simp: signed_coefficient_def ensure_def f_mul_def zero_of_def)
qed

theorem signed_coefficient_exact_witness:
  "signed_coefficient Input (Fin 1) = Ok (Fin (- 1)) \<and> signed_coefficient Output PosInf = Err AmountNotFinite"
  using signed_coefficient_exact [of "Fin 1" Input] signed_coefficient_exact [of PosInf Output]
    f_rep_Fin_unit by simp

end
