(* ===== verification/Compiled_Graph.thy ===== *)
theory Compiled_Graph
  imports Signed_Flow Rust_Text
begin

text \<open>
  The compiled process graph (\<open>solver-worker/src/compiled_graph.rs\<close>, \<open>graph_types.rs\<close> and the
  exchange direction of \<open>calculation_evidence.rs\<close>): the records a snapshot build produces, and
  the request roots it starts from. Field names carry a short prefix of their record where
  several records share a name. UUID parsing and printing are arguments.
\<close>

subsection \<open>Scope\<close>

datatype snapshot_selection_mode = FilteredLibrary | RequestRootsClosure

fun selection_mode_as_str :: "snapshot_selection_mode \<Rightarrow> string" where
  "selection_mode_as_str FilteredLibrary = ''filtered_library''"
| "selection_mode_as_str RequestRootsClosure = ''request_roots_closure''"

datatype scope_process_partition = Public | Private

record request_root_process =
  rr_process_id :: uuid
  rr_process_version :: string

definition request_root_new :: "uuid \<Rightarrow> string \<Rightarrow> request_root_process" where
  "request_root_new process_id process_version =
     \<lparr>rr_process_id = process_id, rr_process_version = trim process_version\<rparr>"

definition request_root_display :: "(uuid \<Rightarrow> string) \<Rightarrow> request_root_process \<Rightarrow> string" where
  "request_root_display show_uuid r = show_uuid (rr_process_id r) @ ''@'' @ rr_process_version r"

datatype request_root_error =
    RootWithoutSeparator string
  | RootInvalidId string
  | RootMissingVersion string

definition request_root_from_str ::
    "(string \<Rightarrow> uuid option) \<Rightarrow> string \<Rightarrow> (request_root_error, request_root_process) result" where
  "request_root_from_str parse_uuid input =
     (let trimmed = trim input in
      and_then (ok_or (split_once (CHR ''@'') trimmed) (RootWithoutSeparator trimmed)) (\<lambda>(pid, version).
      and_then (ok_or (parse_uuid (trim pid)) (RootInvalidId (trim pid))) (\<lambda>process_id.
      let process_version = trim version in
      and_then (ensure (process_version \<noteq> []) (RootMissingVersion trimmed)) (\<lambda>_.
      Ok (request_root_new process_id process_version)))))"

record resolved_scope_process =
  rs_process_id :: uuid
  rs_process_version :: string
  rs_partition :: scope_process_partition

subsection \<open>Flows and directions\<close>

datatype compiled_flow_kind = ProductFlow | ElementaryFlow

datatype compiled_flow_space = Technosphere | Biosphere | Reporting

datatype compiled_source_flow_type = SourceProduct | SourceWaste | SourceElementary | SourceOther

datatype compiled_exchange_direction = CompiledInput | CompiledOutput

datatype exchange_direction = ExInput | ExOutput

fun direction_as_str :: "exchange_direction \<Rightarrow> string" where
  "direction_as_str ExInput = ''Input''"
| "direction_as_str ExOutput = ''Output''"

fun signed_flow_direction_of :: "exchange_direction \<Rightarrow> signed_flow_direction" where
  "signed_flow_direction_of ExInput = Input"
| "signed_flow_direction_of ExOutput = Output"

datatype compiled_edge_partition = PublicToPublic | PublicToPrivate | PrivateToPublic | PrivateToPrivate

fun from_partitions :: "scope_process_partition \<Rightarrow> scope_process_partition \<Rightarrow> compiled_edge_partition" where
  "from_partitions Public Public = PublicToPublic"
| "from_partitions Public Private = PublicToPrivate"
| "from_partitions Private Public = PrivateToPublic"
| "from_partitions Private Private = PrivateToPrivate"

subsection \<open>Processes, flows and ports\<close>

record compiled_process =
  cp_process_idx :: i32
  cp_process_id :: uuid
  cp_process_version :: string
  cp_process_name :: "string option"
  cp_model_id :: "uuid option"
  cp_model_version :: "string option"
  cp_location :: "string option"
  cp_reference_year :: "i32 option"
  cp_annual_volume :: "f64 option"
  cp_partition :: scope_process_partition

record compiled_flow =
  cfl_flow_idx :: i32
  cfl_flow_id :: uuid
  cfl_flow_version :: string
  cfl_kind :: compiled_flow_kind
  cfl_space :: compiled_flow_space
  cfl_source_type :: compiled_source_flow_type

record compiled_reference_port =
  crp_process_idx :: i32
  crp_flow_id :: uuid
  crp_flow_version :: string
  crp_reference_exchange_internal_id :: string
  crp_coefficient :: f64
  crp_raw_direction :: compiled_exchange_direction
  crp_raw_amount :: f64
  crp_signed_raw_coefficient :: f64
  crp_source_flow_type :: compiled_source_flow_type

record compiled_balance_resolution =
  cbr_dependent_process_idx :: i32
  cbr_residual_exchange_internal_id :: string
  cbr_balancing_process_idx :: i32
  cbr_balancing_reference_exchange_internal_id :: string
  cbr_flow_id :: uuid
  cbr_flow_version :: string
  cbr_residual_coefficient :: f64
  cbr_reference_coefficient :: f64
  cbr_routing_weight :: f64
  cbr_activity_requirement :: f64

record compiled_unresolved_balance =
  cub_dependent_process_idx :: i32
  cub_residual_exchange_internal_id :: string
  cub_flow_id :: uuid
  cub_flow_version :: string
  cub_residual_coefficient :: f64
  cub_required_reference_sign :: f64
  cub_candidate_count :: i32
  cub_opposite_sign_candidate_count :: i32

subsection \<open>Provider decisions\<close>

record compiled_provider_allocation =
  cpl_provider_idx :: i32
  cpl_weight :: f64

datatype candidate_eligibility =
    UnknownEligibility | AcceptedReferenceOutput | RejectedNonReferenceOutput
  | AcceptedOppositeSignReference | RejectedSameSignReference

datatype lineage_relationship =
    ModelResultAndComponent | SelectedAndSupersededModelResult | AlternativeModelResult

datatype lineage_rejection_reason =
    ModelComponentOfSelectedResult | SupersededModelResult | RejectedAlternativeModelResult
  | NotSelectedByExactModelResult | OverlapRequiresBinding

datatype output_allocation_state = UnknownAllocation | PresentAllocation | MissingAllocation | InvalidAllocation

record compiled_provider_candidate =
  cpc_provider_idx :: i32
  cpc_provider_id :: uuid
  cpc_provider_version :: string
  cpc_model_id :: "uuid option"
  cpc_model_version :: "string option"
  cpc_output_exchange_internal_id :: "string option"
  cpc_output_exchange_is_reference :: bool
  cpc_output_normalized_amount :: "f64 option"
  cpc_output_allocation_state :: output_allocation_state
  cpc_eligibility :: candidate_eligibility
  cpc_process_name :: "string option"
  cpc_location :: "string option"
  cpc_reference_year :: "i32 option"
  cpc_annual_volume :: "f64 option"
  cpc_reference_exchange_internal_id :: "string option"
  cpc_reference_coefficient :: "f64 option"
  cpc_lineage_relationships :: "lineage_relationship list"
  cpc_lineage_rejection_reason :: "lineage_rejection_reason option"

datatype provider_decision_kind = UniqueProvider | MultiResolved | MultiUnresolved | NoProvider

datatype provider_resolution_strategy =
    StrategyUniqueProvider | StrategySelectedModelResult | StrategyBestProviderStrict
  | StrategySplitByEvidence | StrategySplitByProcessVolume | StrategySplitEqual
  | StrategySplitEqualFallback

datatype geography_tier = LocalSubnational | SameCountry | SameRegion | GlobalTier | OtherTier

datatype supply_region_source = ExchangeLocation | ConsumerProcessLocation | UnspecifiedSource

datatype provider_failure_reason =
    NoProviderCandidates | RejectedNonReferenceOnly | RuleRequiresUniqueProvider
  | NoCandidateGeMinScore | Top1BelowTop1MinScore | Top1Top2RatioTooClose | ScoreSumNonPositive
  | NoOppositeSignReference | LineageOverlapRequiresBinding

record compiled_provider_decision =
  cpd_consumer_idx :: i32
  cpd_flow_id :: uuid
  cpd_flow_version :: string
  cpd_candidate_provider_count :: i32
  cpd_matched_provider_count :: i32
  cpd_candidates :: "compiled_provider_candidate list"
  cpd_decision_kind :: "provider_decision_kind option"
  cpd_resolution_strategy :: "provider_resolution_strategy option"
  cpd_failure_reason :: "provider_failure_reason option"
  cpd_used_equal_fallback :: bool
  cpd_volume_fallback_to_one_count :: i32
  cpd_geography_tier :: "geography_tier option"
  cpd_supply_region_source :: "supply_region_source option"
  cpd_supply_region_location :: "string option"
  cpd_exchange_location_present :: bool
  cpd_allocations :: "compiled_provider_allocation list"

subsection \<open>Edges and statistics\<close>

record compiled_technosphere_edge =
  cte_provider_idx :: i32
  cte_consumer_idx :: i32
  cte_flow_id :: uuid
  cte_amount :: f64
  cte_provider_partition :: scope_process_partition
  cte_consumer_partition :: scope_process_partition
  cte_partition :: compiled_edge_partition

record compiled_biosphere_edge =
  cbe_process_idx :: i32
  cbe_flow_idx :: i32
  cbe_amount :: f64
  cbe_process_partition :: scope_process_partition

record compiled_provider_output =
  cpo_flow_id :: uuid
  cpo_provider_idx :: i32
  cpo_output_exchange_internal_id :: "string option"
  cpo_output_exchange_is_reference :: bool
  cpo_output_normalized_amount :: "f64 option"
  cpo_output_allocation_state :: output_allocation_state
  cpo_eligibility :: candidate_eligibility
  cpo_reference_coefficient :: "f64 option"
  cpo_reference_direction :: "compiled_exchange_direction option"

record compiled_matching_stats =
  input_edges_total :: int
  matched_unique_provider :: int
  matched_multi_provider :: int
  unmatched_no_provider :: int
  matched_multi_resolved :: int
  matched_multi_unresolved :: int
  matched_multi_fallback_equal :: int
  a_input_edges_written :: int
  residual_edges_total :: int
  a_balance_edges_written :: int

definition matching_stats_default :: compiled_matching_stats where
  "matching_stats_default =
     \<lparr>input_edges_total = 0, matched_unique_provider = 0, matched_multi_provider = 0,
      unmatched_no_provider = 0, matched_multi_resolved = 0, matched_multi_unresolved = 0,
      matched_multi_fallback_equal = 0, a_input_edges_written = 0, residual_edges_total = 0,
      a_balance_edges_written = 0\<rparr>"

record compiled_release_technosphere_edge =
  cre_dependent_process_idx :: i32
  cre_residual_exchange_internal_id :: string
  cre_balancing_process_idx :: i32
  cre_balancing_reference_exchange_internal_id :: string
  cre_residual_coefficient :: f64
  cre_reference_coefficient :: f64
  cre_routing_weight :: f64
  cre_activity_requirement :: f64
  cre_flow_id :: uuid
  cre_flow_version :: string
  cre_location :: "string option"

subsection \<open>Request roots\<close>

text \<open>
  C33. A request root survives printing and parsing: when the UUID printer and parser are
  inverse and a printed UUID has neither white space nor an at sign, parsing what a built root
  prints, with any white space around it, returns that root, provided its version is not blank.
\<close>

theorem request_root_roundtrip:
  assumes "\<And>u. parse_uuid (show_uuid u) = Some u"
    and "\<And>u. show_uuid u \<noteq> [] \<and> (\<forall>c \<in> set (show_uuid u). \<not> is_ws c \<and> c \<noteq> CHR ''@'')"
    and "trim version \<noteq> []" and "\<forall>c \<in> set before. is_ws c" and "\<forall>c \<in> set after. is_ws c"
  shows "request_root_from_str parse_uuid
           (before @ request_root_display show_uuid (request_root_new u version) @ after) =
         Ok (request_root_new u version)"
proof -
  let ?s = "show_uuid u @ CHR ''@'' # trim version"
  have ends: "\<not> is_ws (hd ?s)" "\<not> is_ws (last ?s)" "?s \<noteq> []"
    using assms(2) [of u] trim_ends [of version] assms(3) by (cases "show_uuid u", auto)+
  have "trim (before @ ?s @ after) = trim ?s"
    by (rule trim_surrounded) (use assms(4,5) ends in blast)+
  also have "\<dots> = ?s" using ends by (intro trim_id) simp
  finally have "trim (before @ ?s @ after) = ?s" .
  moreover have "split_once (CHR ''@'') ?s = Some (show_uuid u, trim version)"
    using assms(2) [of u] by (intro split_once_first) blast
  moreover have "trim (show_uuid u) = show_uuid u" using assms(2) [of u] by (intro trim_no_ws) blast
  ultimately show ?thesis
    using assms(1,3)
    by (simp add: request_root_from_str_def request_root_display_def request_root_new_def Let_def ensure_def)
qed

text \<open>Instance: UUIDs printed as their 128 bits, lowest first.\<close>

definition show_bits :: "uuid \<Rightarrow> string" where
  "show_bits u = map (\<lambda>i. if bit u i then CHR ''1'' else CHR ''0'') [0..<128]"

definition parse_bits :: "string \<Rightarrow> uuid option" where
  "parse_bits s = Some (horner_sum of_bool 2 (map (\<lambda>c. c = CHR ''1'') s))"

lemma parse_show_bits: "parse_bits (show_bits u) = Some u"
proof -
  have "map (\<lambda>c. c = CHR ''1'') (show_bits u) = map (bit u) [0..<128]"
    by (simp add: show_bits_def)
  then have "parse_bits (show_bits u) = Some (take_bit 128 u)"
    by (simp only: parse_bits_def horner_sum_bit_eq_take_bit)
  then show ?thesis by (simp add: take_bit_word_eq_self)
qed

lemma show_bits_plain: "show_bits u \<noteq> [] \<and> (\<forall>c \<in> set (show_bits u). \<not> is_ws c \<and> c \<noteq> CHR ''@'')"
  by (auto simp: show_bits_def is_ws_def)

theorem request_root_roundtrip_witness:
  "request_root_from_str parse_bits
     ('' '' @ request_root_display show_bits (request_root_new 7 ''01.00 '') @ [CHR 0x0A]) =
   Ok (request_root_new 7 ''01.00 '')"
  by (rule request_root_roundtrip [OF parse_show_bits show_bits_plain])
    (simp_all add: trim_def is_ws_def)

end
