(* ===== verification/Json.thy ===== *)
theory Json
  imports Rust_Text F64_Exact
begin

text \<open>
  JSON values as \<open>serde_json::Value\<close> holds them: a number is a non-negative integer, a negative
  integer or a float, an object is its list of members with distinct keys in key order (the
  crate's default map). \<open>json_get\<close>, \<open>json_pointer\<close> and \<open>as_str\<close> are \<open>Value::get\<close> with a string
  index, \<open>Value::pointer\<close> on a path of names and \<open>Value::as_str\<close>.
\<close>

datatype json_number = PosInt nat | NegInt int | Float f64

datatype json =
    JNull
  | JBool bool
  | JNumber json_number
  | JString string
  | JArray "json list"
  | JObject "(string \<times> json) list"

fun as_str :: "json \<Rightarrow> string option" where
  "as_str (JString s) = Some s"
| "as_str _ = None"

fun as_object :: "json \<Rightarrow> (string \<times> json) list option" where
  "as_object (JObject m) = Some m"
| "as_object _ = None"

fun json_get :: "string \<Rightarrow> json \<Rightarrow> json option" where
  "json_get k (JObject m) = map_of m k"
| "json_get k _ = None"

fun json_pointer :: "string list \<Rightarrow> json \<Rightarrow> json option" where
  "json_pointer [] v = Some v"
| "json_pointer (k # ks) v = Option.bind (json_get k v) (json_pointer ks)"

end
