(* ===== verification/Provider_Lineage.thy ===== *)
theory Provider_Lineage
  imports Compiled_Graph Json "HOL-Library.AList"
begin

text \<open>
  Provider lineage in the snapshot builder (\<open>solver-worker/src/bin/snapshot_builder.rs\<close>): which
  processes are results or components of which life-cycle models, and the gate that keeps a
  model's result and its components from both supplying the same flow. Hash maps are
  association lists and hash sets duplicate-free lists; the order in which the code visits the
  keys of the model map is an argument, while the sets of components and of models of a result are
  visited in the order of their lists. The set of models being expanded is restored on return,
  so it is passed down and not returned.
\<close>

subsection \<open>Identities and process metadata\<close>

record versioned_process_identity =
  vp_process_id :: uuid
  vp_process_version :: string

definition versioned_process_new :: "uuid \<Rightarrow> string \<Rightarrow> versioned_process_identity" where
  "versioned_process_new i v = \<lparr>vp_process_id = i, vp_process_version = trim v\<rparr>"

record versioned_model_identity =
  vm_model_id :: uuid
  vm_model_version :: string

definition versioned_model_new :: "uuid \<Rightarrow> string \<Rightarrow> versioned_model_identity" where
  "versioned_model_new i v = \<lparr>vm_model_id = i, vm_model_version = trim v\<rparr>"

record process_meta =
  pm_process_idx :: i32
  pm_process_id :: uuid
  pm_process_version :: string
  pm_process_name :: "string option"
  pm_model_id :: "uuid option"
  pm_model_version :: "string option"
  pm_location :: "string option"
  pm_reference_year :: "i32 option"
  pm_annual_volume :: "f64 option"

definition process_identity :: "process_meta \<Rightarrow> versioned_process_identity" where
  "process_identity meta = versioned_process_new (pm_process_id meta) (pm_process_version meta)"

definition process_meta_for_idx :: "process_meta list \<Rightarrow> i32 \<Rightarrow> process_meta option" where
  "process_meta_for_idx metas i =
     Option.bind (usize_try_from i) (\<lambda>k. if k < length metas then Some (metas ! k) else None)"

record lifecycle_model_row =
  lm_identity :: versioned_model_identity
  lm_json :: json

record provider_lineage_index =
  model_components :: "(versioned_model_identity \<times> versioned_process_identity list) list"
  result_models :: "(versioned_process_identity \<times> versioned_model_identity list) list"
  component_models :: "(versioned_process_identity \<times> versioned_model_identity list) list"
  selected_results :: "versioned_process_identity list"

record provider_lineage_gate =
  gate_providers :: "i32 list"
  relationships_by_provider :: "(i32 \<times> lineage_relationship list) list"
  rejection_by_provider :: "(i32 \<times> lineage_rejection_reason) list"
  selected_model_result :: "i32 option"
  gate_unresolved :: bool

text \<open>\<open>m.entry(k).or_default().insert(v)\<close> and \<open>m.get(k)\<close> with an absent key read as empty.\<close>

fun entry_insert :: "'k \<Rightarrow> 'v \<Rightarrow> ('k \<times> 'v list) list \<Rightarrow> ('k \<times> 'v list) list" where
  "entry_insert k v [] = [(k, [v])]"
| "entry_insert k v ((k', vs) # m) =
     (if k = k' then (k', List.insert v vs) # m else (k', vs) # entry_insert k v m)"

definition get_list :: "('k \<times> 'v list) list \<Rightarrow> 'k \<Rightarrow> 'v list" where
  "get_list m k = unwrap_or (map_of m k) []"

lemma get_list_mem: "v \<in> set (get_list m k) \<longleftrightarrow> (\<exists>vs. map_of m k = Some vs \<and> v \<in> set vs)"
  by (cases "map_of m k") (auto simp: get_list_def)

subsection \<open>References of a life-cycle model\<close>

fun collect_exact_process_references ::
    "(string \<Rightarrow> uuid option) \<Rightarrow> json \<Rightarrow> versioned_process_identity list"
  and collect_items :: "(string \<Rightarrow> uuid option) \<Rightarrow> json list \<Rightarrow> versioned_process_identity list"
  and collect_members :: "(string \<Rightarrow> uuid option) \<Rightarrow> (string \<times> json) list \<Rightarrow> versioned_process_identity list"
where
  "collect_exact_process_references parse_uuid (JArray items) = collect_items parse_uuid items"
| "collect_exact_process_references parse_uuid (JObject m) =
     (case (Option.bind (map_of m ''@refObjectId'') (\<lambda>v. Option.bind (as_str v) (\<lambda>s. parse_uuid (trim s))),
            Option.bind (map_of m ''@version'') (\<lambda>v. Option.bind (as_str v) trim_nonempty)) of
        (Some i, Some version) \<Rightarrow> [versioned_process_new i version]
      | _ \<Rightarrow> []) @ collect_members parse_uuid m"
| "collect_exact_process_references parse_uuid _ = []"
| "collect_items parse_uuid [] = []"
| "collect_items parse_uuid (v # vs) =
     collect_exact_process_references parse_uuid v @ collect_items parse_uuid vs"
| "collect_members parse_uuid [] = []"
| "collect_members parse_uuid ((k, v) # m) =
     collect_exact_process_references parse_uuid v @ collect_members parse_uuid m"

definition lifecycle_model_result_references ::
    "(string \<Rightarrow> uuid option) \<Rightarrow> json \<Rightarrow> versioned_process_identity list" where
  "lifecycle_model_result_references parse_uuid j =
     (case json_pointer [''lifeCycleModelDataSet'', ''lifeCycleModelInformation'',
             ''dataSetInformation'', ''referenceToResultingProcess''] j of
        None \<Rightarrow> []
      | Some v \<Rightarrow> remdups (collect_exact_process_references parse_uuid v))"

definition instance_references ::
    "(string \<Rightarrow> uuid option) \<Rightarrow> json \<Rightarrow> versioned_process_identity list" where
  "instance_references parse_uuid item =
     (case json_get ''referenceToProcess'' item of
        None \<Rightarrow> []
      | Some r \<Rightarrow> collect_exact_process_references parse_uuid r)"

definition lifecycle_model_component_references ::
    "(string \<Rightarrow> uuid option) \<Rightarrow> json \<Rightarrow> versioned_process_identity list" where
  "lifecycle_model_component_references parse_uuid j =
     (case json_pointer [''lifeCycleModelDataSet'', ''lifeCycleModelInformation'',
             ''technology'', ''processes'', ''processInstance''] j of
        None \<Rightarrow> []
      | Some (JArray items) \<Rightarrow> remdups (concat (map (instance_references parse_uuid) items))
      | Some (JObject m) \<Rightarrow> remdups (instance_references parse_uuid (JObject m))
      | Some _ \<Rightarrow> [])"

subsection \<open>The lineage index\<close>

definition nested_models ::
    "(versioned_process_identity \<times> versioned_model_identity list) list \<Rightarrow> versioned_model_identity \<Rightarrow>
       versioned_process_identity list \<Rightarrow> versioned_model_identity list" where
  "nested_models results model comps = filter (\<lambda>m. m \<noteq> model) (concat (map (get_list results) comps))"

definition known_models ::
    "(versioned_process_identity \<times> versioned_model_identity list) list \<Rightarrow> versioned_model_identity set" where
  "known_models results = (\<Union>e \<in> set results. set (snd e))"

lemma nested_models_known: "m \<in> set (nested_models results model comps) \<Longrightarrow> m \<in> known_models results"
proof -
  assume "m \<in> set (nested_models results model comps)"
  then obtain c ms where "map_of results c = Some ms" "m \<in> set ms"
    by (auto simp: nested_models_def get_list_mem)
  then show ?thesis by (auto simp: known_models_def dest!: map_of_SomeD intro!: bexI)
qed

lemma expansion_measure:
  assumes "nested \<in> known_models results" and "model \<notin> set visiting"
  shows "card (insert nested (known_models results) - set (model # visiting))
       < card (insert model (known_models results) - set visiting)"
proof (rule psubset_card_mono)
  show "insert nested (known_models results) - set (model # visiting)
      \<subset> insert model (known_models results) - set visiting"
    using assms by auto
qed (simp add: known_models_def)

lemma finite_known_models [simp]: "finite (known_models results)"
  by (auto simp: known_models_def)

function expand_model_components ::
    "(versioned_model_identity \<times> versioned_process_identity list) list \<Rightarrow>
     (versioned_process_identity \<times> versioned_model_identity list) list \<Rightarrow> versioned_model_identity \<Rightarrow>
     (versioned_model_identity \<times> versioned_process_identity list) list \<Rightarrow> versioned_model_identity list \<Rightarrow>
     versioned_process_identity list \<times> (versioned_model_identity \<times> versioned_process_identity list) list" where
  "expand_model_components direct_components results model memo visiting =
     (case map_of memo model of
        Some cached \<Rightarrow> (cached, memo)
      | None \<Rightarrow>
          if model \<in> set visiting then ([], memo)
          else
            let direct = get_list direct_components model;
                (expanded, memo1) =
                  foldl (\<lambda>s nested.
                     let (sub, memo2) = expand_model_components direct_components results nested (snd s)
                                          (model # visiting)
                     in (List.union sub (fst s), memo2))
                    (direct, memo) (nested_models results model direct)
            in (expanded, AList.update model expanded memo1))"
  by pat_completeness auto
termination
  by (relation "measure (\<lambda>(direct, results, model, memo, visiting).
          card (insert model (known_models results) - set visiting))")
    (use expansion_measure in \<open>auto dest: nested_models_known\<close>)

declare expand_model_components.simps [simp del]

definition add_model_row ::
    "(string \<Rightarrow> uuid option) \<Rightarrow>
     (versioned_model_identity \<times> versioned_process_identity list) list \<times>
     (versioned_process_identity \<times> versioned_model_identity list) list \<Rightarrow> lifecycle_model_row \<Rightarrow>
     (versioned_model_identity \<times> versioned_process_identity list) list \<times>
     (versioned_process_identity \<times> versioned_model_identity list) list" where
  "add_model_row parse_uuid s model =
     (AList.update (lm_identity model) (lifecycle_model_component_references parse_uuid (lm_json model)) (fst s),
      foldl (\<lambda>rm result. entry_insert result (lm_identity model) rm) (snd s)
        (lifecycle_model_result_references parse_uuid (lm_json model)))"

definition expand_step ::
    "(versioned_model_identity \<times> versioned_process_identity list) list \<Rightarrow>
     (versioned_process_identity \<times> versioned_model_identity list) list \<Rightarrow>
     (versioned_model_identity \<times> versioned_process_identity list) list \<Rightarrow> versioned_model_identity \<Rightarrow>
     (versioned_model_identity \<times> versioned_process_identity list) list" where
  "expand_step direct results memo model =
     (let (expanded, memo1) = expand_model_components direct results model memo []
      in AList.update model expanded memo1)"

definition invert_components ::
    "(versioned_model_identity \<times> versioned_process_identity list) list \<Rightarrow>
     (versioned_process_identity \<times> versioned_model_identity list) list" where
  "invert_components mc =
     foldl (\<lambda>cm (model, comps). foldl (\<lambda>cm1 c. entry_insert c model cm1) cm comps) [] mc"

definition build_provider_lineage_index ::
    "(string \<Rightarrow> uuid option) \<Rightarrow> (versioned_model_identity list \<Rightarrow> versioned_model_identity list) \<Rightarrow>
     lifecycle_model_row list \<Rightarrow> request_root_process list \<Rightarrow> provider_lineage_index" where
  "build_provider_lineage_index parse_uuid key_order models request_roots =
     (let (direct, results) = foldl (add_model_row parse_uuid) ([], []) models;
          components = foldl (expand_step direct results) [] (key_order (map fst direct))
      in \<lparr>model_components = components, result_models = results,
          component_models = invert_components components,
          selected_results =
            remdups (filter (\<lambda>r. map_of results r \<noteq> None)
              (map (\<lambda>root. versioned_process_new (rr_process_id root) (rr_process_version root))
                request_roots))\<rparr>)"

subsection \<open>The gate\<close>

definition disjoint_lists :: "'a list \<Rightarrow> 'a list \<Rightarrow> bool" where
  "disjoint_lists xs ys = list_all (\<lambda>x. x \<notin> set ys) xs"

text \<open>A result of one and a component of the other share a model.\<close>

definition shares_model ::
    "versioned_model_identity list option \<Rightarrow> versioned_model_identity list option \<Rightarrow> bool" where
  "shares_model results comps =
     (case (results, comps) of (Some ms, Some cs) \<Rightarrow> \<not> disjoint_lists ms cs | _ \<Rightarrow> False)"

definition model_pair_relationship ::
    "provider_lineage_index \<Rightarrow> versioned_process_identity \<Rightarrow> versioned_process_identity \<Rightarrow>
       versioned_model_identity \<times> versioned_model_identity \<Rightarrow> lineage_relationship option" where
  "model_pair_relationship lineage left right p =
     (if vm_model_id (fst p) \<noteq> vm_model_id (snd p) then None
      else if fst p = snd p then Some AlternativeModelResult
      else if left \<in> set (selected_results lineage) \<or> right \<in> set (selected_results lineage)
      then Some SelectedAndSupersededModelResult
      else Some AlternativeModelResult)"

definition provider_lineage_relationships ::
    "versioned_process_identity \<Rightarrow> versioned_process_identity \<Rightarrow> provider_lineage_index \<Rightarrow>
       lineage_relationship list" where
  "provider_lineage_relationships left right lineage =
     (let left_result = map_of (result_models lineage) left;
          right_result = map_of (result_models lineage) right;
          left_component = map_of (component_models lineage) left;
          right_component = map_of (component_models lineage) right
      in remdups
        ((if shares_model left_result right_component \<or> shares_model right_result left_component
          then [ModelResultAndComponent] else []) @
         (case (left_result, right_result) of
            (Some ls, Some rs) \<Rightarrow>
              List.map_filter (model_pair_relationship lineage left right) (List.product ls rs)
          | _ \<Rightarrow> [])))"

definition lineage_rejection_for_selected_result ::
    "versioned_process_identity \<Rightarrow> versioned_process_identity \<Rightarrow> lineage_relationship list \<Rightarrow>
       provider_lineage_index \<Rightarrow> lineage_rejection_reason" where
  "lineage_rejection_for_selected_result selected rejected relationships lineage =
     (if SelectedAndSupersededModelResult \<in> set relationships then SupersededModelResult
      else if ModelResultAndComponent \<in> set relationships \<and>
              shares_model (map_of (result_models lineage) selected) (map_of (component_models lineage) rejected)
      then ModelComponentOfSelectedResult
      else if AlternativeModelResult \<in> set relationships then RejectedAlternativeModelResult
      else NotSelectedByExactModelResult)"

datatype linking_error =
    MissingProviderMeta i32
  | MissingConsumerMeta i32
  | MissingBalancingMeta i32
  | EmptyProviderCandidates
  | VolumeWeightSumNotPositive
  | VolumeFallbackCountOverflow
  | BalanceCandidateCountOverflow
  | BalanceAllocationCountOverflow
  | ReferenceCandidateCountOverflow
  | NoReferencePortMap
  | MissingSelectedPort i32
  | BalanceFailed signed_flow_error
  | MissingDependentProcess i32
  | MissingBalancingProcess i32

type_synonym identified_providers = "(i32 \<times> versioned_process_identity) list"

definition provider_identities ::
    "process_meta list \<Rightarrow> i32 list \<Rightarrow> (linking_error, identified_providers) result" where
  "provider_identities metas providers =
     traverse (\<lambda>p. and_then (ok_or (process_meta_for_idx metas p) (MissingProviderMeta p))
                 (\<lambda>meta. Ok (p, process_identity meta))) providers"

definition candidates_by_identity ::
    "identified_providers \<Rightarrow> (versioned_process_identity \<times> i32 list) list" where
  "candidates_by_identity ids = foldl (\<lambda>g (p, i). entry_insert i p g) [] ids"

definition results_by_model ::
    "provider_lineage_index \<Rightarrow> identified_providers \<Rightarrow> (versioned_model_identity \<times> i32 list) list" where
  "results_by_model lineage ids =
     foldl (\<lambda>g (p, i). foldl (\<lambda>g1 m. entry_insert m p g1) g (get_list (result_models lineage) i)) [] ids"

definition component_providers ::
    "provider_lineage_index \<Rightarrow> (versioned_process_identity \<times> i32 list) list \<Rightarrow> versioned_model_identity \<Rightarrow>
       i32 list" where
  "component_providers lineage cands model =
     remdups (concat (map (get_list cands) (get_list (model_components lineage) model)))"

definition mark ::
    "lineage_relationship \<Rightarrow> (i32 \<times> lineage_relationship list) list \<Rightarrow> i32 list \<Rightarrow>
       (i32 \<times> lineage_relationship list) list" where
  "mark r rel ps = foldl (\<lambda>m p. entry_insert p r m) rel ps"

type_synonym gate_state = "(i32 \<times> lineage_relationship list) list \<times> bool"

definition composition_step ::
    "provider_lineage_index \<Rightarrow> (versioned_process_identity \<times> i32 list) list \<Rightarrow> gate_state \<Rightarrow>
       versioned_model_identity \<times> i32 list \<Rightarrow> gate_state" where
  "composition_step lineage cands s e =
     (let comps = component_providers lineage cands (fst e);
          participants = List.union comps (snd e)
      in if snd e \<noteq> [] \<and> comps \<noteq> [] \<and> 1 < length participants
         then (mark ModelResultAndComponent (fst s) participants, True) else s)"

definition version_step ::
    "provider_lineage_index \<Rightarrow> identified_providers \<Rightarrow> (versioned_model_identity \<times> i32 list) list \<Rightarrow>
       gate_state \<Rightarrow> uuid \<Rightarrow> gate_state" where
  "version_step lineage ids by_model s model_id =
     (let exact = filter (\<lambda>e. vm_model_id (fst e) = model_id) by_model;
          s1 = foldl (\<lambda>s0 e. if 1 < length (snd e)
                  then (mark AlternativeModelResult (fst s0) (snd e), True) else s0) s exact;
          everyone = remdups (concat (map snd exact))
      in if length exact \<le> 1 then s1
         else (mark (if list_ex (\<lambda>(p, i). p \<in> set everyone \<and> i \<in> set (selected_results lineage)) ids
                     then SelectedAndSupersededModelResult else AlternativeModelResult)
                 (fst s1) everyone, True))"

definition apply_provider_lineage_gate ::
    "i32 list \<Rightarrow> process_meta list \<Rightarrow> provider_lineage_index \<Rightarrow>
       (linking_error, provider_lineage_gate) result" where
  "apply_provider_lineage_gate providers metas lineage =
     and_then (provider_identities metas providers) (\<lambda>ids.
     let cands = candidates_by_identity ids;
         by_model = results_by_model lineage ids;
         s1 = foldl (composition_step lineage cands) ([], False) by_model;
         (relationships, conflict) =
           foldl (version_step lineage ids by_model) s1 (remdups (map (vm_model_id \<circ> fst) by_model));
         gate = \<lparr>gate_providers = providers, relationships_by_provider = relationships,
                 rejection_by_provider = [], selected_model_result = None, gate_unresolved = False\<rparr>
     in if \<not> conflict then Ok gate
        else (case filter (\<lambda>e. snd e \<in> set (selected_results lineage)) ids of
          [chosen] \<Rightarrow>
            Ok (gate\<lparr>gate_providers := [fst chosen], selected_model_result := Some (fst chosen),
              rejection_by_provider :=
                foldl (\<lambda>m e. AList.update (fst e) (lineage_rejection_for_selected_result (snd chosen) (snd e)
                          (provider_lineage_relationships (snd chosen) (snd e) lineage) lineage) m) []
                  (filter (\<lambda>e. fst e \<noteq> fst chosen) ids)\<rparr>)
        | _ \<Rightarrow>
            Ok (gate\<lparr>gate_providers := [], gate_unresolved := True,
              rejection_by_provider :=
                foldl (\<lambda>m e. AList.update (fst e) OverlapRequiresBinding m) []
                  (filter (\<lambda>e. map_of relationships (fst e) \<noteq> None) ids)\<rparr>)))"

subsection \<open>Expansion is the transitive closure\<close>

text \<open>
  \<open>uses_model direct results m n\<close>: a direct component of \<open>m\<close> is a result of the other model \<open>n\<close>.
  The components a model should be charged with are the direct components of every model it
  uses, directly or not.
\<close>

definition uses_model ::
    "(versioned_model_identity \<times> versioned_process_identity list) list \<Rightarrow>
     (versioned_process_identity \<times> versioned_model_identity list) list \<Rightarrow>
     versioned_model_identity \<Rightarrow> versioned_model_identity \<Rightarrow> bool" where
  "uses_model direct results m n \<longleftrightarrow> n \<in> set (nested_models results m (get_list direct m))"

definition all_components ::
    "(versioned_model_identity \<times> versioned_process_identity list) list \<Rightarrow>
     (versioned_process_identity \<times> versioned_model_identity list) list \<Rightarrow>
     versioned_model_identity \<Rightarrow> versioned_process_identity set" where
  "all_components direct results m =
     {c. \<exists>n. (uses_model direct results)\<^sup>*\<^sup>* m n \<and> c \<in> set (get_list direct n)}"

lemma all_components_unfold:
  "all_components direct results m =
     set (get_list direct m) \<union> (\<Union>n \<in> set (nested_models results m (get_list direct m)). all_components direct results n)"
proof (rule set_eqI)
  fix c
  let ?R = "uses_model direct results"
  have step: "?R\<^sup>*\<^sup>* m k \<longleftrightarrow> k = m \<or> (\<exists>n. ?R m n \<and> ?R\<^sup>*\<^sup>* n k)" for k
    by (auto elim: converse_rtranclpE intro: converse_rtranclp_into_rtranclp)
  have mem: "n \<in> set (nested_models results m (get_list direct m)) \<longleftrightarrow> ?R m n" for n
    by (simp add: uses_model_def)
  have "c \<in> all_components direct results m \<longleftrightarrow>
      c \<in> set (get_list direct m) \<or> (\<exists>n. ?R m n \<and> (\<exists>k. ?R\<^sup>*\<^sup>* n k \<and> c \<in> set (get_list direct k)))"
    unfolding all_components_def mem_Collect_eq step by blast
  also have "\<dots> \<longleftrightarrow> c \<in> set (get_list direct m) \<union>
      (\<Union>n \<in> set (nested_models results m (get_list direct m)). all_components direct results n)"
    by (simp only: all_components_def mem Un_iff UN_iff mem_Collect_eq Bex_def)
  finally show "c \<in> all_components direct results m \<longleftrightarrow> c \<in> set (get_list direct m) \<union>
      (\<Union>n \<in> set (nested_models results m (get_list direct m)). all_components direct results n)" .
qed

definition memo_exact ::
    "(versioned_model_identity \<times> versioned_process_identity list) list \<Rightarrow>
     (versioned_process_identity \<times> versioned_model_identity list) list \<Rightarrow>
     (versioned_model_identity \<times> versioned_process_identity list) list \<Rightarrow> bool" where
  "memo_exact direct results memo \<longleftrightarrow>
     (\<forall>m cs. map_of memo m = Some cs \<longrightarrow> set cs = all_components direct results m)"

lemma memo_exact_update:
  "memo_exact direct results memo \<Longrightarrow> set cs = all_components direct results m \<Longrightarrow>
     memo_exact direct results (AList.update m cs memo)"
  by (auto simp: memo_exact_def update_conv')

text \<open>The loop over the nested models collects their closures.\<close>

lemma expansion_loop:
  assumes "memo_exact direct results (snd s)"
    and "\<And>nested memo. nested \<in> set ns \<Longrightarrow> memo_exact direct results memo \<Longrightarrow>
           set (fst (f nested memo)) = all_components direct results nested \<and>
           memo_exact direct results (snd (f nested memo))"
  shows "set (fst (foldl (\<lambda>s nested. let (sub, memo2) = f nested (snd s) in (List.union sub (fst s), memo2)) s ns)) =
           set (fst s) \<union> (\<Union>n \<in> set ns. all_components direct results n) \<and>
         memo_exact direct results
           (snd (foldl (\<lambda>s nested. let (sub, memo2) = f nested (snd s) in (List.union sub (fst s), memo2)) s ns))"
  using assms
proof (induction ns arbitrary: s)
  case Nil
  then show ?case by simp
next
  case (Cons n ns)
  let ?s = "let (sub, memo2) = f n (snd s) in (List.union sub (fst s), memo2)"
  have fn: "set (fst (f n (snd s))) = all_components direct results n"
    "memo_exact direct results (snd (f n (snd s)))"
    using Cons.prems by auto
  have s: "set (fst ?s) = set (fst s) \<union> all_components direct results n" "snd ?s = snd (f n (snd s))"
    using fn(1) by (auto simp: split_beta)
  show ?case
    using Cons.IH [of ?s] Cons.prems(2) fn(2) s by (simp add: Un_assoc)
qed

lemma expand_model_components_exact:
  assumes "acyclicP (uses_model direct results)" and "memo_exact direct results memo"
    and "\<forall>v \<in> set visiting. (uses_model direct results)\<^sup>+\<^sup>+ v model"
  shows "set (fst (expand_model_components direct results model memo visiting)) = all_components direct results model \<and>
         memo_exact direct results (snd (expand_model_components direct results model memo visiting))"
  using assms
proof (induction direct results model memo visiting rule: expand_model_components.induct)
  case (1 direct results model memo visiting)
  show ?case
  proof (cases "map_of memo model")
    case (Some cs)
    with "1.prems"(2) show ?thesis
      by (subst (1 2) expand_model_components.simps) (simp add: memo_exact_def)
  next
    case None
    have fresh: "model \<notin> set visiting"
      using "1.prems"(1,3) by (auto simp: acyclic_def tranclp_unfold)
    let ?direct = "get_list direct model"
    let ?ns = "nested_models results model ?direct"
    let ?f = "\<lambda>nested memo0. expand_model_components direct results nested memo0 (model # visiting)"
    let ?r = "foldl (\<lambda>s nested. let (sub, memo2) = ?f nested (snd s) in (List.union sub (fst s), memo2)) (?direct, memo) ?ns"
    have eq: "expand_model_components direct results model memo visiting = (fst ?r, AList.update model (fst ?r) (snd ?r))"
      using None fresh by (subst expand_model_components.simps) (simp add: split_beta Let_def)
    have "set (fst ?r) = set (fst (?direct, memo)) \<union> (\<Union>n \<in> set ?ns. all_components direct results n) \<and>
         memo_exact direct results (snd ?r)"
    proof (rule expansion_loop)
      fix nested memo'
      assume n: "nested \<in> set ?ns" and m: "memo_exact direct results memo'"
      have "(uses_model direct results) model nested" using n by (simp add: uses_model_def)
      then have "\<forall>v \<in> set (model # visiting). (uses_model direct results)\<^sup>+\<^sup>+ v nested"
        using "1.prems"(3) by auto
      with "1.IH" [OF None fresh refl n, of "([], memo')"] "1.prems"(1) m
      show "set (fst (?f nested memo')) = all_components direct results nested \<and>
           memo_exact direct results (snd (?f nested memo'))" by simp
    qed (simp add: "1.prems"(2))
    then have "set (fst ?r) = all_components direct results model" "memo_exact direct results (snd ?r)"
      using all_components_unfold [of direct results model] by simp_all
    then show ?thesis unfolding eq by (simp add: memo_exact_update)
  qed
qed

subsection \<open>The index\<close>

lemma entry_insert_get: "get_list (entry_insert k v m) k' = (if k = k' then List.insert v (get_list m k) else get_list m k')"
  by (induction k v m rule: entry_insert.induct) (auto simp: get_list_def)

lemma entry_insert_keys: "fst ` set (entry_insert k v m) = insert k (fst ` set m)"
  by (induction k v m rule: entry_insert.induct) auto

lemma entry_insert_distinct: "distinct (map fst m) \<Longrightarrow> distinct (map fst (entry_insert k v m))"
  by (induction k v m rule: entry_insert.induct) (auto simp: entry_insert_keys)

lemma foldl_entry_insert_get:
  "set (get_list (foldl (\<lambda>m x. entry_insert (k x) (v x) m) m xs) k') =
     set (get_list m k') \<union> {v x |x. x \<in> set xs \<and> k x = k'}"
  by (induction xs arbitrary: m) (auto simp: entry_insert_get)

lemma invert_fold:
  "set (get_list (foldl (\<lambda>cm (model, comps). foldl (\<lambda>cm1 c. entry_insert c model cm1) cm comps) cm mc) c) =
     set (get_list cm c) \<union> {m |m cs. (m, cs) \<in> set mc \<and> c \<in> set cs}"
proof (induction mc arbitrary: cm)
  case Nil
  then show ?case by simp
next
  case (Cons e mc)
  obtain m cs where e: "e = (m, cs)" by (cases e)
  have "set (get_list (foldl (\<lambda>cm1 c. entry_insert c m cm1) cm cs) c) = set (get_list cm c) \<union> {m |x. x \<in> set cs \<and> x = c}"
    using foldl_entry_insert_get [of "\<lambda>x. x" "\<lambda>_. m" cm cs c] by simp
  with Cons.IH show ?case by (auto simp: e)
qed

lemma expansion_memo_invariant:
  assumes "P memo" and "\<And>memo m cs. P memo \<Longrightarrow> P (AList.update m cs memo)"
  shows "P (snd (expand_model_components direct results model memo visiting))"
  using assms
proof (induction direct results model memo visiting rule: expand_model_components.induct)
  case (1 direct results model memo visiting)
  show ?case
  proof (cases "map_of memo model = None \<and> model \<notin> set visiting")
    case False
    with "1.prems"(1) show ?thesis by (subst expand_model_components.simps) (auto split: option.splits)
  next
    case True
    let ?step = "\<lambda>s nested. let (sub, memo2) = expand_model_components direct results nested (snd s) (model # visiting)
        in (List.union sub (fst s), memo2)"
    let ?ns = "nested_models results model (get_list direct model)"
    have "P (snd (foldl ?step (get_list direct model, memo) ?ns))"
    proof (rule foldl_invariant [where P = "\<lambda>s. P (snd s)"])
      show "P (snd (?step s x))" if "x \<in> set ?ns" and "P (snd s)" for s x
        using "1.IH" [OF _ _ refl that(1), of s] True that(2) "1.prems"(2) by (simp add: split_beta)
    qed (simp add: "1.prems"(1))
    then show ?thesis
      using True "1.prems"(2) by (subst expand_model_components.simps) (simp add: split_beta Let_def)
  qed
qed

lemma expand_model_components_keys:
  "fst ` set memo \<subseteq> fst ` set (snd (expand_model_components direct results model memo visiting))"
  by (rule expansion_memo_invariant) (auto simp: dom_update)

lemma expand_steps_distinct:
  "distinct (map fst memo) \<Longrightarrow> distinct (map fst (foldl (expand_step direct results) memo keys))"
proof (induction keys arbitrary: memo)
  case (Cons m keys)
  have "distinct (map fst (snd (expand_model_components direct results m memo [])))"
    by (rule expansion_memo_invariant [where P = "\<lambda>m. distinct (map fst m)"]) (auto simp: Cons.prems distinct_update)
  then have "distinct (map fst (expand_step direct results memo m))"
    by (simp add: expand_step_def split_beta distinct_update)
  then show ?case by (simp add: Cons.IH)
qed simp

lemma expand_step_fold:
  assumes "acyclicP (uses_model direct results)" and "memo_exact direct results memo"
  shows "memo_exact direct results (foldl (expand_step direct results) memo keys) \<and>
    fst ` set memo \<union> set keys \<subseteq> fst ` set (foldl (expand_step direct results) memo keys)"
  using assms(2)
proof (induction keys arbitrary: memo)
  case Nil
  then show ?case by simp
next
  case (Cons m keys)
  note e = expand_model_components_exact [OF assms(1) Cons.prems, of "[]" m]
  have step: "expand_step direct results memo m =
      AList.update m (fst (expand_model_components direct results m memo [])) (snd (expand_model_components direct results m memo []))"
    by (simp add: expand_step_def split_beta)
  have "memo_exact direct results (expand_step direct results memo m)"
    unfolding step using e by (intro memo_exact_update) auto
  moreover have "fst ` set memo \<subseteq> fst ` set (expand_step direct results memo m)"
    using expand_model_components_keys [of memo direct results m "[]"] by (auto simp: step dom_update)
  ultimately show ?case using Cons.IH [of "expand_step direct results memo m"] by (auto simp: step dom_update)
qed

definition built_maps ::
    "(string \<Rightarrow> uuid option) \<Rightarrow> lifecycle_model_row list \<Rightarrow>
     (versioned_model_identity \<times> versioned_process_identity list) list \<times>
     (versioned_process_identity \<times> versioned_model_identity list) list" where
  "built_maps parse_uuid models = foldl (add_model_row parse_uuid) ([], []) models"

lemma built_maps_keys: "fst ` set (fst (built_maps parse_uuid models)) = lm_identity ` set models"
proof -
  have "fst ` set (fst (foldl (add_model_row parse_uuid) s models)) = fst ` set (fst s) \<union> lm_identity ` set models" for s
    by (induction models arbitrary: s) (auto simp: add_model_row_def dom_update)
  then show ?thesis by (simp add: built_maps_def)
qed

text \<open>
  C31. For life-cycle models that do not use each other in a cycle, the lineage index holds for
  every model exactly its components of all levels, and for every process exactly the models it
  is a component of, in whatever order the hash map yields the models.
\<close>

theorem lineage_index_closed:
  assumes "built_maps parse_uuid models = (direct, results)"
    and "acyclicP (uses_model direct results)"
    and "set (key_order (map fst direct)) = fst ` set direct"
    and "build_provider_lineage_index parse_uuid key_order models roots = index"
  shows "(\<forall>m \<in> lm_identity ` set models. \<exists>cs. map_of (model_components index) m = Some cs \<and>
            set cs = all_components direct results m) \<and>
         (\<forall>c. set (get_list (component_models index) c) = {m. m \<in> fst ` set (model_components index) \<and> c \<in> all_components direct results m})"
proof -
  let ?mc = "foldl (expand_step direct results) [] (key_order (map fst direct))"
  have maps: "foldl (add_model_row parse_uuid) ([], []) models = (direct, results)"
    using assms(1) by (simp add: built_maps_def)
  have index: "model_components index = ?mc" "component_models index = invert_components ?mc"
    using assms(4) by (auto simp: build_provider_lineage_index_def maps Let_def)
  have "memo_exact direct results []" by (simp add: memo_exact_def)
  note fold = expand_step_fold [OF assms(2) this, of "key_order (map fst direct)"]
  have keys: "lm_identity ` set models \<subseteq> fst ` set ?mc"
    using fold assms(3) built_maps_keys [of parse_uuid models] by (simp add: assms(1))
  have dist: "distinct (map fst ?mc)" by (rule expand_steps_distinct) simp
  have exact: "\<exists>cs. map_of ?mc m = Some cs \<and> set cs = all_components direct results m" if "m \<in> fst ` set ?mc" for m
  proof -
    from that have "map_of ?mc m \<noteq> None" by (simp add: map_of_eq_None_iff)
    then obtain cs where "map_of ?mc m = Some cs" by blast
    with fold show ?thesis by (auto simp: memo_exact_def)
  qed
  have inverted: "set (get_list (invert_components ?mc) c) = {m. m \<in> fst ` set ?mc \<and> c \<in> all_components direct results m}" for c
  proof -
    have "(\<exists>cs. (m, cs) \<in> set ?mc \<and> c \<in> set cs) \<longleftrightarrow> m \<in> fst ` set ?mc \<and> c \<in> all_components direct results m" for m
    proof (cases "m \<in> fst ` set ?mc")
      case True
      from exact [OF this] obtain cs where cs: "map_of ?mc m = Some cs" "set cs = all_components direct results m"
        by (elim exE conjE)
      have "(m, cs') \<in> set ?mc \<longleftrightarrow> cs' = cs" for cs'
        using map_of_eq_Some_iff [OF dist, of m cs'] unfolding cs(1) by auto
      with cs(2) True show ?thesis by simp
    next
      case False
      then show ?thesis by force
    qed
    then show ?thesis
      using invert_fold [of "[]" ?mc c] by (simp add: invert_components_def get_list_def)
  qed
  show ?thesis
    unfolding index
  proof (intro conjI ballI allI)
    fix m
    assume "m \<in> lm_identity ` set models"
    with keys have "m \<in> fst ` set ?mc" by (rule subsetD)
    then show "\<exists>cs. map_of ?mc m = Some cs \<and> set cs = all_components direct results m" by (rule exact)
  qed (rule inverted)
qed


subsection \<open>Models that use each other\<close>

text \<open>
  What an expansion does to the memo in every model graph, cyclic or not: it keeps what is
  remembered, remembers no model of the current path, leaves no used model out but those of the
  path, and returns at least the direct components of all models it newly remembers.
\<close>

definition memo_direct ::
    "(versioned_model_identity \<times> versioned_process_identity list) list \<Rightarrow>
     (versioned_model_identity \<times> versioned_process_identity list) list \<Rightarrow> versioned_process_identity set" where
  "memo_direct direct memo = (\<Union>m \<in> dom (map_of memo). set (get_list direct m))"

definition memo_closed ::
    "(versioned_model_identity \<times> versioned_process_identity list) list \<Rightarrow>
     (versioned_process_identity \<times> versioned_model_identity list) list \<Rightarrow> versioned_model_identity set \<Rightarrow>
     (versioned_model_identity \<times> versioned_process_identity list) list \<Rightarrow> bool" where
  "memo_closed direct results V memo \<longleftrightarrow>
     (\<forall>m \<in> dom (map_of memo). \<forall>n. uses_model direct results m n \<longrightarrow> n \<in> dom (map_of memo) \<union> V)"

definition expansion_ok ::
    "(versioned_model_identity \<times> versioned_process_identity list) list \<Rightarrow>
     (versioned_process_identity \<times> versioned_model_identity list) list \<Rightarrow> versioned_model_identity set \<Rightarrow>
     (versioned_model_identity \<times> versioned_process_identity list) list \<Rightarrow>
     versioned_process_identity list \<times> (versioned_model_identity \<times> versioned_process_identity list) list \<Rightarrow> bool" where
  "expansion_ok direct results V memo r \<longleftrightarrow>
     map_of memo \<subseteq>\<^sub>m map_of (snd r) \<and> dom (map_of (snd r)) \<inter> V \<subseteq> dom (map_of memo) \<and>
     (memo_closed direct results V memo \<longrightarrow> memo_closed direct results V (snd r)) \<and>
     memo_direct direct (snd r) \<subseteq> set (fst r) \<union> memo_direct direct memo"

lemma expansion_ok_refl: "expansion_ok direct results V memo (cs, memo)"
  by (simp add: expansion_ok_def)

lemma expansion_ok_trans:
  assumes "expansion_ok direct results V memo r" and "expansion_ok direct results V (snd r) r'" and "set (fst r) \<subseteq> set (fst r')"
  shows "expansion_ok direct results V memo r'"
  using assms map_le_trans [of "map_of memo"] unfolding expansion_ok_def by blast

lemma map_le_Some: "m \<subseteq>\<^sub>m m' \<Longrightarrow> m k = Some v \<Longrightarrow> m' k = Some v"
  unfolding map_le_def by (metis domI)

text \<open>The loop over the nested models.\<close>

lemma expansion_loop_ok:
  assumes "\<And>n memo. n \<in> set ns \<Longrightarrow>
      expansion_ok direct results V memo (f n memo) \<and> n \<in> dom (map_of (snd (f n memo))) \<union> V"
  defines "loop \<equiv> foldl (\<lambda>s nested. let (sub, memo2) = f nested (snd s) in (List.union sub (fst s), memo2))"
  shows "expansion_ok direct results V (snd s) (loop s ns) \<and> set (fst s) \<subseteq> set (fst (loop s ns)) \<and>
    set ns \<subseteq> dom (map_of (snd (loop s ns))) \<union> V"
  using assms(1) unfolding loop_def
proof (induction ns arbitrary: s)
  case Nil
  then show ?case using expansion_ok_refl [of direct results V "snd s" "fst s"] by simp
next
  case (Cons n ns)
  let ?s = "(List.union (fst (f n (snd s))) (fst s), snd (f n (snd s)))"
  have n: "expansion_ok direct results V (snd s) (f n (snd s))" "n \<in> dom (map_of (snd (f n (snd s)))) \<union> V"
    using Cons.prems by auto
  then have s: "expansion_ok direct results V (snd s) ?s" by (auto simp: expansion_ok_def)
  let ?g = "\<lambda>s nested. let (sub, memo2) = f nested (snd s) in (List.union sub (fst s), memo2)"
  let ?r = "foldl ?g ?s ns"
  have g: "foldl ?g s (n # ns) = ?r" by (simp add: split_beta Let_def)
  have r: "expansion_ok direct results V (snd ?s) ?r" "set (fst ?s) \<subseteq> set (fst ?r)" "set ns \<subseteq> dom (map_of (snd ?r)) \<union> V"
    using Cons.IH [of ?s] Cons.prems by auto
  have "dom (map_of (snd ?s)) \<subseteq> dom (map_of (snd ?r))"
    using r(1) map_le_implies_dom_le unfolding expansion_ok_def by blast
  with n(2) r(3) have "set (n # ns) \<subseteq> dom (map_of (snd ?r)) \<union> V" by auto
  moreover have "set (fst s) \<subseteq> set (fst ?r)" using r(2) by simp
  ultimately show ?case unfolding g using expansion_ok_trans [OF s r(1,2)] by blast
qed

lemma expand_model_components_fresh:
  fixes direct results
  assumes "map_of memo model = None" and "model \<notin> set visiting"
  defines "r \<equiv> foldl (\<lambda>s nested. let (sub, memo2) =
      expand_model_components direct results nested (snd s) (model # visiting) in (List.union sub (fst s), memo2))
      (get_list direct model, memo) (nested_models results model (get_list direct model))"
  shows "expand_model_components direct results model memo visiting = (fst r, AList.update model (fst r) (snd r))"
  using assms by (subst expand_model_components.simps) (simp add: split_beta Let_def)

lemma expand_model_components_known:
  "map_of memo model = Some cs \<Longrightarrow> expand_model_components direct results model memo visiting = (cs, memo)"
  by (subst expand_model_components.simps) simp

lemma expand_model_components_cut:
  "map_of memo model = None \<Longrightarrow> model \<in> set visiting \<Longrightarrow>
     expand_model_components direct results model memo visiting = ([], memo)"
  by (subst expand_model_components.simps) simp

lemma expand_model_components_ok:
  "expansion_ok direct results (set visiting) memo (expand_model_components direct results model memo visiting) \<and>
   model \<in> dom (map_of (snd (expand_model_components direct results model memo visiting))) \<union> set visiting"
proof (induction direct results model memo visiting rule: expand_model_components.induct)
  case (1 direct results model memo visiting)
  consider (known) cs where "map_of memo model = Some cs" | (cut) "map_of memo model = None" "model \<in> set visiting"
    | (fresh) "map_of memo model = None" "model \<notin> set visiting"
    by fastforce
  then show ?case
  proof cases
    case known
    then show ?thesis by (auto simp: expand_model_components_known expansion_ok_refl)
  next
    case cut
    then show ?thesis by (auto simp: expand_model_components_cut expansion_ok_refl)
  next
    case fresh
    let ?ns = "nested_models results model (get_list direct model)"
    let ?f = "\<lambda>nested memo0. expand_model_components direct results nested memo0 (model # visiting)"
    let ?r = "foldl (\<lambda>s nested. let (sub, memo2) = ?f nested (snd s) in (List.union sub (fst s), memo2))
      (get_list direct model, memo) ?ns"
    have step: "expansion_ok direct results (set (model # visiting)) memo' (?f n memo') \<and>
        n \<in> dom (map_of (snd (?f n memo'))) \<union> set (model # visiting)" if "n \<in> set ?ns" for n memo'
      using "1.IH" [OF fresh refl that, of "([], memo')"] by simp
    have loop: "expansion_ok direct results (set (model # visiting)) memo ?r" "set (get_list direct model) \<subseteq> set (fst ?r)"
        "set ?ns \<subseteq> dom (map_of (snd ?r)) \<union> set (model # visiting)"
      using expansion_loop_ok [of ?ns direct results "set (model # visiting)" ?f "(get_list direct model, memo)", OF step] by auto
    have dom: "dom (map_of (AList.update model (fst ?r) (snd ?r))) = insert model (dom (map_of (snd ?r)))"
      by (auto simp: update_conv')
    have direct: "memo_direct direct (AList.update model (fst ?r) (snd ?r)) = set (get_list direct model) \<union> memo_direct direct (snd ?r)"
      unfolding memo_direct_def dom by simp
    have "map_of memo \<subseteq>\<^sub>m map_of (AList.update model (fst ?r) (snd ?r))"
      using loop(1) fresh(1) by (auto simp: expansion_ok_def map_le_def update_conv')
    moreover have "dom (map_of (AList.update model (fst ?r) (snd ?r))) \<inter> set visiting \<subseteq> dom (map_of memo)"
      unfolding dom using loop(1) fresh(2) by (auto simp: expansion_ok_def)
    moreover have "memo_closed direct results (set visiting) (AList.update model (fst ?r) (snd ?r))"
      if "memo_closed direct results (set visiting) memo"
    proof -
      have "memo_closed direct results (set (model # visiting)) (snd ?r)"
        using that loop(1) unfolding expansion_ok_def memo_closed_def by auto
      with loop(3) show ?thesis unfolding memo_closed_def dom uses_model_def by auto
    qed
    moreover have "memo_direct direct (AList.update model (fst ?r) (snd ?r)) \<subseteq> set (fst ?r) \<union> memo_direct direct memo"
      unfolding direct using loop(1,2) by (auto simp: expansion_ok_def)
    ultimately show ?thesis
      unfolding expand_model_components_fresh [OF fresh] expansion_ok_def fst_conv snd_conv dom by blast
  qed
qed

text \<open>
  The models on the current path whose components an expansion cannot return: a set of models
  that are all being expanded and none of which is remembered yet.
\<close>

definition components_within ::
    "(versioned_model_identity \<times> versioned_process_identity list) list \<Rightarrow>
     (versioned_process_identity \<times> versioned_model_identity list) list \<Rightarrow> versioned_model_identity set \<Rightarrow>
     versioned_model_identity \<Rightarrow> versioned_process_identity set" where
  "components_within direct results S m =
     {c. \<exists>n \<in> S. (uses_model direct results)\<^sup>*\<^sup>* m n \<and> c \<in> set (get_list direct n)}"

definition memo_within ::
    "(versioned_model_identity \<times> versioned_process_identity list) list \<Rightarrow>
     (versioned_process_identity \<times> versioned_model_identity list) list \<Rightarrow> versioned_model_identity set \<Rightarrow>
     (versioned_model_identity \<times> versioned_process_identity list) list \<Rightarrow> bool" where
  "memo_within direct results S memo \<longleftrightarrow> dom (map_of memo) \<subseteq> S \<and>
     (\<forall>m cs. map_of memo m = Some cs \<longrightarrow> set cs \<subseteq> components_within direct results S m)"

lemma components_within_step:
  "uses_model direct results m n \<Longrightarrow> components_within direct results S n \<subseteq> components_within direct results S m"
  by (auto simp: components_within_def intro: converse_rtranclp_into_rtranclp)

lemma components_within_direct: "m \<in> S \<Longrightarrow> set (get_list direct m) \<subseteq> components_within direct results S m"
  by (auto simp: components_within_def)

lemma components_within_UNIV [simp]: "components_within direct results UNIV m = all_components direct results m"
  by (auto simp: components_within_def all_components_def)

lemma memo_within_update:
  "memo_within direct results S memo \<Longrightarrow> m \<in> S \<Longrightarrow> set cs \<subseteq> components_within direct results S m \<Longrightarrow>
     memo_within direct results S (AList.update m cs memo)"
  by (auto simp: memo_within_def update_conv' split: if_splits)

lemma expand_model_components_within:
  assumes "- S \<subseteq> set visiting" and "memo_within direct results S memo"
  shows "set (fst (expand_model_components direct results model memo visiting)) \<subseteq> components_within direct results S model \<and>
    memo_within direct results S (snd (expand_model_components direct results model memo visiting))"
  using assms
proof (induction direct results model memo visiting rule: expand_model_components.induct)
  case (1 direct results model memo visiting)
  consider (known) cs where "map_of memo model = Some cs" | (cut) "map_of memo model = None" "model \<in> set visiting"
    | (fresh) "map_of memo model = None" "model \<notin> set visiting"
    by fastforce
  then show ?case
  proof cases
    case known
    with "1.prems"(2) show ?thesis by (simp add: expand_model_components_known memo_within_def)
  next
    case cut
    with "1.prems"(2) show ?thesis by (simp add: expand_model_components_cut)
  next
    case fresh
    let ?ns = "nested_models results model (get_list direct model)"
    let ?f = "\<lambda>nested memo0. expand_model_components direct results nested memo0 (model # visiting)"
    let ?step = "\<lambda>s nested. let (sub, memo2) = ?f nested (snd s) in (List.union sub (fst s), memo2)"
    let ?r = "foldl ?step (get_list direct model, memo) ?ns"
    let ?ok = "\<lambda>s. set (fst s) \<subseteq> components_within direct results S model \<and> memo_within direct results S (snd s)"
    have model: "model \<in> S" using fresh(2) "1.prems"(1) by blast
    have "?ok ?r"
    proof (rule foldl_invariant [where P = ?ok])
      fix s n
      assume n: "n \<in> set ?ns" and s: "?ok s"
      have "set (fst (?f n (snd s))) \<subseteq> components_within direct results S n \<and> memo_within direct results S (snd (?f n (snd s)))"
        using "1.IH" [OF fresh refl n, of s] "1.prems"(1) s by auto
      moreover have "components_within direct results S n \<subseteq> components_within direct results S model"
        by (rule components_within_step) (simp add: uses_model_def n)
      ultimately show "?ok (?step s n)" using s by (auto simp: split_beta)
    qed (use components_within_direct [OF model] "1.prems"(2) in auto)
    with memo_within_update [of direct results S _ model] model show ?thesis
      unfolding expand_model_components_fresh [OF fresh] by simp
  qed
qed

text \<open>Expanding the keys one after the other never changes what is already recorded.\<close>

lemma expand_step_keeps: "map_of memo \<subseteq>\<^sub>m map_of (expand_step direct results memo model)"
proof -
  let ?r = "expand_model_components direct results model memo []"
  have le: "map_of memo \<subseteq>\<^sub>m map_of (snd ?r)"
    using expand_model_components_ok [of direct results "[]" memo model] by (simp add: expansion_ok_def)
  have "map_of memo model \<in> {None, Some (fst ?r)}"
    by (cases "map_of memo model") (simp_all add: expand_model_components_known)
  with le have "map_of memo \<subseteq>\<^sub>m (map_of (snd ?r))(model \<mapsto> fst ?r)" by (auto simp: map_le_def dom_def)
  then show ?thesis by (simp add: expand_step_def split_beta update_conv')
qed

lemma expand_steps_keep: "map_of memo \<subseteq>\<^sub>m map_of (foldl (expand_step direct results) memo keys)"
  by (induction keys arbitrary: memo) (auto intro: map_le_trans [OF expand_step_keeps])

text \<open>The first key is expanded on an empty memo.\<close>

lemma first_expansion:
  fixes direct results m
  defines "r \<equiv> expand_model_components direct results m [] []"
  shows "set (fst r) = all_components direct results m" and "map_of (snd r) m = Some (fst r)"
    and "expand_step direct results [] m = AList.update m (fst r) (snd r)"
    and "(uses_model direct results)\<^sup>*\<^sup>* m n \<Longrightarrow> n \<in> dom (map_of (snd r))"
proof -
  let ?R = "uses_model direct results"
  have ok: "expansion_ok direct results {} [] r" "m \<in> dom (map_of (snd r))"
    using expand_model_components_ok [of direct results "[]" "[]" m] by (simp_all add: r_def)
  then have closed: "memo_closed direct results {} (snd r)" by (simp add: expansion_ok_def memo_closed_def)
  have reach: "n \<in> dom (map_of (snd r))" if "?R\<^sup>*\<^sup>* m n" for n
    using that ok(2) by (induction rule: rtranclp_induct) (use closed in \<open>auto simp: memo_closed_def\<close>)
  show "n \<in> dom (map_of (snd r))" if "?R\<^sup>*\<^sup>* m n" using reach [OF that] .
  have "all_components direct results m \<subseteq> memo_direct direct (snd r)"
    using reach unfolding all_components_def memo_direct_def by blast
  moreover have "memo_direct direct (snd r) \<subseteq> set (fst r)" using ok(1) by (simp add: expansion_ok_def memo_direct_def)
  moreover have "set (fst r) \<subseteq> all_components direct results m"
    using expand_model_components_within [of UNIV "[]" direct results "[]" m] by (simp add: r_def memo_within_def)
  ultimately show "set (fst r) = all_components direct results m" by blast
  show "map_of (snd r) m = Some (fst r)" unfolding r_def by (simp add: expand_model_components_fresh update_conv')
  show "expand_step direct results [] m = AList.update m (fst r) (snd r)" by (simp add: expand_step_def r_def split_beta)
qed

lemma first_expansion_cuts:
  assumes "n \<noteq> m" and "map_of (snd (expand_model_components direct results m [] [])) n = Some cs"
  shows "set cs \<subseteq> components_within direct results (- {m}) n"
proof -
  let ?f = "\<lambda>nested memo0. expand_model_components direct results nested memo0 [m]"
  let ?step = "\<lambda>s nested. let (sub, memo2) = ?f nested (snd s) in (List.union sub (fst s), memo2)"
  let ?r = "foldl ?step (get_list direct m, []) (nested_models results m (get_list direct m))"
  have "memo_within direct results (- {m}) (snd ?r)"
    by (rule foldl_invariant [where P = "\<lambda>s. memo_within direct results (- {m}) (snd s)"])
      (use expand_model_components_within [of "- {m}" "[m]" direct results] in \<open>auto simp: split_beta memo_within_def [of _ _ _ "[]"]\<close>)
  moreover have "map_of (snd ?r) n = Some cs"
    using assms by (simp add: expand_model_components_fresh update_conv')
  ultimately show ?thesis by (auto simp: memo_within_def)
qed

lemma index_components:
  assumes "built_maps parse_uuid models = (direct, results)" and "key_order (map fst direct) = m # rest"
  shows "map_of (snd (expand_model_components direct results m [] [])) \<subseteq>\<^sub>m
    map_of (model_components (build_provider_lineage_index parse_uuid key_order models roots))"
proof -
  let ?r = "expand_model_components direct results m [] []"
  have maps: "foldl (add_model_row parse_uuid) ([], []) models = (direct, results)"
    using assms(1) by (simp add: built_maps_def)
  have "map_of (snd ?r) \<subseteq>\<^sub>m map_of (AList.update m (fst ?r) (snd ?r))"
    using first_expansion(2) [of direct results m] by (auto simp: map_le_def update_conv')
  also have "\<dots> \<subseteq>\<^sub>m map_of (foldl (expand_step direct results) (AList.update m (fst ?r) (snd ?r)) rest)"
    by (rule expand_steps_keep)
  finally show ?thesis
    by (simp add: build_provider_lineage_index_def maps assms(2) first_expansion(3) Let_def)
qed

text \<open>
  C32. The component index of life-cycle models that use each other in a cycle depends on the
  order in which the hash map yields the models. Take two models of a cycle. When the second one
  is yielded first, all its components of all levels are recorded for it. When the first one is
  yielded first, the second one is expanded and remembered while the first is still being
  expanded, and what is recorded for it are components of models other than the first; so every
  component that only the first model has is recorded for the second one in the one order and
  missing in the other.
\<close>

theorem cyclic_models_order_dependent:
  assumes "built_maps parse_uuid models = (direct, results)"
    and "a \<noteq> b" and "(uses_model direct results)\<^sup>*\<^sup>* a b" and "(uses_model direct results)\<^sup>*\<^sup>* b a"
    and "first_order (map fst direct) = a # rest" and "second_order (map fst direct) = b # rest'"
    and "build_provider_lineage_index parse_uuid first_order models roots = first_index"
    and "build_provider_lineage_index parse_uuid second_order models roots = second_index"
  shows "(\<exists>cs. map_of (model_components second_index) b = Some cs \<and> set cs = all_components direct results b) \<and>
    (\<exists>cs. map_of (model_components first_index) b = Some cs \<and>
       set cs \<subseteq> {c. \<exists>n. n \<noteq> a \<and> (uses_model direct results)\<^sup>*\<^sup>* b n \<and> c \<in> set (get_list direct n)}) \<and>
    (\<forall>c \<in> set (get_list direct a). (\<forall>n. n \<noteq> a \<longrightarrow> c \<notin> set (get_list direct n)) \<longrightarrow>
       c \<in> set (get_list (model_components second_index) b) \<and> c \<notin> set (get_list (model_components first_index) b))"
proof -
  let ?A = "expand_model_components direct results a [] []" and ?B = "expand_model_components direct results b [] []"
  note first = index_components [of parse_uuid models direct results first_order a rest roots, OF assms(1,5), unfolded assms(7)]
    and second = index_components [of parse_uuid models direct results second_order b rest' roots, OF assms(1,6), unfolded assms(8)]
  from first_expansion(4) [OF assms(3)] obtain cs where cs: "map_of (snd ?A) b = Some cs" by blast
  have b1: "map_of (model_components first_index) b = Some cs" using map_le_Some [OF first cs] .
  have b2: "map_of (model_components second_index) b = Some (fst ?B)"
    using map_le_Some [OF second first_expansion(2)] .
  have within: "set cs \<subseteq> components_within direct results (- {a}) b"
    by (rule first_expansion_cuts [OF assms(2) [symmetric] cs])
  have all: "set (fst ?B) = all_components direct results b" by (rule first_expansion(1))
  have "c \<in> set (fst ?B) \<and> c \<notin> set cs"
    if "c \<in> set (get_list direct a)" "\<forall>n. n \<noteq> a \<longrightarrow> c \<notin> set (get_list direct n)" for c
    using that within assms(4) unfolding all all_components_def components_within_def by blast
  with b1 b2 within all show ?thesis by (auto simp: get_list_def components_within_def)
qed

text \<open>Two models that use each other: each has the other's result among its components.\<close>

definition reference_json :: "string \<Rightarrow> json" where
  "reference_json i = JObject [(''@refObjectId'', JString i), (''@version'', JString ''1'')]"

definition model_json :: "string \<Rightarrow> string list \<Rightarrow> json" where
  "model_json result comps = JObject [(''lifeCycleModelDataSet'', JObject [(''lifeCycleModelInformation'', JObject
     [(''dataSetInformation'', JObject [(''referenceToResultingProcess'', reference_json result)]),
      (''technology'', JObject [(''processes'', JObject [(''processInstance'',
         JArray (map (\<lambda>c. JObject [(''referenceToProcess'', reference_json c)]) comps))])])])])]"

definition cyclic_models :: "lifecycle_model_row list" where
  "cyclic_models =
     [\<lparr>lm_identity = versioned_model_new 1 ''1'', lm_json = model_json ''1'' [''01'', ''11'']\<rparr>,
      \<lparr>lm_identity = versioned_model_new 2 ''1'', lm_json = model_json ''01'' [''1'', ''001'']\<rparr>]"

definition cyclic_direct :: "(versioned_model_identity \<times> versioned_process_identity list) list" where
  "cyclic_direct =
     [(versioned_model_new 1 ''1'', [versioned_process_new 2 ''1'', versioned_process_new 3 ''1'']),
      (versioned_model_new 2 ''1'', [versioned_process_new 1 ''1'', versioned_process_new 4 ''1''])]"

definition cyclic_results :: "(versioned_process_identity \<times> versioned_model_identity list) list" where
  "cyclic_results =
     [(versioned_process_new 1 ''1'', [versioned_model_new 1 ''1'']), (versioned_process_new 2 ''1'', [versioned_model_new 2 ''1''])]"

lemma cyclic_built_maps: "built_maps parse_bits cyclic_models = (cyclic_direct, cyclic_results)"
  by code_simp

lemma cyclic_uses:
  "(uses_model cyclic_direct cyclic_results)\<^sup>*\<^sup>* (versioned_model_new 1 ''1'') (versioned_model_new 2 ''1'')"
  "(uses_model cyclic_direct cyclic_results)\<^sup>*\<^sup>* (versioned_model_new 2 ''1'') (versioned_model_new 1 ''1'')"
  by (rule r_into_rtranclp, code_simp)+

theorem cyclic_models_order_dependent_witness:
  "versioned_process_new 3 ''1'' \<in> set (get_list (model_components
     (build_provider_lineage_index parse_bits rev cyclic_models [])) (versioned_model_new 2 ''1'')) \<and>
   versioned_process_new 3 ''1'' \<notin> set (get_list (model_components
     (build_provider_lineage_index parse_bits id cyclic_models [])) (versioned_model_new 2 ''1''))"
proof -
  let ?a = "versioned_model_new 1 ''1''" and ?b = "versioned_model_new 2 ''1''" and ?c = "versioned_process_new 3 ''1''"
  have "\<forall>c \<in> set (get_list cyclic_direct ?a). (\<forall>n. n \<noteq> ?a \<longrightarrow> c \<notin> set (get_list cyclic_direct n)) \<longrightarrow>
       c \<in> set (get_list (model_components (build_provider_lineage_index parse_bits rev cyclic_models [])) ?b) \<and>
       c \<notin> set (get_list (model_components (build_provider_lineage_index parse_bits id cyclic_models [])) ?b)"
    using cyclic_models_order_dependent [OF cyclic_built_maps _ cyclic_uses, of id "[?b]" rev "[?a]"]
    by (simp add: cyclic_direct_def versioned_model_new_def)
  moreover have "?c \<in> set (get_list cyclic_direct ?a)" "\<forall>n. n \<noteq> ?a \<longrightarrow> ?c \<notin> set (get_list cyclic_direct n)"
    by (auto simp: cyclic_direct_def get_list_def versioned_process_new_def unwrap_or_def)
  ultimately show ?thesis by blast
qed

subsection \<open>What the gate decides\<close>

text \<open>
  Two candidates overlap when one is a result and the other a component of the same model, or
  when both are results of the same model; a candidate also overlaps with itself when it is a
  result of two versions of one model.
\<close>

definition lineage_overlap :: "provider_lineage_index \<Rightarrow> identified_providers \<Rightarrow> bool" where
  "lineage_overlap lineage ids \<longleftrightarrow>
     (\<exists>(p, i) \<in> set ids. \<exists>(q, j) \<in> set ids. \<exists>m \<in> set (get_list (result_models lineage) i).
        p \<noteq> q \<and> j \<in> set (get_list (model_components lineage) m) \<or>
        (\<exists>n \<in> set (get_list (result_models lineage) j).
           vm_model_id m = vm_model_id n \<and> (m \<noteq> n \<or> p \<noteq> q)))"

lemma lineage_overlap_iff:
  "lineage_overlap lineage ids \<longleftrightarrow> (\<exists>p i q j m n. (p, i) \<in> set ids \<and> (q, j) \<in> set ids \<and>
     m \<in> set (get_list (result_models lineage) i) \<and>
     (p \<noteq> q \<and> j \<in> set (get_list (model_components lineage) m) \<or>
      n \<in> set (get_list (result_models lineage) j) \<and> vm_model_id m = vm_model_id n \<and> (m \<noteq> n \<or> p \<noteq> q)))"
  by (simp add: lineage_overlap_def Bex_def split_paired_Ex)

lemma overlap_split:
  "(\<exists>p i q j m n. A p i \<and> A q j \<and> M m i \<and> (p \<noteq> q \<and> K j m \<or> M n j \<and> V m = V n \<and> (m \<noteq> n \<or> p \<noteq> q))) \<longleftrightarrow>
   (\<exists>m p q. (\<exists>i. A p i \<and> M m i) \<and> (\<exists>j. A q j \<and> K j m) \<and> p \<noteq> q) \<or>
   (\<exists>m p q. (\<exists>i. A p i \<and> M m i) \<and> (\<exists>i. A q i \<and> M m i) \<and> p \<noteq> q) \<or>
   (\<exists>m n. (\<exists>p i. A p i \<and> M m i) \<and> (\<exists>q i. A q i \<and> M n i) \<and> m \<noteq> n \<and> V m = V n)"
  (is "?L \<longleftrightarrow> ?R")
proof
  assume ?L
  then obtain p i q j m n where "A p i" "A q j" "M m i"
    "p \<noteq> q \<and> K j m \<or> M n j \<and> V m = V n \<and> (m \<noteq> n \<or> p \<noteq> q)" by blast
  then show ?R by (cases "m = n") blast+
next
  assume ?R
  then show ?L by blast
qed

lemma flag_split:
  "X \<or> (\<exists>m. N m \<and> ((\<exists>k. N k \<and> V k = V m \<and> L k) \<or> (\<exists>a b. N a \<and> N b \<and> a \<noteq> b \<and> V a = V m \<and> V b = V m))) \<longleftrightarrow>
   X \<or> (\<exists>m. N m \<and> L m) \<or> (\<exists>a b. N a \<and> N b \<and> a \<noteq> b \<and> V a = V b)"
  by (cases X) (simp_all, blast)

lemma distinct_two: "distinct xs \<Longrightarrow> 1 < length xs \<longleftrightarrow> (\<exists>a \<in> set xs. \<exists>b \<in> set xs. a \<noteq> b)"
proof (cases xs)
  case (Cons x ys)
  assume "distinct xs"
  with Cons show ?thesis by (cases ys) auto
qed simp

lemma candidates_by_identity_get: "set (get_list (candidates_by_identity ids) i) = {p. (p, i) \<in> set ids}"
proof -
  have "candidates_by_identity ids = foldl (\<lambda>m x. entry_insert (snd x) (fst x) m) [] ids"
    unfolding candidates_by_identity_def by (rule foldl_cong) auto
  then show ?thesis
    using foldl_entry_insert_get [of snd fst "[]" ids i] by (auto simp: get_list_def)
qed

definition grouped :: "('k \<times> 'v list) list \<Rightarrow> bool" where
  "grouped m \<longleftrightarrow> distinct (map fst m) \<and> (\<forall>e \<in> set m. snd e \<noteq> [] \<and> distinct (snd e))"

lemma grouped_insert: "grouped m \<Longrightarrow> grouped (entry_insert k v m)"
  unfolding grouped_def
  by (induction k v m rule: entry_insert.induct) (auto simp: entry_insert_keys List.insert_def)

lemma grouped_get:
  assumes "grouped m"
  shows "(k, vs) \<in> set m \<longleftrightarrow> vs = get_list m k \<and> vs \<noteq> []"
proof (cases "map_of m k")
  case None
  then have "k \<notin> fst ` set m" by (simp add: map_of_eq_None_iff)
  then show ?thesis using None by (force simp: get_list_def)
next
  case (Some ws)
  then have "ws \<noteq> []" using assms by (auto simp: grouped_def dest!: map_of_SomeD)
  moreover have "(k, vs) \<in> set m \<longleftrightarrow> vs = ws"
    using map_of_eq_Some_iff [of m k vs] assms unfolding Some grouped_def by auto
  ultimately show ?thesis using Some by (auto simp: get_list_def)
qed

lemma results_by_model_get:
  "grouped (results_by_model lineage ids) \<and>
   set (get_list (results_by_model lineage ids) m) = {p. \<exists>i. (p, i) \<in> set ids \<and> m \<in> set (get_list (result_models lineage) i)}"
proof -
  have inner: "grouped g \<Longrightarrow> grouped (foldl (\<lambda>g1 m. entry_insert m p g1) g ms)" for g p ms
    by (induction ms arbitrary: g) (auto intro: grouped_insert)
  let ?f = "\<lambda>g (p, i). foldl (\<lambda>g1 m. entry_insert m p g1) g (get_list (result_models lineage) i)"
  have "grouped (foldl ?f [] ids)"
    by (rule foldl_invariant) (auto simp: inner grouped_def [of "[]"])
  moreover have "set (get_list (foldl ?f g ids) m) =
    set (get_list g m) \<union> {p. \<exists>i. (p, i) \<in> set ids \<and> m \<in> set (get_list (result_models lineage) i)}" for g
  proof (induction ids arbitrary: g)
    case (Cons e ids)
    obtain p i where e: "e = (p, i)" by (cases e)
    have "set (get_list (foldl (\<lambda>g1 m. entry_insert m p g1) g ms) m) = set (get_list g m) \<union> {p |x. x \<in> set ms \<and> x = m}" for ms
      using foldl_entry_insert_get [of "\<lambda>x. x" "\<lambda>_. p" g ms m] by simp
    with Cons.IH [of "foldl (\<lambda>g1 m. entry_insert m p g1) g (get_list (result_models lineage) i)"]
    show ?case by (auto simp: e)
  qed simp
  ultimately show ?thesis by (simp add: results_by_model_def get_list_def)
qed

lemma component_providers_set:
  "set (component_providers lineage (candidates_by_identity ids) m) =
     {q. \<exists>j. (q, j) \<in> set ids \<and> j \<in> set (get_list (model_components lineage) m)}"
  by (auto simp: component_providers_def candidates_by_identity_get)

lemma foldl_conflict:
  "snd (foldl f s es) \<longleftrightarrow> snd s \<or> (\<exists>e \<in> set es. C e)"
  if "\<And>s e. e \<in> set es \<Longrightarrow> snd (f s e) \<longleftrightarrow> snd s \<or> C e"
  using that by (induction es arbitrary: s) auto

lemma two_sets:
  assumes "A \<noteq> {}" and "C \<noteq> {}"
  shows "(\<exists>x \<in> C \<union> A. \<exists>y \<in> C \<union> A. x \<noteq> y) \<longleftrightarrow> (\<exists>p \<in> A. \<exists>q \<in> C. p \<noteq> q)"
proof -
  obtain a c where ac: "a \<in> A" "c \<in> C" using assms by blast
  have "x = a" if same: "\<forall>p \<in> A. \<forall>q \<in> C. p = q" and x: "x \<in> C \<union> A" for x
    using x same ac by (cases "x \<in> C") auto
  then show ?thesis by blast
qed

lemma composition_conflict:
  assumes "distinct (snd e)"
  shows "snd (composition_step lineage (candidates_by_identity ids) s e) \<longleftrightarrow> snd s \<or>
    (\<exists>p \<in> set (snd e). \<exists>q j. (q, j) \<in> set ids \<and> p \<noteq> q \<and> j \<in> set (get_list (model_components lineage) (fst e)))"
proof -
  let ?C = "component_providers lineage (candidates_by_identity ids) (fst e)"
  have "distinct (List.union ?C (snd e))" using assms by simp
  then have "1 < length (List.union ?C (snd e)) \<longleftrightarrow>
      (\<exists>x \<in> set ?C \<union> set (snd e). \<exists>y \<in> set ?C \<union> set (snd e). x \<noteq> y)"
    by (simp only: distinct_two set_union)
  then have "snd e \<noteq> [] \<and> ?C \<noteq> [] \<and> 1 < length (List.union ?C (snd e)) \<longleftrightarrow> (\<exists>p \<in> set (snd e). \<exists>q \<in> set ?C. p \<noteq> q)"
    using two_sets [of "set (snd e)" "set ?C"] by (cases "snd e = []"; cases "?C = []") simp_all
  then show ?thesis
    by (auto simp: composition_step_def Let_def component_providers_set)
qed


lemma alternatives_conflict:
  "snd (foldl (\<lambda>s0 e. if 1 < length (snd e) then (mark AlternativeModelResult (fst s0) (snd e), True) else s0) s es)
     \<longleftrightarrow> snd s \<or> (\<exists>e \<in> set es. 1 < length (snd e))"
  by (rule foldl_conflict) simp

lemma version_conflict:
  "snd (version_step lineage ids by_model s u) \<longleftrightarrow> snd s \<or>
     (\<exists>e \<in> set by_model. vm_model_id (fst e) = u \<and> 1 < length (snd e)) \<or>
     1 < length (filter (\<lambda>e. vm_model_id (fst e) = u) by_model)"
proof -
  let ?exact = "filter (\<lambda>e. vm_model_id (fst e) = u) by_model"
  have "snd (foldl (\<lambda>s0 e. if 1 < length (snd e) then (mark AlternativeModelResult (fst s0) (snd e), True) else s0) s ?exact)
     \<longleftrightarrow> snd s \<or> (\<exists>e \<in> set by_model. vm_model_id (fst e) = u \<and> 1 < length (snd e))"
    using alternatives_conflict [of s ?exact] by (simp only: set_filter mem_Collect_eq Bex_def conj_assoc)
  note alt = this
  show ?thesis
  proof (cases "length ?exact \<le> 1")
    case True
    then have "version_step lineage ids by_model s u = foldl (\<lambda>s0 e. if 1 < length (snd e)
        then (mark AlternativeModelResult (fst s0) (snd e), True) else s0) s ?exact"
      by (simp add: version_step_def Let_def)
    with alt True show ?thesis by (simp only: not_le [symmetric] simp_thms)
  next
    case False
    then show ?thesis by (simp add: version_step_def Let_def)
  qed
qed

text \<open>The conflict flag after the two loops is the overlap.\<close>

lemma gate_conflict:
  assumes "by_model = results_by_model lineage ids" and "cands = candidates_by_identity ids"
  shows "snd (foldl (version_step lineage ids by_model) (foldl (composition_step lineage cands) ([], False) by_model)
            (remdups (map (vm_model_id \<circ> fst) by_model))) \<longleftrightarrow> lineage_overlap lineage ids"
    (is "?conflict \<longleftrightarrow> _")
proof -
  let ?R = "\<lambda>p m. \<exists>i. (p, i) \<in> set ids \<and> m \<in> set (get_list (result_models lineage) i)"
  let ?C = "\<lambda>q m. \<exists>j. (q, j) \<in> set ids \<and> j \<in> set (get_list (model_components lineage) m)"
  have g: "grouped by_model" and get: "set (get_list by_model m) = {p. ?R p m}" for m
    using results_by_model_get by (auto simp: assms(1))
  have dist: "distinct by_model" using g by (simp add: grouped_def distinct_map)
  have D: "distinct (snd e)" if "e \<in> set by_model" for e using g that by (auto simp: grouped_def)
  have mem: "e \<in> set by_model \<longleftrightarrow> snd e = get_list by_model (fst e) \<and> (\<exists>p. ?R p (fst e))" for e
    using grouped_get [OF g, of "fst e" "snd e"] get [of "fst e"] by (auto simp flip: set_empty)
  have ps: "set (snd e) = {p. ?R p (fst e)}" if "e \<in> set by_model" for e
    using mem that get by simp
  have mem': "(\<exists>e \<in> set by_model. Q e) \<longleftrightarrow> (\<exists>m. (\<exists>p. ?R p m) \<and> Q (m, get_list by_model m))" for Q
    using mem by (metis fst_conv prod.collapse snd_conv)
  have comp: "snd (foldl (composition_step lineage cands) ([], False) by_model) \<longleftrightarrow>
      (\<exists>m p q. ?R p m \<and> ?C q m \<and> p \<noteq> q)"
  proof -
    have "snd (foldl (composition_step lineage cands) ([], False) by_model) \<longleftrightarrow> snd (([], False) :: gate_state) \<or>
      (\<exists>e \<in> set by_model. \<exists>p \<in> set (snd e). \<exists>q j. (q, j) \<in> set ids \<and> p \<noteq> q \<and> j \<in> set (get_list (model_components lineage) (fst e)))"
      by (rule foldl_conflict) (simp only: composition_conflict [OF D] assms(2))
    also have "\<dots> \<longleftrightarrow> (\<exists>m p q. ?R p m \<and> ?C q m \<and> p \<noteq> q)"
      unfolding mem' fst_conv snd_conv get by blast
    finally show ?thesis .
  qed
  have two: "1 < length (filter (\<lambda>e. vm_model_id (fst e) = u) by_model) \<longleftrightarrow>
      (\<exists>m n. (\<exists>p. ?R p m) \<and> (\<exists>q. ?R q n) \<and> m \<noteq> n \<and> vm_model_id m = u \<and> vm_model_id n = u)" for u
  proof -
    have "1 < length (filter (\<lambda>e. vm_model_id (fst e) = u) by_model) \<longleftrightarrow>
      (\<exists>e \<in> set by_model. \<exists>f \<in> set by_model. vm_model_id (fst e) = u \<and> vm_model_id (fst f) = u \<and> e \<noteq> f)"
      unfolding distinct_two [OF distinct_filter [OF dist, of "\<lambda>e. vm_model_id (fst e) = u"]]
        set_filter mem_Collect_eq by blast
    also have "\<dots> \<longleftrightarrow> (\<exists>m n. (\<exists>p. ?R p m) \<and> (\<exists>q. ?R q n) \<and> m \<noteq> n \<and> vm_model_id m = u \<and> vm_model_id n = u)"
      unfolding mem' fst_conv by auto
    finally show ?thesis .
  qed
  have many: "1 < length (get_list by_model m) \<longleftrightarrow> (\<exists>p q. ?R p m \<and> ?R q m \<and> p \<noteq> q)" if "?R p m" for p m
  proof -
    have "distinct (get_list by_model m)" using D [of "(m, get_list by_model m)"] mem that by auto
    from distinct_two [OF this] show ?thesis unfolding get by auto
  qed
  have "?conflict \<longleftrightarrow> (\<exists>m p q. ?R p m \<and> ?C q m \<and> p \<noteq> q) \<or>
      (\<exists>u \<in> set (remdups (map (vm_model_id \<circ> fst) by_model)).
        (\<exists>e \<in> set by_model. vm_model_id (fst e) = u \<and> 1 < length (snd e)) \<or>
        1 < length (filter (\<lambda>e. vm_model_id (fst e) = u) by_model))"
    unfolding comp [symmetric] by (rule foldl_conflict) (rule version_conflict)
  also have "\<dots> \<longleftrightarrow> (\<exists>m p q. ?R p m \<and> ?C q m \<and> p \<noteq> q) \<or>
      (\<exists>m p q. ?R p m \<and> ?R q m \<and> p \<noteq> q) \<or>
      (\<exists>m n. (\<exists>p. ?R p m) \<and> (\<exists>q. ?R q n) \<and> m \<noteq> n \<and> vm_model_id m = vm_model_id n)"
  proof -
    have keys: "(\<exists>u \<in> set (remdups (map (vm_model_id \<circ> fst) by_model)). Q u) \<longleftrightarrow> (\<exists>m. (\<exists>p. ?R p m) \<and> Q (vm_model_id m))" for Q
      using mem' [of "\<lambda>e. Q (vm_model_id (fst e))"] by simp
    have m1: "(\<exists>p. ?R p m) \<and> 1 < length (get_list by_model m) \<longleftrightarrow> (\<exists>p q. ?R p m \<and> ?R q m \<and> p \<noteq> q)" for m
      using many by blast
    have m2: "(\<exists>m p q. ?R p m \<and> ?R q m \<and> p \<noteq> q) \<longleftrightarrow> (\<exists>m. (\<exists>p. ?R p m) \<and> 1 < length (get_list by_model m))"
      by (simp only: m1)
    show ?thesis unfolding keys mem' two fst_conv snd_conv m2 by (rule flag_split)
  qed
  also have "\<dots> \<longleftrightarrow> lineage_overlap lineage ids" unfolding lineage_overlap_iff by (rule overlap_split [symmetric])
  finally show ?thesis .
qed

lemma foldl_update_keys:
  "fst ` set (foldl (\<lambda>m e. AList.update (k e) (v e) m) m es) = fst ` set m \<union> k ` set es"
  by (induction es arbitrary: m) (auto simp: dom_update)

lemma foldl_update_values:
  "\<forall>e \<in> set m. snd e = c \<Longrightarrow> \<forall>e \<in> set (foldl (\<lambda>m e. AList.update (k e) c m) m es). snd e = c"
proof (induction es arbitrary: m)
  case (Cons x es)
  have "\<forall>e \<in> set (AList.update (k x) c m). snd e = c"
    using Cons.prems by (induction m) auto
  from Cons.IH [OF this] show ?case by simp
qed simp

lemma provider_identities_fst:
  "provider_identities metas providers = Ok ids \<Longrightarrow> map fst ids = providers"
  unfolding provider_identities_def traverse_Ok_iff
  by (induction providers ids rule: list_all2_induct) (auto simp: and_then_Ok_iff)

text \<open>
  C30. The gate lets every candidate through when no two overlap in lineage. When some do, it
  keeps exactly the one candidate that the request selects as a model result and gives every
  other candidate a reason, and when the request selects none or several of them it keeps no
  candidate and marks the exchange as unresolved. So a model's result and its components, or two
  results of one model, never both supply an exchange.
\<close>

theorem lineage_gate_decides:
  assumes "apply_provider_lineage_gate providers metas lineage = Ok gate"
    and "provider_identities metas providers = Ok ids"
  shows "(\<not> lineage_overlap lineage ids \<longrightarrow> gate_providers gate = providers \<and>
       selected_model_result gate = None \<and> \<not> gate_unresolved gate \<and> rejection_by_provider gate = []) \<and>
    (lineage_overlap lineage ids \<longrightarrow>
       (case filter (\<lambda>e. snd e \<in> set (selected_results lineage)) ids of
          [chosen] \<Rightarrow> gate_providers gate = [fst chosen] \<and> selected_model_result gate = Some (fst chosen) \<and>
            \<not> gate_unresolved gate \<and> fst ` set (rejection_by_provider gate) = set providers - {fst chosen}
        | _ \<Rightarrow> gate_providers gate = [] \<and> selected_model_result gate = None \<and> gate_unresolved gate \<and>
            (\<forall>e \<in> set (rejection_by_provider gate). snd e = OverlapRequiresBinding)))"
proof -
  let ?by = "results_by_model lineage ids"
  let ?s = "foldl (version_step lineage ids ?by) (foldl (composition_step lineage (candidates_by_identity ids)) ([], False) ?by)
            (remdups (map (vm_model_id \<circ> fst) ?by))"
  let ?gate = "\<lparr>gate_providers = providers, relationships_by_provider = fst ?s,
                 rejection_by_provider = [], selected_model_result = None, gate_unresolved = False\<rparr>"
  have conflict: "snd ?s \<longleftrightarrow> lineage_overlap lineage ids" by (rule gate_conflict) simp_all
  have providers: "set providers = fst ` set ids" using provider_identities_fst [OF assms(2)] by (metis set_map)
  note gate = assms(1) [unfolded apply_provider_lineage_gate_def assms(2) Let_def split_beta and_then_simps]
  show ?thesis
  proof (cases "lineage_overlap lineage ids")
    case False
    with gate conflict have "gate = ?gate" by simp
    with False show ?thesis by simp
  next
    case True
    let ?sel = "filter (\<lambda>e. snd e \<in> set (selected_results lineage)) ids"
    have unresolved: "gate_providers gate = [] \<and> selected_model_result gate = None \<and> gate_unresolved gate \<and>
        rejection_by_provider gate = foldl (\<lambda>m e. AList.update (fst e) OverlapRequiresBinding m) []
          (filter (\<lambda>e. map_of (fst ?s) (fst e) \<noteq> None) ids)" if "?sel = [] \<or> (\<exists>e f es. ?sel = e # f # es)"
      using gate conflict True that by auto
    have reasons: "\<forall>e \<in> set (foldl (\<lambda>m e. AList.update (fst e) OverlapRequiresBinding m) [] es). snd e = OverlapRequiresBinding"
      for es :: identified_providers
      by (rule foldl_update_values) simp
    consider (one) chosen where "?sel = [chosen]" | (none) "?sel = []" | (many) e f es where "?sel = e # f # es"
      by (metis neq_Nil_conv)
    then show ?thesis
    proof cases
      case (one chosen)
      let ?reason = "\<lambda>e. lineage_rejection_for_selected_result (snd chosen) (snd e)
          (provider_lineage_relationships (snd chosen) (snd e) lineage) lineage"
      have g: "gate_providers gate = [fst chosen]" "selected_model_result gate = Some (fst chosen)" "\<not> gate_unresolved gate"
        and rej: "rejection_by_provider gate =
          foldl (\<lambda>m e. AList.update (fst e) (?reason e) m) [] (filter (\<lambda>e. fst e \<noteq> fst chosen) ids)"
        using gate conflict True by (auto simp: one)
      have "fst ` set (rejection_by_provider gate) = set providers - {fst chosen}"
        unfolding rej foldl_update_keys providers by force
      with g show ?thesis using True by (simp add: one)
    next
      case none
      with unresolved reasons show ?thesis using True by (simp add: none)
    next
      case (many e f es)
      with unresolved reasons show ?thesis using True by (simp add: many)
    qed
  qed
qed

subsection \<open>Examples\<close>

text \<open>A model that uses the result of a second one; its result and that component overlap.\<close>

definition nested_model_rows :: "lifecycle_model_row list" where
  "nested_model_rows =
     [\<lparr>lm_identity = versioned_model_new 1 ''1'', lm_json = model_json ''1'' [''01'']\<rparr>,
      \<lparr>lm_identity = versioned_model_new 2 ''1'', lm_json = model_json ''01'' [''001'']\<rparr>]"

abbreviation example_process :: "uuid \<Rightarrow> versioned_process_identity" where
  "example_process i \<equiv> \<lparr>vp_process_id = i, vp_process_version = ''1''\<rparr>"

abbreviation example_model :: "uuid \<Rightarrow> versioned_model_identity" where
  "example_model i \<equiv> \<lparr>vm_model_id = i, vm_model_version = ''1''\<rparr>"

lemma nested_built_maps:
  "built_maps parse_bits nested_model_rows =
     ([(example_model 1, [example_process 2]), (example_model 2, [example_process 4])],
      [(example_process 1, [example_model 1]), (example_process 2, [example_model 2])])"
  by code_simp

lemma nested_uses:
  "uses_model [(example_model 1, [example_process 2]), (example_model 2, [example_process 4])]
     [(example_process 1, [example_model 1]), (example_process 2, [example_model 2])] m n \<longleftrightarrow>
   m = example_model 1 \<and> n = example_model 2"
  by (auto simp: uses_model_def nested_models_def get_list_def)

theorem lineage_index_closed_witness:
  "\<exists>cs. map_of (model_components (build_provider_lineage_index parse_bits rev nested_model_rows [])) (example_model 1) = Some cs \<and>
     set cs = all_components [(example_model 1, [example_process 2]), (example_model 2, [example_process 4])]
       [(example_process 1, [example_model 1]), (example_process 2, [example_model 2])] (example_model 1)"
proof -
  let ?direct = "[(example_model 1, [example_process 2]), (example_model 2, [example_process 4])]"
  let ?results = "[(example_process 1, [example_model 1]), (example_process 2, [example_model 2])]"
  have "acyclic {(example_model 1, example_model 2)}" by (simp add: acyclic_insert acyclic_def [of "{}"])
  then have acyc: "acyclicP (uses_model ?direct ?results)" by (simp add: nested_uses)
  have order: "set (rev (map fst ?direct)) = fst ` set ?direct" by auto
  have "example_model 1 \<in> lm_identity ` set nested_model_rows"
    by (simp add: nested_model_rows_def versioned_model_new_def trim_def is_ws_def)
  from lineage_index_closed [where roots = "[]" and key_order = rev, OF nested_built_maps acyc order refl, THEN conjunct1, THEN bspec, OF this]
  show ?thesis .
qed

definition gate_metas :: "process_meta list" where
  "gate_metas = map (\<lambda>i. \<lparr>pm_process_idx = 0, pm_process_id = i, pm_process_version = ''1'', pm_process_name = None,
     pm_model_id = None, pm_model_version = None, pm_location = None, pm_reference_year = None,
     pm_annual_volume = None\<rparr>) [1, 2]"

definition gate_lineage :: provider_lineage_index where
  "gate_lineage = \<lparr>model_components = [(example_model 1, [example_process 2])],
     result_models = [(example_process 1, [example_model 1])],
     component_models = [(example_process 2, [example_model 1])], selected_results = [example_process 1]\<rparr>"

lemma gate_total:
  "provider_identities metas providers = Ok ids \<Longrightarrow> \<exists>gate. apply_provider_lineage_gate providers metas lineage = Ok gate"
  by (simp add: apply_provider_lineage_gate_def Let_def split_beta split: list.splits)

theorem lineage_gate_decides_witness:
  "\<exists>gate. apply_provider_lineage_gate [0, 1] gate_metas gate_lineage = Ok gate \<and>
     gate_providers gate = [0] \<and> fst ` set (rejection_by_provider gate) = {1}"
proof -
  have ids: "provider_identities gate_metas [0, 1] = Ok [(0, example_process 1), (1, example_process 2)]"
    by code_simp
  obtain gate where gate: "apply_provider_lineage_gate [0, 1] gate_metas gate_lineage = Ok gate"
    using gate_total [OF ids] by blast
  have overlap: "lineage_overlap gate_lineage [(0, example_process 1), (1, example_process 2)]"
    by (simp add: lineage_overlap_def gate_lineage_def get_list_def)
  from lineage_gate_decides [OF gate ids] overlap
  have "gate_providers gate = [0] \<and> fst ` set (rejection_by_provider gate) = {0, 1} - {0}"
    by (simp add: gate_lineage_def)
  with gate show ?thesis by auto
qed

end
