(* ===== verification/Provider_Linking.thy ===== *)
theory Provider_Linking
  imports Provider_Lineage Csc_Matrix
begin

text \<open>
  Linking exchanges to providers in the snapshot builder
  (\<open>solver-worker/src/bin/snapshot_builder.rs\<close>): location descriptors and geography tiers,
  candidate scores, the provider rules, and the loop that turns every residual technosphere
  exchange into a decision and, where it can be balanced, into edges of the technosphere matrix.
  Counters are unbounded integers (the code's \<open>i64\<close> counts list elements); \<open>i32\<close> years wrap as
  in a release build. Decimal constants are the nearest binary64 values.
\<close>

subsection \<open>Data\<close>

datatype allocation_fraction_state = AllocPresent | AllocSparseZero | AllocMissing | AllocInvalid

datatype allocation_fallback_state =
  FallbackNone | FallbackLegacyEmptyUndeclared | FallbackLegacySingleReferenceTargetInferred

record parsed_exchange =
  px_process_idx :: i32
  px_flow_id :: uuid
  px_direction :: "exchange_direction option"
  px_direction_label :: string
  px_internal_id :: "string option"
  px_exchange_id :: string
  px_flow_version :: string
  px_is_reference_exchange :: bool
  px_raw_amount :: "f64 option"
  px_signed_raw_coefficient :: "f64 option"
  px_amount :: "f64 option"
  px_allocation_state :: allocation_fraction_state
  px_allocation_fraction :: f64
  px_allocation_target_internal_id :: string
  px_location :: "string option"

record reference_port_candidate =
  rp_flow_id :: uuid
  rp_flow_version :: string
  rp_process_idx :: i32
  rp_reference_exchange_internal_id :: "string option"
  rp_coefficient :: f64
  rp_raw_direction :: exchange_direction
  rp_raw_amount :: f64
  rp_signed_raw_coefficient :: f64
  rp_allocation_state :: allocation_fraction_state

record flow_link_identity =
  fl_flow_id :: uuid
  fl_flow_version :: string

type_synonym reference_port_map = "(flow_link_identity \<times> reference_port_candidate list) list"

datatype provider_rule =
    StrictUniqueProvider | BestProviderStrict | SplitByProcessVolume | SplitByEvidenceStrict
  | SplitByEvidenceHybrid | SplitEqual

datatype strictness_mode = StrictMode | LenientMode

record provider_candidate_score =
  cs_provider_idx :: i32
  cs_provider_id :: uuid
  cs_geo_score :: f64
  cs_time_score :: f64
  cs_final_score :: f64

record supply_region_anchor =
  anchor_source :: supply_region_source
  anchor_location :: "string option"

record location_descriptor =
  ld_canonical :: "string option"
  ld_country_code :: "string option"
  ld_region_group :: "string option"
  ld_is_subnational :: bool
  ld_is_global :: bool

record multi_provider_resolution =
  mp_allocations :: "(i32 \<times> f64) list"
  mp_resolution_strategy :: provider_resolution_strategy
  mp_used_equal_fallback :: bool
  mp_volume_fallback_to_one_count :: i32
  mp_geography_tier :: "geography_tier option"

datatype multi_provider_decision = Resolved multi_provider_resolution | Unresolved provider_failure_reason

record compiled_balance_batch =
  bb_decisions :: "compiled_provider_decision list"
  bb_technosphere_edges :: "compiled_technosphere_edge list"
  bb_release_edges :: "compiled_release_technosphere_edge list"
  bb_resolutions :: "compiled_balance_resolution list"
  bb_unresolved :: "compiled_unresolved_balance list"
  bb_matching_stats :: compiled_matching_stats

definition f64_epsilon :: f64 where "f64_epsilon = Fin (1 / 2 ^ 52)"
definition auto_link_geo_weight :: f64 where "auto_link_geo_weight = round64 (7 / 10)"
definition auto_link_time_weight :: f64 where "auto_link_time_weight = round64 (3 / 10)"
definition auto_link_min_score :: f64 where "auto_link_min_score = round64 (35 / 100)"
definition auto_link_top1_min_score :: f64 where "auto_link_top1_min_score = round64 (55 / 100)"
definition auto_link_top1_top2_min_ratio :: f64 where "auto_link_top1_top2_min_ratio = round64 (12 / 10)"
definition f64_of_usize :: "nat \<Rightarrow> f64" where "f64_of_usize n = round64 (of_nat n)"

definition parse_exchange_direction :: "string option \<Rightarrow> exchange_direction option" where
  "parse_exchange_direction v =
     (case map_option trim v of
        Some s \<Rightarrow> (if s = ''Input'' then Some ExInput else if s = ''Output'' then Some ExOutput else None)
      | None \<Rightarrow> None)"

fun provider_rule_as_str :: "provider_rule \<Rightarrow> string" where
  "provider_rule_as_str StrictUniqueProvider = ''strict_unique_provider''"
| "provider_rule_as_str BestProviderStrict = ''best_provider_strict''"
| "provider_rule_as_str SplitByProcessVolume = ''split_by_process_volume''"
| "provider_rule_as_str SplitByEvidenceStrict = ''split_by_evidence''"
| "provider_rule_as_str SplitByEvidenceHybrid = ''split_by_evidence_hybrid''"
| "provider_rule_as_str SplitEqual = ''split_equal''"

definition provider_rule_parse :: "string \<Rightarrow> (string, provider_rule) result" where
  "provider_rule_parse v =
     (if v = ''strict_unique_provider'' then Ok StrictUniqueProvider
      else if v = ''best_provider_strict'' then Ok BestProviderStrict
      else if v = ''split_by_process_volume'' then Ok SplitByProcessVolume
      else if v = ''split_by_evidence'' then Ok SplitByEvidenceStrict
      else if v = ''split_by_evidence_hybrid'' then Ok SplitByEvidenceHybrid
      else if v = ''split_equal'' then Ok SplitEqual
      else Err (''unsupported provider_rule='' @ v))"

definition normalization_mode_parse :: "string \<Rightarrow> (string, strictness_mode) result" where
  "normalization_mode_parse v =
     (if v = ''strict'' then Ok StrictMode else if v = ''lenient'' then Ok LenientMode
      else Err (''unsupported reference_normalization_mode='' @ v))"

definition allocation_mode_parse :: "string \<Rightarrow> (string, strictness_mode) result" where
  "allocation_mode_parse v =
     (if v = ''strict'' then Ok StrictMode else if v = ''lenient'' then Ok LenientMode
      else Err (''unsupported allocation_fraction_mode='' @ v))"

definition flow_link_identity_from_parts :: "uuid \<Rightarrow> string \<Rightarrow> flow_link_identity" where
  "flow_link_identity_from_parts i v = \<lparr>fl_flow_id = i, fl_flow_version = v\<rparr>"

definition flow_link_identity_of :: "parsed_exchange \<Rightarrow> flow_link_identity" where
  "flow_link_identity_of ex = flow_link_identity_from_parts (px_flow_id ex) (px_flow_version ex)"

subsection \<open>Locations\<close>

definition extract_country_code :: "string \<Rightarrow> string option" where
  "extract_country_code location =
     (if location = ''GLO'' then None
      else let token = trim (takeWhile (\<lambda>c. c \<notin> {CHR ''-'', CHR ''_'', CHR '' ''}) location)
           in if length token = 2 \<and> list_all is_ascii_alphabetic token then Some token else None)"

definition region_codes :: "(string \<times> string list) list" where
  "region_codes =
     [(''GLOBAL'', [''GLO'', ''ROW'']),
      (''EUROPE'', [''RER'', ''EU'', ''EU27'', ''EU28'', ''EFTA'', ''WEU'', ''EEU'', ''AT'', ''BE'', ''BG'',
         ''CH'', ''CY'', ''CZ'', ''DE'', ''DK'', ''EE'', ''ES'', ''FI'', ''FR'', ''GB'', ''GR'', ''HR'', ''HU'',
         ''IE'', ''IS'', ''IT'', ''LI'', ''LT'', ''LU'', ''LV'', ''MT'', ''NL'', ''NO'', ''PL'', ''PT'', ''RO'',
         ''SE'', ''SI'', ''SK'']),
      (''APAC'', [''APAC'', ''RAS'', ''SAS'', ''EAS'', ''OCE'', ''CN'', ''JP'', ''KR'', ''IN'', ''AU'', ''NZ'',
         ''ID'', ''TH'', ''VN'', ''MY'', ''SG'', ''PH'', ''PK'', ''BD'']),
      (''NORTH_AMERICA'', [''RNA'', ''NAM'', ''US'', ''CA'', ''MX'']),
      (''LATAM'', [''RLA'', ''LATAM'', ''BR'', ''AR'', ''CL'', ''CO'', ''PE'', ''UY'', ''PY'', ''BO'', ''EC'',
         ''VE'', ''CR'', ''GT'', ''HN'', ''NI'', ''SV'', ''PA'', ''DO'', ''CU'']),
      (''AFRICA'', [''RAF'', ''AFR'', ''ZA'', ''EG'', ''NG'', ''KE'', ''GH'', ''DZ'', ''MA'', ''TN'', ''ET'',
         ''TZ'', ''UG'']),
      (''MIDDLE_EAST'', [''RME'', ''MEA'', ''AE'', ''SA'', ''QA'', ''KW'', ''OM'', ''BH'', ''IL'', ''TR'', ''IR'',
         ''IQ'', ''JO'', ''LB''])]"

definition region_group_from_code :: "string \<Rightarrow> string option" where
  "region_group_from_code code =
     map_option fst (find (\<lambda>g. code \<in> set (snd g)) region_codes)"

definition parse_location_descriptor :: "string option \<Rightarrow> location_descriptor" where
  "parse_location_descriptor location =
     (case Option.bind location trim_nonempty of
        None \<Rightarrow> \<lparr>ld_canonical = None, ld_country_code = None, ld_region_group = None,
                 ld_is_subnational = False, ld_is_global = False\<rparr>
      | Some v \<Rightarrow>
          let canonical = map (\<lambda>c. if c = CHR ''_'' then CHR ''-'' else c) (map ascii_upper v);
              country = extract_country_code canonical
          in \<lparr>ld_canonical = Some canonical, ld_country_code = country,
              ld_region_group =
                (case region_group_from_code canonical of
                   Some g \<Rightarrow> Some g
                 | None \<Rightarrow> Option.bind country region_group_from_code),
              ld_is_subnational = (CHR ''-'' \<in> set canonical \<and> country \<noteq> None),
              ld_is_global = (canonical = ''GLO'' \<or> canonical = ''ROW'')\<rparr>)"

definition location_descriptor_is_usable :: "location_descriptor \<Rightarrow> bool" where
  "location_descriptor_is_usable d \<longleftrightarrow> ld_is_global d \<or> ld_country_code d \<noteq> None \<or> ld_region_group d \<noteq> None"

definition normalize_usable_supply_region_location :: "string option \<Rightarrow> string option" where
  "normalize_usable_supply_region_location location =
     (let d = parse_location_descriptor location
      in if location_descriptor_is_usable d then ld_canonical d else None)"

definition resolve_supply_region_anchor :: "string option \<Rightarrow> string option \<Rightarrow> supply_region_anchor" where
  "resolve_supply_region_anchor exchange_location consumer_location =
     (case normalize_usable_supply_region_location exchange_location of
        Some l \<Rightarrow> \<lparr>anchor_source = ExchangeLocation, anchor_location = Some l\<rparr>
      | None \<Rightarrow>
          (case normalize_usable_supply_region_location consumer_location of
             Some l \<Rightarrow> \<lparr>anchor_source = ConsumerProcessLocation, anchor_location = Some l\<rparr>
           | None \<Rightarrow> \<lparr>anchor_source = UnspecifiedSource, anchor_location = None\<rparr>))"

definition supply_region_anchor_for_exchange ::
    "parsed_exchange \<Rightarrow> process_meta list \<Rightarrow> (linking_error, supply_region_anchor) result" where
  "supply_region_anchor_for_exchange ex metas =
     and_then (ok_or (process_meta_for_idx metas (px_process_idx ex)) (MissingConsumerMeta (px_process_idx ex)))
       (\<lambda>consumer. Ok (resolve_supply_region_anchor (px_location ex) (pm_location consumer)))"

definition same_place :: "location_descriptor \<Rightarrow> location_descriptor \<Rightarrow> bool" where
  "same_place consumer provider \<longleftrightarrow>
     ld_is_subnational consumer \<and> ld_is_subnational provider \<and> ld_canonical consumer \<noteq> None \<and>
     ld_canonical consumer = ld_canonical provider"

definition geo_score :: "string option \<Rightarrow> string option \<Rightarrow> f64" where
  "geo_score consumer_location provider_location =
     (let consumer = parse_location_descriptor consumer_location;
          provider = parse_location_descriptor provider_location
      in if same_place consumer provider then Fin 1
         else if ld_country_code consumer \<noteq> None \<and> ld_country_code consumer = ld_country_code provider
         then round64 (85 / 100)
         else if ld_region_group consumer \<noteq> None \<and> ld_region_group consumer = ld_region_group provider
         then round64 (6 / 10)
         else if ld_is_global provider then round64 (4 / 10)
         else round64 (1 / 10))"

definition provider_geography_tier :: "string option \<Rightarrow> string option \<Rightarrow> geography_tier" where
  "provider_geography_tier consumer_location provider_location =
     (let consumer = parse_location_descriptor consumer_location;
          provider = parse_location_descriptor provider_location
      in if same_place consumer provider then LocalSubnational
         else if ld_country_code consumer \<noteq> None \<and> ld_country_code consumer = ld_country_code provider
         then SameCountry
         else if \<not> ld_is_global provider \<and> ld_region_group consumer \<noteq> None \<and>
                 ld_region_group consumer = ld_region_group provider
         then SameRegion
         else if ld_is_global provider then GlobalTier
         else OtherTier)"

fun provider_geography_tier_rank :: "geography_tier \<Rightarrow> nat" where
  "provider_geography_tier_rank LocalSubnational = 0"
| "provider_geography_tier_rank SameCountry = 1"
| "provider_geography_tier_rank SameRegion = 2"
| "provider_geography_tier_rank GlobalTier = 3"
| "provider_geography_tier_rank OtherTier = 4"

definition time_score :: "i32 option \<Rightarrow> i32 option \<Rightarrow> f64" where
  "time_score consumer_year provider_year =
     (case (consumer_year, provider_year) of
        (Some left, Some right) \<Rightarrow>
          (let diff = wrap_i32 \<bar>wrap_i32 (left - right)\<bar>
           in if diff \<le> 1 then Fin 1
              else if diff \<le> 3 then round64 (85 / 100)
              else if diff \<le> 5 then round64 (65 / 100)
              else if diff \<le> 10 then round64 (4 / 10)
              else round64 (2 / 10))
      | _ \<Rightarrow> round64 (5 / 10))"

definition tier_step ::
    "string option \<Rightarrow> process_meta list \<Rightarrow> geography_tier option \<Rightarrow> i32 \<times> f64 \<Rightarrow>
       (linking_error, geography_tier option) result" where
  "tier_step region metas best a =
     and_then (ok_or (process_meta_for_idx metas (fst a)) (MissingProviderMeta (fst a))) (\<lambda>provider.
     let tier = provider_geography_tier region (pm_location provider)
     in Ok (case best of
          Some current \<Rightarrow>
            if provider_geography_tier_rank tier < provider_geography_tier_rank current then Some tier else best
        | None \<Rightarrow> Some tier))"

definition best_geography_tier_for_allocations ::
    "string option \<Rightarrow> (i32 \<times> f64) list \<Rightarrow> process_meta list \<Rightarrow>
       (linking_error, geography_tier option) result" where
  "best_geography_tier_for_allocations region allocations metas =
     fold_result (tier_step region metas) None allocations"

subsection \<open>Scores and rules\<close>

definition same_model_preferred_provider_indices ::
    "i32 \<Rightarrow> i32 list \<Rightarrow> process_meta list \<Rightarrow> (linking_error, i32 list) result" where
  "same_model_preferred_provider_indices consumer_idx providers metas =
     and_then (ok_or (process_meta_for_idx metas consumer_idx) (MissingConsumerMeta consumer_idx)) (\<lambda>consumer.
     case pm_model_id consumer of
       None \<Rightarrow> Ok providers
     | Some model \<Rightarrow>
         and_then (traverse (\<lambda>p. and_then (ok_or (process_meta_for_idx metas p) (MissingProviderMeta p))
                      (\<lambda>provider. Ok (p, pm_model_id provider = Some model))) providers) (\<lambda>flags.
         let same_model = map fst (filter snd flags)
         in Ok (if same_model = [] then providers else same_model)))"

definition score_le :: "provider_candidate_score \<Rightarrow> provider_candidate_score \<Rightarrow> bool" where
  "score_le l r \<longleftrightarrow>
     (cs_final_score r, cs_geo_score r, cs_time_score r) < (cs_final_score l, cs_geo_score l, cs_time_score l) \<or>
     (cs_final_score r, cs_geo_score r, cs_time_score r) = (cs_final_score l, cs_geo_score l, cs_time_score l) \<and>
     cs_provider_id l \<le> cs_provider_id r"

definition score_candidate ::
    "supply_region_anchor \<Rightarrow> process_meta \<Rightarrow> process_meta list \<Rightarrow> i32 \<Rightarrow>
       (linking_error, provider_candidate_score) result" where
  "score_candidate anchor consumer metas p =
     and_then (ok_or (process_meta_for_idx metas p) (MissingProviderMeta p)) (\<lambda>provider.
     let geo = geo_score (anchor_location anchor) (pm_location provider);
         time = time_score (pm_reference_year consumer) (pm_reference_year provider)
     in Ok \<lparr>cs_provider_idx = p, cs_provider_id = pm_process_id provider, cs_geo_score = geo,
            cs_time_score = time,
            cs_final_score = f_add (f_mul auto_link_geo_weight geo) (f_mul auto_link_time_weight time)\<rparr>)"

definition score_provider_candidates ::
    "i32 \<Rightarrow> string option \<Rightarrow> i32 list \<Rightarrow> process_meta list \<Rightarrow>
       (linking_error, provider_candidate_score list) result" where
  "score_provider_candidates consumer_idx exchange_location providers metas =
     and_then (ok_or (process_meta_for_idx metas consumer_idx) (MissingConsumerMeta consumer_idx)) (\<lambda>consumer.
     and_then (same_model_preferred_provider_indices consumer_idx providers metas) (\<lambda>candidates.
     and_then (traverse (score_candidate (resolve_supply_region_anchor exchange_location (pm_location consumer))
                  consumer metas) candidates) (\<lambda>scored.
     Ok (sort_by score_le scored))))"

definition provider_volume_raw_weight :: "process_meta \<Rightarrow> f64 \<times> bool" where
  "provider_volume_raw_weight provider =
     (case pm_annual_volume provider of
        Some v \<Rightarrow> if is_finite v \<and> f_gt v (Fin 0) then (v, False) else (Fin 1, True)
      | None \<Rightarrow> (Fin 1, True))"

definition with_tier ::
    "string option \<Rightarrow> process_meta list \<Rightarrow> i32 \<Rightarrow> (linking_error, i32 \<times> geography_tier) result" where
  "with_tier region metas p =
     and_then (ok_or (process_meta_for_idx metas p) (MissingProviderMeta p)) (\<lambda>provider.
     Ok (p, provider_geography_tier region (pm_location provider)))"

definition with_raw_weight :: "process_meta list \<Rightarrow> i32 \<Rightarrow> (linking_error, i32 \<times> f64 \<times> bool) result" where
  "with_raw_weight metas p =
     and_then (ok_or (process_meta_for_idx metas p) (MissingProviderMeta p)) (\<lambda>provider.
     Ok (p, provider_volume_raw_weight provider))"

definition split_by_process_volume ::
    "parsed_exchange \<Rightarrow> i32 list \<Rightarrow> process_meta list \<Rightarrow>
       (linking_error, multi_provider_resolution) result" where
  "split_by_process_volume ex providers metas =
     and_then (supply_region_anchor_for_exchange ex metas) (\<lambda>anchor.
     and_then (same_model_preferred_provider_indices (px_process_idx ex) providers metas) (\<lambda>preferred.
     and_then (traverse (with_tier (anchor_location anchor) metas) preferred) (\<lambda>tiered.
     and_then (ok_or (min_by (\<lambda>s t. provider_geography_tier_rank s \<le> provider_geography_tier_rank t) (map snd tiered))
                 EmptyProviderCandidates) (\<lambda>selected_tier.
     and_then (traverse (with_raw_weight metas) (map fst (filter (\<lambda>e. snd e = selected_tier) tiered))) (\<lambda>raw.
     let weight_sum = f_sum (map (\<lambda>e. fst (snd e)) raw) in
     and_then (ensure (\<not> (f_le weight_sum f64_epsilon \<or> \<not> is_finite weight_sum)) VolumeWeightSumNotPositive) (\<lambda>_.
     and_then (ok_or (i32_try_from (length (filter (\<lambda>e. snd (snd e)) raw))) VolumeFallbackCountOverflow) (\<lambda>fallbacks.
     Ok \<lparr>mp_allocations = map (\<lambda>e. (fst e, f_div (fst (snd e)) weight_sum)) raw,
         mp_resolution_strategy = StrategySplitByProcessVolume, mp_used_equal_fallback = False,
         mp_volume_fallback_to_one_count = fallbacks, mp_geography_tier = Some selected_tier\<rparr>)))))))"

definition split_equal :: "i32 list \<Rightarrow> multi_provider_resolution" where
  "split_equal providers =
     (let share = f_div (Fin 1) (f64_of_usize (length providers))
      in \<lparr>mp_allocations = map (\<lambda>p. (p, share)) providers, mp_resolution_strategy = StrategySplitEqual,
          mp_used_equal_fallback = False, mp_volume_fallback_to_one_count = 0, mp_geography_tier = None\<rparr>)"

definition split_equal_fallback :: "i32 list \<Rightarrow> multi_provider_resolution" where
  "split_equal_fallback providers =
     (split_equal providers)\<lparr>mp_resolution_strategy := StrategySplitEqualFallback, mp_used_equal_fallback := True\<rparr>"

definition split_by_evidence :: "provider_candidate_score list \<Rightarrow> f64 \<Rightarrow> multi_provider_resolution" where
  "split_by_evidence scored score_sum =
     \<lparr>mp_allocations = map (\<lambda>c. (cs_provider_idx c, f_div (cs_final_score c) score_sum)) scored,
      mp_resolution_strategy = StrategySplitByEvidence, mp_used_equal_fallback = False,
      mp_volume_fallback_to_one_count = 0, mp_geography_tier = None\<rparr>"

definition scored_candidates ::
    "parsed_exchange \<Rightarrow> i32 list \<Rightarrow> process_meta list \<Rightarrow> f64 \<Rightarrow>
       (linking_error, provider_candidate_score list) result" where
  "scored_candidates ex providers metas min_score =
     and_then (score_provider_candidates (px_process_idx ex) (px_location ex) providers metas) (\<lambda>scored.
     Ok (filter (\<lambda>c. f_ge (cs_final_score c) min_score) scored))"

definition best_provider_strict :: "provider_candidate_score list \<Rightarrow> multi_provider_decision" where
  "best_provider_strict scored =
     (case scored of
        [] \<Rightarrow> Unresolved NoCandidateGeMinScore
      | top1 # rest \<Rightarrow>
          if f_lt (cs_final_score top1) auto_link_top1_min_score then Unresolved Top1BelowTop1MinScore
          else if (case rest of
                     top2 # _ \<Rightarrow> f_gt (cs_final_score top2) f64_epsilon \<and>
                       f_lt (f_div (cs_final_score top1) (cs_final_score top2)) auto_link_top1_top2_min_ratio
                   | [] \<Rightarrow> False)
          then Unresolved Top1Top2RatioTooClose
          else Resolved \<lparr>mp_allocations = [(cs_provider_idx top1, Fin 1)],
                 mp_resolution_strategy = StrategyBestProviderStrict, mp_used_equal_fallback = False,
                 mp_volume_fallback_to_one_count = 0, mp_geography_tier = None\<rparr>)"

definition resolve_multi_provider ::
    "provider_rule \<Rightarrow> parsed_exchange \<Rightarrow> i32 list \<Rightarrow> process_meta list \<Rightarrow>
       (linking_error, multi_provider_decision) result" where
  "resolve_multi_provider rule ex providers metas =
     (if providers = [] then Ok (Unresolved NoProviderCandidates)
      else case rule of
        StrictUniqueProvider \<Rightarrow> Ok (Unresolved RuleRequiresUniqueProvider)
      | SplitEqual \<Rightarrow> Ok (Resolved (split_equal providers))
      | SplitByProcessVolume \<Rightarrow>
          and_then (split_by_process_volume ex providers metas) (\<lambda>r. Ok (Resolved r))
      | BestProviderStrict \<Rightarrow>
          and_then (scored_candidates ex providers metas auto_link_min_score) (\<lambda>scored.
          Ok (best_provider_strict scored))
      | SplitByEvidenceStrict \<Rightarrow>
          and_then (scored_candidates ex providers metas auto_link_min_score) (\<lambda>scored.
          if scored = [] then Ok (Unresolved NoCandidateGeMinScore)
          else let score_sum = f_sum (map cs_final_score scored)
               in if f_le score_sum f64_epsilon then Ok (Unresolved ScoreSumNonPositive)
                  else Ok (Resolved (split_by_evidence scored score_sum)))
      | SplitByEvidenceHybrid \<Rightarrow>
          and_then (scored_candidates ex providers metas auto_link_min_score) (\<lambda>scored.
          if scored = [] then Ok (Resolved (split_equal_fallback providers))
          else let score_sum = f_sum (map cs_final_score scored)
               in if f_le score_sum f64_epsilon then Ok (Resolved (split_equal_fallback providers))
                  else Ok (Resolved (split_by_evidence scored score_sum))))"

subsection \<open>Candidates of one exchange\<close>

definition eligible_balancing_process_indices ::
    "reference_port_candidate list option \<Rightarrow> f64 \<Rightarrow> i32 list" where
  "eligible_balancing_process_indices ports residual =
     (case ports of
        None \<Rightarrow> []
      | Some ps \<Rightarrow>
          remdups_adj (map rp_process_idx
            (filter (\<lambda>c. \<not> f_eq (f_signum (rp_coefficient c)) (f_signum residual)) ps)))"

fun compiled_allocation_state :: "allocation_fraction_state \<Rightarrow> output_allocation_state" where
  "compiled_allocation_state AllocPresent = PresentAllocation"
| "compiled_allocation_state AllocSparseZero = PresentAllocation"
| "compiled_allocation_state AllocMissing = MissingAllocation"
| "compiled_allocation_state AllocInvalid = InvalidAllocation"

definition nonzero_residual_coefficient :: "parsed_exchange \<Rightarrow> f64 option" where
  "nonzero_residual_coefficient ex =
     (if px_is_reference_exchange ex \<or> px_allocation_state ex = AllocInvalid then None
      else Option.bind (px_direction ex) (\<lambda>direction.
           Option.bind (px_amount ex) (\<lambda>amount.
           case signed_coefficient (signed_flow_direction_of direction) amount of
             Inl _ \<Rightarrow> None
           | Inr coefficient \<Rightarrow> if f_eq coefficient (Fin 0) then None else Some coefficient)))"

definition no_balancing_reference_failure_reason ::
    "reference_port_candidate list option \<Rightarrow> provider_failure_reason" where
  "no_balancing_reference_failure_reason ports =
     (case ports of
        Some (_ # _) \<Rightarrow> NoOppositeSignReference
      | _ \<Rightarrow> NoProviderCandidates)"

definition compiled_balance_candidate ::
    "process_meta list \<Rightarrow> f64 \<Rightarrow> reference_port_candidate \<Rightarrow>
       (linking_error, compiled_provider_candidate) result" where
  "compiled_balance_candidate metas residual port =
     and_then (ok_or (process_meta_for_idx metas (rp_process_idx port)) (MissingBalancingMeta (rp_process_idx port))) (\<lambda>meta.
     Ok \<lparr>cpc_provider_idx = rp_process_idx port, cpc_provider_id = pm_process_id meta,
         cpc_provider_version = pm_process_version meta, cpc_model_id = pm_model_id meta,
         cpc_model_version = pm_model_version meta,
         cpc_output_exchange_internal_id = rp_reference_exchange_internal_id port,
         cpc_output_exchange_is_reference = True,
         cpc_output_normalized_amount = Some (rp_raw_amount port),
         cpc_output_allocation_state = compiled_allocation_state (rp_allocation_state port),
         cpc_eligibility =
           (if \<not> f_eq (f_signum (rp_coefficient port)) (f_signum residual)
            then AcceptedOppositeSignReference else RejectedSameSignReference),
         cpc_process_name = pm_process_name meta, cpc_location = pm_location meta,
         cpc_reference_year = pm_reference_year meta, cpc_annual_volume = pm_annual_volume meta,
         cpc_reference_exchange_internal_id = rp_reference_exchange_internal_id port,
         cpc_reference_coefficient = Some (rp_coefficient port),
         cpc_lineage_relationships = [], cpc_lineage_rejection_reason = None\<rparr>)"

definition compiled_balance_candidates ::
    "reference_port_candidate list option \<Rightarrow> process_meta list \<Rightarrow> f64 \<Rightarrow>
       (linking_error, compiled_provider_candidate list) result" where
  "compiled_balance_candidates ports metas residual =
     (case ports of
        None \<Rightarrow> Ok []
      | Some ps \<Rightarrow> traverse (compiled_balance_candidate metas residual) ps)"

text \<open>A \<open>BTreeSet\<close> of relationships is read in the order of the enum.\<close>

definition relationship_order :: "lineage_relationship list \<Rightarrow> lineage_relationship list" where
  "relationship_order rs =
     filter (\<lambda>r. r \<in> set rs)
       [ModelResultAndComponent, SelectedAndSupersededModelResult, AlternativeModelResult]"

definition annotate_candidate ::
    "provider_lineage_gate \<Rightarrow> compiled_provider_candidate \<Rightarrow> compiled_provider_candidate" where
  "annotate_candidate gate c =
     c\<lparr>cpc_lineage_relationships :=
          relationship_order (get_list (relationships_by_provider gate) (cpc_provider_idx c)),
       cpc_lineage_rejection_reason := map_of (rejection_by_provider gate) (cpc_provider_idx c)\<rparr>"

definition compiled_process_for_idx :: "compiled_process list \<Rightarrow> i32 \<Rightarrow> compiled_process option" where
  "compiled_process_for_idx processes i =
     Option.bind (usize_try_from i) (\<lambda>k. if k < length processes then Some (processes ! k) else None)"

subsection \<open>Compiling the balances\<close>

record link_decision =
  lk_kind :: provider_decision_kind
  lk_strategy :: "provider_resolution_strategy option"
  lk_failure :: "provider_failure_reason option"
  lk_equal_fallback :: bool
  lk_volume_fallbacks :: i32
  lk_tier :: "geography_tier option"
  lk_allocations :: "compiled_provider_allocation list"

definition unresolved_decision :: "provider_decision_kind \<Rightarrow> provider_failure_reason \<Rightarrow> link_decision" where
  "unresolved_decision kind reason =
     \<lparr>lk_kind = kind, lk_strategy = None, lk_failure = Some reason, lk_equal_fallback = False,
      lk_volume_fallbacks = 0, lk_tier = None, lk_allocations = []\<rparr>"

definition decide_providers ::
    "provider_rule \<Rightarrow> parsed_exchange \<Rightarrow> process_meta list \<Rightarrow> supply_region_anchor \<Rightarrow>
     reference_port_candidate list option \<Rightarrow> provider_lineage_gate \<Rightarrow> compiled_matching_stats \<Rightarrow>
       (linking_error, compiled_matching_stats \<times> link_decision) result" where
  "decide_providers rule ex metas anchor ports gate stats =
     (if gate_unresolved gate then
        Ok (stats\<lparr>matched_multi_provider := matched_multi_provider stats + 1,
                  matched_multi_unresolved := matched_multi_unresolved stats + 1\<rparr>,
            unresolved_decision MultiUnresolved LineageOverlapRequiresBinding)
      else case gate_providers gate of
        [p] \<Rightarrow>
          and_then (ok_or (process_meta_for_idx metas p) (MissingBalancingMeta p)) (\<lambda>meta.
          Ok (stats\<lparr>matched_unique_provider := matched_unique_provider stats + 1\<rparr>,
              \<lparr>lk_kind = UniqueProvider,
               lk_strategy = Some (if selected_model_result gate \<noteq> None then StrategySelectedModelResult
                                   else StrategyUniqueProvider),
               lk_failure = None, lk_equal_fallback = False, lk_volume_fallbacks = 0,
               lk_tier = Some (provider_geography_tier (anchor_location anchor) (pm_location meta)),
               lk_allocations = [\<lparr>cpl_provider_idx = p, cpl_weight = Fin 1\<rparr>]\<rparr>))
      | _ # _ # _ \<Rightarrow>
          (let stats1 = stats\<lparr>matched_multi_provider := matched_multi_provider stats + 1\<rparr> in
           and_then (resolve_multi_provider rule ex (gate_providers gate) metas) (\<lambda>decision.
           case decision of
             Resolved r \<Rightarrow>
               and_then (case mp_geography_tier r of
                           Some tier \<Rightarrow> Ok (Some tier)
                         | None \<Rightarrow> best_geography_tier_for_allocations (anchor_location anchor) (mp_allocations r) metas)
                 (\<lambda>tier.
               Ok (stats1\<lparr>matched_multi_resolved := matched_multi_resolved stats1 + 1,
                          matched_multi_fallback_equal :=
                            matched_multi_fallback_equal stats1 + (if mp_used_equal_fallback r then 1 else 0)\<rparr>,
                   \<lparr>lk_kind = MultiResolved, lk_strategy = Some (mp_resolution_strategy r), lk_failure = None,
                    lk_equal_fallback = mp_used_equal_fallback r,
                    lk_volume_fallbacks = mp_volume_fallback_to_one_count r, lk_tier = tier,
                    lk_allocations = map (\<lambda>a. \<lparr>cpl_provider_idx = fst a, cpl_weight = snd a\<rparr>) (mp_allocations r)\<rparr>))
           | Unresolved reason \<Rightarrow>
               Ok (stats1\<lparr>matched_multi_unresolved := matched_multi_unresolved stats1 + 1\<rparr>,
                   unresolved_decision MultiUnresolved reason)))
      | [] \<Rightarrow>
          Ok (stats\<lparr>unmatched_no_provider := unmatched_no_provider stats + 1\<rparr>,
              unresolved_decision NoProvider (no_balancing_reference_failure_reason ports)))"

definition weighted_port ::
    "reference_port_candidate list \<Rightarrow> compiled_provider_allocation \<Rightarrow>
       (linking_error, reference_port_candidate \<times> weighted_reference_port) result" where
  "weighted_port ports a =
     and_then (ok_or (find (\<lambda>port. rp_process_idx port = cpl_provider_idx a) ports)
                 (MissingSelectedPort (cpl_provider_idx a))) (\<lambda>port.
     Ok (port, \<lparr>wp_reference_coefficient = rp_coefficient port, wp_routing_weight = cpl_weight a\<rparr>))"

definition write_edge ::
    "compiled_process list \<Rightarrow> parsed_exchange \<Rightarrow> f64 \<Rightarrow> compiled_process \<Rightarrow> compiled_balance_batch \<Rightarrow>
     (reference_port_candidate \<times> weighted_reference_port) \<times> balance_contribution \<Rightarrow>
       (linking_error, compiled_balance_batch) result" where
  "write_edge processes ex residual dependent_process batch item =
     (let port = fst (fst item); weighted = snd (fst item); contribution = snd item in
      if f_eq (activity_requirement contribution) (Fin 0) then Ok batch
      else
        and_then (ok_or (compiled_process_for_idx processes (rp_process_idx port))
                    (MissingBalancingProcess (rp_process_idx port))) (\<lambda>balancing.
        let residual_id = unwrap_or (px_internal_id ex) [];
            reference_id = unwrap_or (rp_reference_exchange_internal_id port) []
        in Ok (batch\<lparr>
          bb_technosphere_edges := bb_technosphere_edges batch @
            [\<lparr>cte_provider_idx = rp_process_idx port, cte_consumer_idx = px_process_idx ex,
              cte_flow_id = px_flow_id ex, cte_amount = activity_requirement contribution,
              cte_provider_partition = cp_partition balancing,
              cte_consumer_partition = cp_partition dependent_process,
              cte_partition = from_partitions (cp_partition balancing) (cp_partition dependent_process)\<rparr>],
          bb_release_edges := bb_release_edges batch @
            [\<lparr>cre_dependent_process_idx = px_process_idx ex, cre_residual_exchange_internal_id = residual_id,
              cre_balancing_process_idx = rp_process_idx port,
              cre_balancing_reference_exchange_internal_id = reference_id,
              cre_residual_coefficient = residual, cre_reference_coefficient = rp_coefficient port,
              cre_routing_weight = wp_routing_weight weighted,
              cre_activity_requirement = activity_requirement contribution,
              cre_flow_id = px_flow_id ex, cre_flow_version = px_flow_version ex,
              cre_location = px_location ex\<rparr>],
          bb_resolutions := bb_resolutions batch @
            [\<lparr>cbr_dependent_process_idx = px_process_idx ex, cbr_residual_exchange_internal_id = residual_id,
              cbr_balancing_process_idx = rp_process_idx port,
              cbr_balancing_reference_exchange_internal_id = reference_id,
              cbr_flow_id = px_flow_id ex, cbr_flow_version = px_flow_version ex,
              cbr_residual_coefficient = residual, cbr_reference_coefficient = rp_coefficient port,
              cbr_routing_weight = wp_routing_weight weighted,
              cbr_activity_requirement = activity_requirement contribution\<rparr>]\<rparr>)))"

text \<open>The part of the loop body after the decision has been recorded.\<close>

definition settle_balance ::
    "compiled_process list \<Rightarrow> parsed_exchange \<Rightarrow> f64 \<Rightarrow> reference_port_candidate list option \<Rightarrow> i32 \<Rightarrow>
     compiled_provider_allocation list \<Rightarrow> compiled_balance_batch \<Rightarrow>
       (linking_error, compiled_balance_batch) result" where
  "settle_balance processes ex residual ports candidate_count allocations batch =
     (if allocations = [] then
        and_then (ok_or (i32_try_from (case ports of None \<Rightarrow> 0 | Some ps \<Rightarrow> length ps))
                    ReferenceCandidateCountOverflow) (\<lambda>total_candidates.
        Ok (batch\<lparr>bb_unresolved := bb_unresolved batch @
          [\<lparr>cub_dependent_process_idx = px_process_idx ex,
            cub_residual_exchange_internal_id = unwrap_or (px_internal_id ex) [],
            cub_flow_id = px_flow_id ex, cub_flow_version = px_flow_version ex,
            cub_residual_coefficient = residual, cub_required_reference_sign = f_neg (f_signum residual),
            cub_candidate_count = total_candidates,
            cub_opposite_sign_candidate_count = candidate_count\<rparr>]\<rparr>))
      else
        and_then (ok_or ports NoReferencePortMap) (\<lambda>candidate_ports.
        and_then (traverse (weighted_port candidate_ports) allocations) (\<lambda>weighted.
        and_then (map_err BalanceFailed (resolve_weighted_balance residual (map snd weighted))) (\<lambda>balance.
        let stats = bb_matching_stats batch;
            batch1 = batch\<lparr>bb_matching_stats := stats\<lparr>a_input_edges_written := a_input_edges_written stats + 1,
                                a_balance_edges_written := a_balance_edges_written stats + 1\<rparr>\<rparr>
        in and_then (ok_or (compiled_process_for_idx processes (px_process_idx ex))
                       (MissingDependentProcess (px_process_idx ex))) (\<lambda>dependent_process.
           fold_result (write_edge processes ex residual dependent_process) batch1
             (zip weighted (contributions balance)))))))"

definition balance_exchange ::
    "(flow_link_identity \<Rightarrow> compiled_flow_space option) \<Rightarrow> reference_port_map \<Rightarrow> process_meta list \<Rightarrow>
     compiled_process list \<Rightarrow> provider_rule \<Rightarrow> provider_lineage_index \<Rightarrow> compiled_balance_batch \<Rightarrow>
     parsed_exchange \<Rightarrow> (linking_error, compiled_balance_batch) result" where
  "balance_exchange flow_space port_map metas processes rule lineage batch ex =
     (if flow_space (flow_link_identity_of ex) \<noteq> Some Technosphere then Ok batch
      else case nonzero_residual_coefficient ex of
        None \<Rightarrow> Ok batch
      | Some residual \<Rightarrow>
          (let stats0 = bb_matching_stats batch;
               stats = stats0\<lparr>input_edges_total := input_edges_total stats0 + 1,
                              residual_edges_total := residual_edges_total stats0 + 1\<rparr>;
               ports = map_of port_map (flow_link_identity_of ex);
               balancing = eligible_balancing_process_indices ports residual
           in and_then (supply_region_anchor_for_exchange ex metas) (\<lambda>anchor.
              and_then (apply_provider_lineage_gate balancing metas lineage) (\<lambda>gate.
              and_then (compiled_balance_candidates ports metas residual) (\<lambda>candidates0.
              let candidates = map (annotate_candidate gate) candidates0 in
              and_then (ok_or (i32_try_from (length balancing)) BalanceCandidateCountOverflow) (\<lambda>candidate_count.
              and_then (decide_providers rule ex metas anchor ports gate stats) (\<lambda>(stats1, d).
              and_then (ok_or (i32_try_from (length (lk_allocations d))) BalanceAllocationCountOverflow) (\<lambda>matched.
              settle_balance processes ex residual ports candidate_count (lk_allocations d)
                (batch\<lparr>bb_matching_stats := stats1,
                   bb_decisions := bb_decisions batch @
                     [\<lparr>cpd_consumer_idx = px_process_idx ex, cpd_flow_id = px_flow_id ex,
                       cpd_flow_version = px_flow_version ex,
                       cpd_candidate_provider_count = candidate_count, cpd_matched_provider_count = matched,
                       cpd_candidates = candidates, cpd_decision_kind = Some (lk_kind d),
                       cpd_resolution_strategy = lk_strategy d, cpd_failure_reason = lk_failure d,
                       cpd_used_equal_fallback = lk_equal_fallback d,
                       cpd_volume_fallback_to_one_count = lk_volume_fallbacks d,
                       cpd_geography_tier = lk_tier d,
                       cpd_supply_region_source = Some (anchor_source anchor),
                       cpd_supply_region_location = anchor_location anchor,
                       cpd_exchange_location_present = (px_location ex \<noteq> None),
                       cpd_allocations = lk_allocations d\<rparr>]\<rparr>)))))))))"

definition empty_batch :: compiled_balance_batch where
  "empty_batch = \<lparr>bb_decisions = [], bb_technosphere_edges = [], bb_release_edges = [], bb_resolutions = [],
     bb_unresolved = [], bb_matching_stats = matching_stats_default\<rparr>"

definition compile_signed_flow_balances ::
    "parsed_exchange list \<Rightarrow> (flow_link_identity \<Rightarrow> compiled_flow_space option) \<Rightarrow> reference_port_map \<Rightarrow>
     process_meta list \<Rightarrow> compiled_process list \<Rightarrow> provider_rule \<Rightarrow> provider_lineage_index \<Rightarrow>
       (linking_error, compiled_balance_batch) result" where
  "compile_signed_flow_balances exchanges flow_space port_map metas processes rule lineage =
     fold_result (balance_exchange flow_space port_map metas processes rule lineage) empty_batch exchanges"

subsection \<open>Reference ports and sparse accumulation\<close>

datatype port_error =
    PortDirectionUnavailable string
  | PortCoefficient signed_flow_error
  | PortAmountUnavailable string
  | PortRawAmountUnavailable string
  | PortRawCoefficientUnavailable string

definition reference_port_candidate_from_exchange ::
    "parsed_exchange \<Rightarrow> (port_error, reference_port_candidate) result" where
  "reference_port_candidate_from_exchange ex =
     and_then (ok_or (px_direction ex) (PortDirectionUnavailable (px_exchange_id ex))) (\<lambda>direction.
     and_then (case px_amount ex of
                 None \<Rightarrow> Err (PortAmountUnavailable (px_exchange_id ex))
               | Some amount \<Rightarrow> map_err PortCoefficient
                   (signed_coefficient (signed_flow_direction_of direction) amount)) (\<lambda>coefficient.
     and_then (ok_or (px_raw_amount ex) (PortRawAmountUnavailable (px_exchange_id ex))) (\<lambda>raw_amount.
     and_then (ok_or (px_signed_raw_coefficient ex) (PortRawCoefficientUnavailable (px_exchange_id ex))) (\<lambda>raw_coefficient.
     Ok \<lparr>rp_flow_id = px_flow_id ex, rp_flow_version = px_flow_version ex,
         rp_process_idx = px_process_idx ex, rp_reference_exchange_internal_id = px_internal_id ex,
         rp_coefficient = coefficient, rp_raw_direction = direction, rp_raw_amount = raw_amount,
         rp_signed_raw_coefficient = raw_coefficient, rp_allocation_state = px_allocation_state ex\<rparr>))))"

fun compiled_exchange_direction_of :: "exchange_direction \<Rightarrow> compiled_exchange_direction" where
  "compiled_exchange_direction_of ExInput = CompiledInput"
| "compiled_exchange_direction_of ExOutput = CompiledOutput"

definition reference_port_candidate_from_compiled_port ::
    "compiled_reference_port \<Rightarrow> reference_port_candidate" where
  "reference_port_candidate_from_compiled_port port =
     \<lparr>rp_flow_id = crp_flow_id port, rp_flow_version = crp_flow_version port,
      rp_process_idx = crp_process_idx port,
      rp_reference_exchange_internal_id = Some (crp_reference_exchange_internal_id port),
      rp_coefficient = crp_coefficient port,
      rp_raw_direction = (case crp_raw_direction port of CompiledInput \<Rightarrow> ExInput | CompiledOutput \<Rightarrow> ExOutput),
      rp_raw_amount = crp_raw_amount port, rp_signed_raw_coefficient = crp_signed_raw_coefficient port,
      rp_allocation_state = AllocMissing\<rparr>"

text \<open>\<open>None\<close> sorts before every \<open>Some\<close>.\<close>

definition option_key :: "string option \<Rightarrow> nat \<times> string" where
  "option_key s = (case s of None \<Rightarrow> (0, []) | Some v \<Rightarrow> (1, v))"

definition sort_by_key :: "('a \<Rightarrow> 'k::linorder) \<Rightarrow> 'a list \<Rightarrow> 'a list" where
  "sort_by_key f = sort_by (\<lambda>x y. f x \<le> f y)"

definition sort_reference_port_candidates ::
    "reference_port_candidate list \<Rightarrow> process_meta list \<Rightarrow> reference_port_candidate list" where
  "sort_reference_port_candidates candidates metas =
     sort_by_key (\<lambda>c. (case process_meta_for_idx metas (rp_process_idx c) of
                         None \<Rightarrow> 0 | Some meta \<Rightarrow> pm_process_id meta,
                       option_key (rp_reference_exchange_internal_id c))) candidates"

definition compiled_reference_ports_from_map ::
    "reference_port_map \<Rightarrow> (flow_link_identity \<Rightarrow> compiled_source_flow_type option) \<Rightarrow>
       compiled_reference_port list" where
  "compiled_reference_ports_from_map port_map source_type =
     sort_by_key (\<lambda>p. (crp_flow_id p, crp_flow_version p, crp_process_idx p, crp_reference_exchange_internal_id p))
       (map (\<lambda>c. \<lparr>crp_process_idx = rp_process_idx c, crp_flow_id = rp_flow_id c,
            crp_flow_version = rp_flow_version c,
            crp_reference_exchange_internal_id = unwrap_or (rp_reference_exchange_internal_id c) [],
            crp_coefficient = rp_coefficient c,
            crp_raw_direction = compiled_exchange_direction_of (rp_raw_direction c),
            crp_raw_amount = rp_raw_amount c, crp_signed_raw_coefficient = rp_signed_raw_coefficient c,
            crp_source_flow_type =
              unwrap_or (source_type (flow_link_identity_from_parts (rp_flow_id c) (rp_flow_version c))) SourceOther\<rparr>)
          (concat (map snd port_map)))"

definition legacy_provider_outputs_from_reference_port_map ::
    "reference_port_map \<Rightarrow> compiled_provider_output list" where
  "legacy_provider_outputs_from_reference_port_map port_map =
     sort_by_key (\<lambda>p. (cpo_flow_id p, cpo_provider_idx p, option_key (cpo_output_exchange_internal_id p)))
       (map (\<lambda>c. \<lparr>cpo_flow_id = rp_flow_id c, cpo_provider_idx = rp_process_idx c,
            cpo_output_exchange_internal_id = rp_reference_exchange_internal_id c,
            cpo_output_exchange_is_reference = True, cpo_output_normalized_amount = Some (rp_raw_amount c),
            cpo_output_allocation_state = compiled_allocation_state (rp_allocation_state c),
            cpo_eligibility = AcceptedOppositeSignReference,
            cpo_reference_coefficient = Some (rp_coefficient c),
            cpo_reference_direction = Some (compiled_exchange_direction_of (rp_raw_direction c))\<rparr>)
          (concat (map snd port_map)))"

datatype accumulation_error = FactorNotFinite uuid | FactorOverflow uuid | BiosphereOverflow i32 i32

definition accumulate_finite_factor ::
    "('k \<times> f64) list \<Rightarrow> 'k \<Rightarrow> f64 \<Rightarrow> uuid \<Rightarrow> (accumulation_error, ('k \<times> f64) list) result" where
  "accumulate_finite_factor factors key v method_id =
     and_then (ensure (is_finite v) (FactorNotFinite method_id)) (\<lambda>_.
     let sum_value = f_add (unwrap_or (map_of factors key) (Fin 0)) v in
     and_then (ensure (is_finite sum_value) (FactorOverflow method_id)) (\<lambda>_.
     Ok (AList.update key sum_value factors)))"

definition retain_sparse_value :: "f64 \<Rightarrow> bool \<Rightarrow> bool" where
  "retain_sparse_value v preserve_sub_epsilon_values =
     (if \<not> is_finite v then False
      else if preserve_sub_epsilon_values then \<not> f_eq v (Fin 0)
      else f_gt (f_abs v) f64_epsilon)"

definition accumulate_biosphere_edge ::
    "((i32 \<times> i32) \<times> f64) list \<Rightarrow> i32 \<times> i32 \<Rightarrow> f64 \<Rightarrow> bool \<Rightarrow>
       (accumulation_error, ((i32 \<times> i32) \<times> f64) list) result" where
  "accumulate_biosphere_edge b_map key amount preserve_sub_epsilon_values =
     (if \<not> retain_sparse_value amount preserve_sub_epsilon_values then Ok b_map
      else let sum_value = f_add (unwrap_or (map_of b_map key) (Fin 0)) amount in
           and_then (ensure (is_finite sum_value) (BiosphereOverflow (fst key) (snd key))) (\<lambda>_.
           Ok (AList.update key sum_value b_map)))"

definition add_technosphere_edge ::
    "((i32 \<times> i32) \<times> f64) list \<Rightarrow> i32 \<Rightarrow> i32 \<Rightarrow> f64 \<Rightarrow> ((i32 \<times> i32) \<times> f64) list" where
  "add_technosphere_edge a_map provider_idx consumer_idx amount =
     (if f_gt (f_abs amount) f64_epsilon then acc_add (provider_idx, consumer_idx) amount a_map else a_map)"

end
