(* ===== verification/Lcia_Coverage.thy ===== *)
theory Lcia_Coverage
  imports Provider_Linking
begin

text \<open>
  Coverage of elementary exchanges by characterization factors
  (\<open>solver-worker/src/bin/snapshot_builder.rs\<close>): the direction axis of a flow, why an exchange is
  not characterized by a method, the counts per method from grouped observations, and the visit
  of every gap. The order in which a hash map of groups is read is an argument; the visitor of
  gaps is a state-passing function.
\<close>

subsection \<open>Data\<close>

record impact_factor_set =
  if_impact_id :: uuid
  if_method_version :: string
  if_artifact_locator_id :: uuid
  if_impact_key :: string
  if_impact_name :: string
  if_unit :: string
  if_factors_by_flow :: "((uuid \<times> string) \<times> f64) list"
  if_factors_by_flow_direction :: "((uuid \<times> string \<times> exchange_direction) \<times> f64) list"

record lcia_exchange_observation =
  lo_flow_id :: uuid
  lo_flow_version :: string
  lo_direction :: "exchange_direction option"
  lo_direction_label :: string
  lo_exchange_id :: string
  lo_amount :: "f64 option"

type_synonym direction_by_flow = "(uuid \<times> exchange_direction option) list"

record lcia_factor_coverage_counts =
  lc_matched :: u64
  lc_unmatched :: u64
  lc_invalid :: u64
  lc_unsupported_direction :: u64

record lcia_method_factor_coverage =
  lm_method_id :: uuid
  lm_method_version :: string
  lm_artifact_locator_id :: uuid
  lm_counts :: lcia_factor_coverage_counts

record lcia_factor_coverage_build =
  lb_counts :: lcia_factor_coverage_counts
  lb_by_method :: "lcia_method_factor_coverage list"
  lb_observations :: "lcia_exchange_observation list"
  lb_record_count :: u64

record lcia_uncharacterized_record =
  lu_method_id :: uuid
  lu_method_version :: string
  lu_artifact_locator_id :: uuid
  lu_flow_uuid :: uuid
  lu_flow_version :: string
  lu_direction :: string
  lu_exchange_id :: string
  lu_amount :: "f64 option"
  lu_reason :: string

datatype coverage_error = LciaCountOverflow

subsection \<open>Operations\<close>

definition unique_supported_direction_by_flow :: "lcia_exchange_observation list \<Rightarrow> direction_by_flow" where
  "unique_supported_direction_by_flow observations =
     (let s = foldl (\<lambda>(directions, unsupported) o1.
                 case lo_direction o1 of
                   Some d \<Rightarrow> (entry_insert (lo_flow_id o1) d directions, unsupported)
                 | None \<Rightarrow> (directions, List.insert (lo_flow_id o1) unsupported)) ([], []) observations
      in map (\<lambda>flow. (flow,
            if flow \<in> set (snd s) then None
            else case map_of (fst s) flow of
                   Some [d] \<Rightarrow> Some d
                 | _ \<Rightarrow> None)) (remdups (map lo_flow_id observations)))"

definition lcia_gap_reason ::
    "lcia_exchange_observation \<Rightarrow> impact_factor_set \<Rightarrow> direction_by_flow \<Rightarrow> string option" where
  "lcia_gap_reason o1 impact directions =
     (case lo_direction o1 of
        None \<Rightarrow> Some ''unsupported_exchange_direction''
      | Some d \<Rightarrow>
          if map_of directions (lo_flow_id o1) = Some None then Some ''ambiguous_elementary_flow_direction_axis''
          else if (case lo_amount o1 of None \<Rightarrow> True | Some v \<Rightarrow> \<not> is_finite v) then Some ''invalid_exchange_amount''
          else if map_of (if_factors_by_flow_direction impact) (lo_flow_id o1, lo_flow_version o1, d) \<noteq> None then None
          else Some ''no_lcia_factor_for_flow_direction'')"

type_synonym observation_key = "uuid \<times> string \<times> exchange_direction option \<times> bool"

definition observation_key_of :: "lcia_exchange_observation \<Rightarrow> observation_key" where
  "observation_key_of o1 =
     (lo_flow_id o1, lo_flow_version o1, lo_direction o1,
      case lo_amount o1 of None \<Rightarrow> False | Some v \<Rightarrow> is_finite v)"

type_synonym observation_groups = "(observation_key \<times> lcia_exchange_observation \<times> u64) list"

definition group_step ::
    "observation_groups \<Rightarrow> lcia_exchange_observation \<Rightarrow> (coverage_error, observation_groups) result" where
  "group_step groups o1 =
     (let key = observation_key_of o1;
          entry = (case map_of groups key of Some e \<Rightarrow> e | None \<Rightarrow> (o1, 0)) in
      and_then (ok_or (checked_add (snd entry) 1) LciaCountOverflow) (\<lambda>n.
      Ok (AList.update key (fst entry, n) groups)))"

definition zero_counts :: lcia_factor_coverage_counts where
  "zero_counts = \<lparr>lc_matched = 0, lc_unmatched = 0, lc_invalid = 0, lc_unsupported_direction = 0\<rparr>"

definition add_count ::
    "lcia_factor_coverage_counts \<Rightarrow> string option \<Rightarrow> u64 \<Rightarrow> (coverage_error, lcia_factor_coverage_counts) result" where
  "add_count c reason n =
     (case reason of
        None \<Rightarrow> and_then (ok_or (checked_add (lc_matched c) n) LciaCountOverflow) (\<lambda>m. Ok (c\<lparr>lc_matched := m\<rparr>))
      | Some r \<Rightarrow>
          if r = ''invalid_exchange_amount''
          then and_then (ok_or (checked_add (lc_invalid c) n) LciaCountOverflow) (\<lambda>m. Ok (c\<lparr>lc_invalid := m\<rparr>))
          else if r = ''no_lcia_factor_for_flow_direction''
          then and_then (ok_or (checked_add (lc_unmatched c) n) LciaCountOverflow) (\<lambda>m. Ok (c\<lparr>lc_unmatched := m\<rparr>))
          else and_then (ok_or (checked_add (lc_unsupported_direction c) n) LciaCountOverflow)
                 (\<lambda>m. Ok (c\<lparr>lc_unsupported_direction := m\<rparr>)))"

definition count_method ::
    "direction_by_flow \<Rightarrow> observation_groups \<Rightarrow> impact_factor_set \<Rightarrow> (coverage_error, lcia_factor_coverage_counts) result" where
  "count_method directions groups impact =
     fold_result (\<lambda>c e. add_count c (lcia_gap_reason (fst (snd e)) impact directions) (snd (snd e))) zero_counts groups"

definition add_counts ::
    "lcia_factor_coverage_counts \<Rightarrow> lcia_factor_coverage_counts \<Rightarrow> (coverage_error, lcia_factor_coverage_counts) result" where
  "add_counts t c =
     and_then (ok_or (checked_add (lc_matched t) (lc_matched c)) LciaCountOverflow) (\<lambda>a.
     and_then (ok_or (checked_add (lc_unmatched t) (lc_unmatched c)) LciaCountOverflow) (\<lambda>b.
     and_then (ok_or (checked_add (lc_invalid t) (lc_invalid c)) LciaCountOverflow) (\<lambda>i.
     and_then (ok_or (checked_add (lc_unsupported_direction t) (lc_unsupported_direction c)) LciaCountOverflow) (\<lambda>u.
     Ok \<lparr>lc_matched = a, lc_unmatched = b, lc_invalid = i, lc_unsupported_direction = u\<rparr>))))"

definition coverage_step ::
    "direction_by_flow \<Rightarrow> observation_groups \<Rightarrow> lcia_factor_coverage_counts \<times> lcia_method_factor_coverage list \<Rightarrow>
     impact_factor_set \<Rightarrow> (coverage_error, lcia_factor_coverage_counts \<times> lcia_method_factor_coverage list) result" where
  "coverage_step directions groups s impact =
     and_then (count_method directions groups impact) (\<lambda>c.
     and_then (add_counts (fst s) c) (\<lambda>t.
     Ok (t, snd s @ [\<lparr>lm_method_id = if_impact_id impact, lm_method_version = if_method_version impact,
                      lm_artifact_locator_id = if_artifact_locator_id impact, lm_counts = c\<rparr>])))"

definition sort_methods :: "impact_factor_set list \<Rightarrow> impact_factor_set list" where
  "sort_methods methods = sort_by_key (\<lambda>m. (if_impact_id m, if_method_version m)) methods"

definition build_lcia_factor_coverage ::
    "(observation_groups \<Rightarrow> observation_groups) \<Rightarrow> lcia_exchange_observation list \<Rightarrow> impact_factor_set list \<Rightarrow>
     direction_by_flow \<Rightarrow> (coverage_error, lcia_factor_coverage_build) result" where
  "build_lcia_factor_coverage order_g observations impacts directions =
     and_then (fold_result group_step [] observations) (\<lambda>groups.
     and_then (fold_result (coverage_step directions (order_g groups)) (zero_counts, []) (sort_methods impacts)) (\<lambda>s.
     and_then (ok_or (Option.bind (checked_add (lc_unmatched (fst s)) (lc_invalid (fst s)))
                 (\<lambda>n. checked_add n (lc_unsupported_direction (fst s)))) LciaCountOverflow) (\<lambda>n.
     Ok \<lparr>lb_counts = fst s, lb_by_method = snd s, lb_observations = observations, lb_record_count = n\<rparr>)))"

definition gap_record ::
    "impact_factor_set \<Rightarrow> lcia_exchange_observation \<Rightarrow> string \<Rightarrow> lcia_uncharacterized_record" where
  "gap_record impact o1 reason =
     \<lparr>lu_method_id = if_impact_id impact, lu_method_version = if_method_version impact,
      lu_artifact_locator_id = if_artifact_locator_id impact, lu_flow_uuid = lo_flow_id o1,
      lu_flow_version = lo_flow_version o1,
      lu_direction = (case lo_direction o1 of None \<Rightarrow> lo_direction_label o1 | Some d \<Rightarrow> direction_as_str d),
      lu_exchange_id = lo_exchange_id o1,
      lu_amount = Option.bind (lo_amount o1) (\<lambda>n. if is_finite n then Some n else None), lu_reason = reason\<rparr>"

definition visit_lcia_gaps ::
    "('s \<Rightarrow> lcia_uncharacterized_record \<Rightarrow> ('e, 's) result) \<Rightarrow> 's \<Rightarrow> lcia_exchange_observation list \<Rightarrow>
     impact_factor_set list \<Rightarrow> ('e, 's \<times> nat) result" where
  "visit_lcia_gaps visit s0 observations methods =
     (let directions = unique_supported_direction_by_flow observations;
          sorted = sort_by_key (\<lambda>o1. (lo_flow_id o1, lo_direction_label o1, lo_exchange_id o1)) observations
      in fold_result (\<lambda>(s, count) (impact, o1).
           case lcia_gap_reason o1 impact directions of
             None \<Rightarrow> Ok (s, count)
           | Some reason \<Rightarrow> and_then (visit s (gap_record impact o1 reason)) (\<lambda>s'. Ok (s', Suc count)))
         (s0, 0) (List.product (sort_methods methods) sorted))"

subsection \<open>Grouping does not change the counts\<close>

definition group_weight :: "(lcia_exchange_observation \<Rightarrow> bool) \<Rightarrow> observation_groups \<Rightarrow> nat" where
  "group_weight f groups = (\<Sum>e \<leftarrow> groups. if f (fst (snd e)) then snd (snd e) else 0)"

definition groups_ok :: "observation_groups \<Rightarrow> bool" where
  "groups_ok groups \<longleftrightarrow> distinct (map fst groups) \<and> (\<forall>e \<in> set groups. observation_key_of (fst (snd e)) = fst e)"

definition key_respecting :: "(lcia_exchange_observation \<Rightarrow> bool) \<Rightarrow> bool" where
  "key_respecting f \<longleftrightarrow> (\<forall>a b. observation_key_of a = observation_key_of b \<longrightarrow> f a = f b)"

lemma gap_reason_by_key:
  assumes "observation_key_of a = observation_key_of b"
  shows "lcia_gap_reason a impact directions = lcia_gap_reason b impact directions"
proof -
  have "(case lo_amount a of None \<Rightarrow> True | Some v \<Rightarrow> \<not> is_finite v) = (case lo_amount b of None \<Rightarrow> True | Some v \<Rightarrow> \<not> is_finite v)"
    using assms by (cases "lo_amount a"; cases "lo_amount b") (auto simp: observation_key_of_def)
  moreover have "lo_flow_id a = lo_flow_id b" "lo_flow_version a = lo_flow_version b" "lo_direction a = lo_direction b"
    using assms by (simp_all add: observation_key_of_def)
  ultimately show ?thesis unfolding lcia_gap_reason_def by presburger
qed

lemma key_respecting_reason: "key_respecting (\<lambda>o1. P (lcia_gap_reason o1 impact directions))"
  unfolding key_respecting_def using gap_reason_by_key by metis

lemma group_weight_update:
  assumes "map_of g k = Some (o1, n)" and "distinct (map fst g)"
  shows "group_weight f (AList.update k (o1, Suc n) g) = group_weight f g + (if f o1 then 1 else 0)"
  using assms by (induction g) (auto simp: group_weight_def split: if_splits)

lemma group_weight_new:
  assumes "map_of g k = None"
  shows "group_weight f (AList.update k (o1, n) g) = group_weight f g + (if f o1 then n else 0)"
  using assms by (induction g) (auto simp: group_weight_def split: if_splits)

lemma groups_update:
  assumes "groups_ok g" and "observation_key_of o1 = k"
  shows "groups_ok (AList.update k (o1, n) g)"
proof -
  have "set (AList.update k v g) \<subseteq> insert (k, v) (set g)" for v by (induction g) auto
  with assms distinct_update [of g k "(o1, n)"] show ?thesis unfolding groups_ok_def by fastforce
qed

lemma group_step_weight:
  assumes "group_step g o1 = Ok g'" and "groups_ok g" and "key_respecting f"
  shows "groups_ok g' \<and> group_weight f g' = group_weight f g + (if f o1 then 1 else 0)"
proof (cases "map_of g (observation_key_of o1)")
  case None
  with assms(1) have "g' = AList.update (observation_key_of o1) (o1, 1) g"
    by (auto simp: group_step_def Let_def and_then_Ok_iff checked_add_def split: if_splits)
  with None assms(2) groups_update group_weight_new [OF None] show ?thesis by simp
next
  case (Some e)
  obtain o2 n where e: "e = (o2, n)" by (cases e)
  have key: "observation_key_of o2 = observation_key_of o1"
    using map_of_SomeD [OF Some] assms(2) e by (fastforce simp: groups_ok_def)
  from Some e assms(1) have g': "g' = AList.update (observation_key_of o1) (o2, Suc n) g"
    by (auto simp: group_step_def Let_def and_then_Ok_iff checked_add_def split: if_splits)
  have "f o2 = f o1" using assms(3) key unfolding key_respecting_def by blast
  with g' group_weight_update [OF Some [unfolded e]] assms(2) groups_update [OF assms(2) key] show ?thesis
    by (simp add: groups_ok_def)
qed

lemma group_fold_weight:
  assumes "fold_result group_step g obs = Ok g'" and "groups_ok g" and "key_respecting f"
  shows "groups_ok g' \<and> group_weight f g' = group_weight f g + length (filter f obs)"
  using assms
proof (induction obs arbitrary: g)
  case (Cons o1 obs)
  from Cons.prems(1) obtain g1 where g1: "group_step g o1 = Ok g1" "fold_result group_step g1 obs = Ok g'"
    by (auto simp: and_then_Ok_iff)
  from group_step_weight [OF g1(1) Cons.prems(2,3)] Cons.IH [OF g1(2) _ Cons.prems(3)] show ?case by simp
qed simp

text \<open>The counts of a method, taken observation by observation.\<close>

definition unmatched_reason :: string where "unmatched_reason = ''no_lcia_factor_for_flow_direction''"
definition invalid_reason :: string where "invalid_reason = ''invalid_exchange_amount''"

definition direct_counts ::
    "direction_by_flow \<Rightarrow> lcia_exchange_observation list \<Rightarrow> impact_factor_set \<Rightarrow> lcia_factor_coverage_counts" where
  "direct_counts directions obs impact =
     (let count = (\<lambda>P. length (filter (\<lambda>o1. P (lcia_gap_reason o1 impact directions)) obs))
      in \<lparr>lc_matched = count (\<lambda>r. r = None), lc_unmatched = count (\<lambda>r. r = Some unmatched_reason),
          lc_invalid = count (\<lambda>r. r = Some invalid_reason),
          lc_unsupported_direction = count (\<lambda>r. r \<notin> {None, Some unmatched_reason, Some invalid_reason})\<rparr>)"

lemma count_fold:
  assumes "fold_result (\<lambda>c e. add_count c (lcia_gap_reason (fst (snd e)) impact directions) (snd (snd e))) c0 groups = Ok c"
  shows "c = \<lparr>lc_matched = lc_matched c0 + group_weight (\<lambda>o1. lcia_gap_reason o1 impact directions = None) groups,
      lc_unmatched = lc_unmatched c0 + group_weight (\<lambda>o1. lcia_gap_reason o1 impact directions = Some unmatched_reason) groups,
      lc_invalid = lc_invalid c0 + group_weight (\<lambda>o1. lcia_gap_reason o1 impact directions = Some invalid_reason) groups,
      lc_unsupported_direction = lc_unsupported_direction c0 +
        group_weight (\<lambda>o1. lcia_gap_reason o1 impact directions \<notin> {None, Some unmatched_reason, Some invalid_reason}) groups\<rparr>"
  using assms
proof (induction groups arbitrary: c0)
  case (Cons e groups)
  from Cons.prems obtain c1 where c1: "add_count c0 (lcia_gap_reason (fst (snd e)) impact directions) (snd (snd e)) = Ok c1"
      and r: "fold_result (\<lambda>c e. add_count c (lcia_gap_reason (fst (snd e)) impact directions) (snd (snd e))) c1 groups = Ok c"
    by (auto simp: and_then_Ok_iff)
  show ?case
    unfolding Cons.IH [OF r] using c1
    by (cases "lcia_gap_reason (fst (snd e)) impact directions")
      (auto simp: add_count_def and_then_Ok_iff checked_add_def group_weight_def unmatched_reason_def invalid_reason_def split: if_splits)
qed (simp add: group_weight_def)

lemma count_method_direct:
  assumes "fold_result group_step [] obs = Ok groups" and "mset groups' = mset groups"
    and "count_method directions groups' impact = Ok c"
  shows "c = direct_counts directions obs impact"
proof -
  have perm: "group_weight f groups' = group_weight f groups" for f
    unfolding group_weight_def using assms(2) by (metis (no_types, lifting) mset_map sum_mset_sum_list)
  have weight: "group_weight (\<lambda>o1. P (lcia_gap_reason o1 impact directions)) groups =
      length (filter (\<lambda>o1. P (lcia_gap_reason o1 impact directions)) obs)" for P
    using group_fold_weight [OF assms(1) _ key_respecting_reason, of P impact directions]
    by (simp add: groups_ok_def group_weight_def)
  show ?thesis
    unfolding count_fold [OF assms(3) [unfolded count_method_def]] direct_counts_def Let_def perm zero_counts_def
      weight [of "\<lambda>r. r = None"] weight [of "\<lambda>r. r = Some unmatched_reason"] weight [of "\<lambda>r. r = Some invalid_reason"]
      weight [of "\<lambda>r. r \<notin> {None, Some unmatched_reason, Some invalid_reason}"]
    by simp
qed

definition gap_count :: "direction_by_flow \<Rightarrow> lcia_exchange_observation list \<Rightarrow> impact_factor_set \<Rightarrow> nat" where
  "gap_count directions obs impact = length (filter (\<lambda>o1. lcia_gap_reason o1 impact directions \<noteq> None) obs)"

lemma direct_counts_gaps:
  "lc_unmatched (direct_counts directions obs m) + lc_invalid (direct_counts directions obs m) +
     lc_unsupported_direction (direct_counts directions obs m) = gap_count directions obs m"
  "lc_matched (direct_counts directions obs m) + gap_count directions obs m = length obs"
proof -
  have ne: "unmatched_reason \<noteq> invalid_reason" by (simp add: unmatched_reason_def invalid_reason_def)
  then show "lc_unmatched (direct_counts directions obs m) + lc_invalid (direct_counts directions obs m) +
      lc_unsupported_direction (direct_counts directions obs m) = gap_count directions obs m"
    by (induction obs) (auto simp: direct_counts_def gap_count_def Let_def)
  show "lc_matched (direct_counts directions obs m) + gap_count directions obs m = length obs"
    by (induction obs) (auto simp: direct_counts_def gap_count_def Let_def)
qed

definition method_coverage ::
    "direction_by_flow \<Rightarrow> lcia_exchange_observation list \<Rightarrow> impact_factor_set \<Rightarrow> lcia_method_factor_coverage" where
  "method_coverage directions obs impact =
     \<lparr>lm_method_id = if_impact_id impact, lm_method_version = if_method_version impact,
      lm_artifact_locator_id = if_artifact_locator_id impact, lm_counts = direct_counts directions obs impact\<rparr>"

definition gap_total :: "lcia_factor_coverage_counts \<Rightarrow> nat" where
  "gap_total c = lc_unmatched c + lc_invalid c + lc_unsupported_direction c"

lemma coverage_fold:
  assumes "\<And>m c. count_method directions groups m = Ok c \<Longrightarrow> c = direct_counts directions obs m"
    and "fold_result (coverage_step directions groups) s ms = Ok s'"
  shows "snd s' = snd s @ map (method_coverage directions obs) ms \<and>
    lc_matched (fst s') = lc_matched (fst s) + (\<Sum>m \<leftarrow> ms. lc_matched (direct_counts directions obs m)) \<and>
    lc_unmatched (fst s') = lc_unmatched (fst s) + (\<Sum>m \<leftarrow> ms. lc_unmatched (direct_counts directions obs m)) \<and>
    lc_invalid (fst s') = lc_invalid (fst s) + (\<Sum>m \<leftarrow> ms. lc_invalid (direct_counts directions obs m)) \<and>
    lc_unsupported_direction (fst s') = lc_unsupported_direction (fst s) +
      (\<Sum>m \<leftarrow> ms. lc_unsupported_direction (direct_counts directions obs m))"
  using assms(2)
proof (induction ms arbitrary: s)
  case (Cons m ms)
  from Cons.prems obtain s1 where s1: "coverage_step directions groups s m = Ok s1"
      "fold_result (coverage_step directions groups) s1 ms = Ok s'"
    by (auto simp: and_then_Ok_iff)
  from s1(1) assms(1) obtain t where t: "add_counts (fst s) (direct_counts directions obs m) = Ok t"
      "s1 = (t, snd s @ [method_coverage directions obs m])"
    by (auto simp: coverage_step_def and_then_Ok_iff method_coverage_def)
  have "lc_matched t = lc_matched (fst s) + lc_matched (direct_counts directions obs m)"
      "lc_unmatched t = lc_unmatched (fst s) + lc_unmatched (direct_counts directions obs m)"
      "lc_invalid t = lc_invalid (fst s) + lc_invalid (direct_counts directions obs m)"
      "lc_unsupported_direction t = lc_unsupported_direction (fst s) + lc_unsupported_direction (direct_counts directions obs m)"
    using t(1) by (auto simp: add_counts_def and_then_Ok_iff checked_add_def split: if_splits)
  with Cons.IH [OF s1(2)] t(2) show ?case by simp
qed simp

definition gap_records :: "direction_by_flow \<Rightarrow> (impact_factor_set \<times> lcia_exchange_observation) list \<Rightarrow> lcia_uncharacterized_record list" where
  "gap_records directions pairs =
     List.map_filter (\<lambda>(m, o1). map_option (gap_record m o1) (lcia_gap_reason o1 m directions)) pairs"

lemma visit_fold:
  "fold_result (\<lambda>(s, count) (impact, o1).
       case lcia_gap_reason o1 impact directions of
         None \<Rightarrow> Ok (s, count)
       | Some reason \<Rightarrow> and_then (visit s (gap_record impact o1 reason)) (\<lambda>s'. Ok (s', Suc count))) (s, n) pairs =
   and_then (fold_result visit s (gap_records directions pairs)) (\<lambda>s'. Ok (s', n + length (gap_records directions pairs)))"
proof (induction pairs arbitrary: s n)
  case (Cons p pairs)
  obtain m o1 where p: "p = (m, o1)" by (cases p)
  show ?case
  proof (cases "lcia_gap_reason o1 m directions")
    case None
    with Cons.IH p show ?thesis by (simp add: gap_records_def List.map_filter_def)
  next
    case (Some reason)
    with Cons.IH p show ?thesis
      by (cases "visit s (gap_record m o1 reason)") (simp_all add: gap_records_def List.map_filter_def)
  qed
qed (simp add: gap_records_def List.map_filter_def)

lemma gap_records_count:
  "length (gap_records directions (List.product ms obs)) = (\<Sum>m \<leftarrow> ms. gap_count directions obs m)"
proof -
  have row: "length (gap_records directions (map (Pair m) obs)) = gap_count directions obs m" for m
    by (induction obs) (auto simp: gap_records_def gap_count_def List.map_filter_def split: option.splits)
  have "gap_records directions (xs @ ys) = gap_records directions xs @ gap_records directions ys" for xs ys
    by (simp add: gap_records_def List.map_filter_def)
  moreover have "gap_records directions [] = []" by (simp add: gap_records_def List.map_filter_def)
  ultimately show ?thesis using row by (induction ms) simp_all
qed

lemma gap_count_perm: "mset obs = mset obs' \<Longrightarrow> gap_count directions obs m = gap_count directions obs' m"
  unfolding gap_count_def by (metis mset_filter size_mset)

subsection \<open>What counts as characterized\<close>

text \<open>
  Why an exchange of the list \<open>obs\<close> has a gap for a method, from the list itself: it has no
  known direction; another exchange of its flow has another or no direction; its amount is
  missing or not finite; or the method has no factor for its flow, version and direction.
\<close>

definition gap_of :: "lcia_exchange_observation list \<Rightarrow> impact_factor_set \<Rightarrow> lcia_exchange_observation \<Rightarrow> string option" where
  "gap_of obs m o1 =
     (case lo_direction o1 of
        None \<Rightarrow> Some ''unsupported_exchange_direction''
      | Some d \<Rightarrow>
          if \<exists>o2 \<in> set obs. lo_flow_id o2 = lo_flow_id o1 \<and> lo_direction o2 \<noteq> Some d
          then Some ''ambiguous_elementary_flow_direction_axis''
          else if (case lo_amount o1 of None \<Rightarrow> True | Some v \<Rightarrow> \<not> is_finite v) then Some ''invalid_exchange_amount''
          else if (lo_flow_id o1, lo_flow_version o1, d) \<in> fst ` set (if_factors_by_flow_direction m) then None
          else Some ''no_lcia_factor_for_flow_direction'')"

definition gap_tally ::
    "lcia_exchange_observation list \<Rightarrow> impact_factor_set \<Rightarrow> string option set \<Rightarrow> nat" where
  "gap_tally obs m gaps = length (filter (\<lambda>o1. gap_of obs m o1 \<in> gaps) obs)"

text \<open>The directions collected for a flow.\<close>

abbreviation direction_step ::
    "(uuid \<times> exchange_direction list) list \<times> uuid list \<Rightarrow> lcia_exchange_observation \<Rightarrow>
     (uuid \<times> exchange_direction list) list \<times> uuid list" where
  "direction_step \<equiv> \<lambda>(directions, unsupported) o1.
     case lo_direction o1 of
       Some d \<Rightarrow> (entry_insert (lo_flow_id o1) d directions, unsupported)
     | None \<Rightarrow> (directions, List.insert (lo_flow_id o1) unsupported)"

lemma direction_fold:
  "set (get_list (fst (foldl direction_step s obs)) flow) =
     set (get_list (fst s) flow) \<union> {d. \<exists>o1 \<in> set obs. lo_flow_id o1 = flow \<and> lo_direction o1 = Some d} \<and>
   set (snd (foldl direction_step s obs)) = set (snd s) \<union> lo_flow_id ` {o1 \<in> set obs. lo_direction o1 = None} \<and>
   (distinct (get_list (fst s) flow) \<longrightarrow> distinct (get_list (fst (foldl direction_step s obs)) flow))"
proof (induction obs arbitrary: s)
  case (Cons o1 obs)
  obtain ds us where s: "s = (ds, us)" by (cases s)
  show ?case
  proof (cases "lo_direction o1")
    case None
    with Cons.IH [of "(ds, List.insert (lo_flow_id o1) us)"] show ?thesis by (auto simp: s)
  next
    case (Some d)
    with Cons.IH [of "(entry_insert (lo_flow_id o1) d ds, us)"] show ?thesis by (auto simp: s entry_insert_get)
  qed
qed simp

lemma map_of_graph: "x \<in> set xs \<Longrightarrow> map_of (map (\<lambda>x. (x, f x)) xs) x = Some (f x)"
  by (induction xs) auto

lemma ambiguous_direction:
  assumes "o1 \<in> set obs" and "lo_direction o1 = Some d"
  shows "map_of (unique_supported_direction_by_flow obs) (lo_flow_id o1) = Some None \<longleftrightarrow>
    (\<exists>o2 \<in> set obs. lo_flow_id o2 = lo_flow_id o1 \<and> lo_direction o2 \<noteq> Some d)"
proof -
  let ?flow = "lo_flow_id o1"
  let ?s = "foldl direction_step ([], []) obs"
  let ?ds = "get_list (fst ?s) ?flow"
  have ds: "set ?ds = {d. \<exists>o2 \<in> set obs. lo_flow_id o2 = ?flow \<and> lo_direction o2 = Some d}" "distinct ?ds"
      "?flow \<in> set (snd ?s) \<longleftrightarrow> (\<exists>o2 \<in> set obs. lo_flow_id o2 = ?flow \<and> lo_direction o2 = None)"
    using direction_fold [of "([], [])" obs ?flow] by (auto simp: get_list_def image_iff)
  have one: "(case map_of (fst ?s) ?flow of Some [d] \<Rightarrow> Some d | _ \<Rightarrow> None) = None \<longleftrightarrow> \<not> (\<exists>x. ?ds = [x])"
    by (auto simp: get_list_def split: option.splits list.splits)
  have single: "(\<exists>x. ?ds = [x]) \<longleftrightarrow> set ?ds = {d}"
  proof
    assume "set ?ds = {d}"
    with ds(2) have "length ?ds = 1" using distinct_card [of ?ds] by simp
    then show "\<exists>x. ?ds = [x]" by (simp add: length_Suc_conv)
  next
    assume "\<exists>x. ?ds = [x]"
    moreover have "d \<in> set ?ds" using assms ds(1) by blast
    ultimately show "set ?ds = {d}" by auto
  qed
  have "map_of (unique_supported_direction_by_flow obs) ?flow = Some (if ?flow \<in> set (snd ?s) then None
      else case map_of (fst ?s) ?flow of Some [d] \<Rightarrow> Some d | _ \<Rightarrow> None)"
    unfolding unique_supported_direction_by_flow_def Let_def by (rule map_of_graph) (simp add: assms(1))
  then have "map_of (unique_supported_direction_by_flow obs) ?flow = Some None \<longleftrightarrow> ?flow \<in> set (snd ?s) \<or> set ?ds \<noteq> {d}"
    using one single by auto
  also have "\<dots> \<longleftrightarrow> (\<exists>o2 \<in> set obs. lo_flow_id o2 = ?flow \<and> lo_direction o2 \<noteq> Some d)"
    unfolding ds(1,3) using assms by force
  finally show ?thesis .
qed

lemma gap_reason_exact:
  assumes "o1 \<in> set obs"
  shows "lcia_gap_reason o1 m (unique_supported_direction_by_flow obs) = gap_of obs m o1"
proof (cases "lo_direction o1")
  case None
  then show ?thesis by (simp add: lcia_gap_reason_def gap_of_def)
next
  case (Some d)
  have factor: "map_of (if_factors_by_flow_direction m) k \<noteq> None \<longleftrightarrow> k \<in> fst ` set (if_factors_by_flow_direction m)" for k
    by (simp add: map_of_eq_None_iff)
  show ?thesis
    unfolding lcia_gap_reason_def gap_of_def Some option.case factor ambiguous_direction [OF assms Some] ..
qed

lemma direct_counts_exact:
  "direct_counts (unique_supported_direction_by_flow obs) obs m =
     \<lparr>lc_matched = gap_tally obs m {None},
      lc_unmatched = gap_tally obs m {Some ''no_lcia_factor_for_flow_direction''},
      lc_invalid = gap_tally obs m {Some ''invalid_exchange_amount''},
      lc_unsupported_direction =
        gap_tally obs m {Some ''unsupported_exchange_direction'', Some ''ambiguous_elementary_flow_direction_axis''}\<rparr>"
proof -
  have count: "length (filter (\<lambda>o1. P (lcia_gap_reason o1 m (unique_supported_direction_by_flow obs))) obs) =
      gap_tally obs m gaps" if "\<And>o1. P (gap_of obs m o1) \<longleftrightarrow> gap_of obs m o1 \<in> gaps" for P gaps
    unfolding gap_tally_def using that by (intro arg_cong [of _ _ length] filter_cong refl) (simp add: gap_reason_exact)
  have rest: "gap_of obs m o1 \<notin> {None, Some unmatched_reason, Some invalid_reason} \<longleftrightarrow>
      gap_of obs m o1 \<in> {Some ''unsupported_exchange_direction'', Some ''ambiguous_elementary_flow_direction_axis''}" for o1
    by (simp add: gap_of_def unmatched_reason_def invalid_reason_def split: option.splits)
  show ?thesis
    unfolding direct_counts_def Let_def count [OF rest] count [of "\<lambda>r. r = v" "{v}" for v, OF singleton_iff [symmetric]]
    by (simp add: unmatched_reason_def invalid_reason_def)
qed

lemma gap_records_exact:
  assumes "set os \<subseteq> set obs"
  shows "gap_records (unique_supported_direction_by_flow obs) (List.product ms os) =
    [gap_record m o1 (the (gap_of obs m o1)). m \<leftarrow> ms, o1 \<leftarrow> os, gap_of obs m o1 \<noteq> None]"
proof -
  let ?d = "unique_supported_direction_by_flow obs"
  have row: "gap_records ?d (map (Pair m) os) = [gap_record m o1 (the (gap_of obs m o1)). o1 \<leftarrow> os, gap_of obs m o1 \<noteq> None]" for m
    using assms
  proof (induction os)
    case (Cons o1 os)
    then show ?case
      by (cases "gap_of obs m o1") (simp_all add: gap_records_def List.map_filter_def gap_reason_exact)
  qed (simp add: gap_records_def List.map_filter_def)
  have "gap_records ?d (xs @ ys) = gap_records ?d xs @ gap_records ?d ys" for xs ys
    by (simp add: gap_records_def List.map_filter_def)
  moreover have "gap_records ?d [] = []" by (simp add: gap_records_def List.map_filter_def)
  ultimately show ?thesis using row by (induction ms) simp_all
qed

lemma sort_methods_sum: "(\<Sum>m \<leftarrow> sort_methods impacts. f m) = (\<Sum>m \<leftarrow> impacts. (f m :: nat))"
proof -
  have "mset (map f (sort_methods impacts)) = mset (map f impacts)" by (simp add: sort_methods_def sort_by_key_def)
  then show ?thesis by (metis sum_mset_sum_list)
qed

subsection \<open>Properties\<close>

text \<open>
  C37. The coverage report counts exchanges, every occurrence of equal ones included, although it
  works on groups and whatever order the groups are read in. Per method, in the order of the
  method's id and version, the matched exchanges are those of known direction whose flow occurs
  with that direction only, whose amount is finite and for whose flow, version and direction
  the method has a factor; every other exchange is counted under its reason. The totals are
  the sums over the methods. Visiting the gaps hands the visitor, in the order of the methods and of
  flow, direction label and exchange id, one record with the method, the flow, the direction,
  the exchange and the reason for each pair with a gap and for no other, stops at the visitor's first
  error, and otherwise returns the number of records of the report.
\<close>

theorem lcia_coverage_exact:
  assumes "\<And>gs. mset (order_g gs) = mset gs"
    and "build_lcia_factor_coverage order_g obs impacts (unique_supported_direction_by_flow obs) = Ok b"
  shows "lb_by_method b = map (\<lambda>m. \<lparr>lm_method_id = if_impact_id m, lm_method_version = if_method_version m,
        lm_artifact_locator_id = if_artifact_locator_id m,
        lm_counts = \<lparr>lc_matched = gap_tally obs m {None},
          lc_unmatched = gap_tally obs m {Some ''no_lcia_factor_for_flow_direction''},
          lc_invalid = gap_tally obs m {Some ''invalid_exchange_amount''},
          lc_unsupported_direction = gap_tally obs m
            {Some ''unsupported_exchange_direction'', Some ''ambiguous_elementary_flow_direction_axis''}\<rparr>\<rparr>) (sort_methods impacts) \<and>
    lb_counts b = \<lparr>lc_matched = (\<Sum>m \<leftarrow> impacts. gap_tally obs m {None}),
      lc_unmatched = (\<Sum>m \<leftarrow> impacts. gap_tally obs m {Some ''no_lcia_factor_for_flow_direction''}),
      lc_invalid = (\<Sum>m \<leftarrow> impacts. gap_tally obs m {Some ''invalid_exchange_amount''}),
      lc_unsupported_direction = (\<Sum>m \<leftarrow> impacts. gap_tally obs m
        {Some ''unsupported_exchange_direction'', Some ''ambiguous_elementary_flow_direction_axis''})\<rparr> \<and>
    lb_record_count b = length [(m, o1). m \<leftarrow> impacts, o1 \<leftarrow> obs, gap_of obs m o1 \<noteq> None] \<and>
    visit_lcia_gaps visit s0 obs impacts =
      and_then (fold_result visit s0
        [\<lparr>lu_method_id = if_impact_id m, lu_method_version = if_method_version m,
          lu_artifact_locator_id = if_artifact_locator_id m, lu_flow_uuid = lo_flow_id o1,
          lu_flow_version = lo_flow_version o1,
          lu_direction = (case lo_direction o1 of None \<Rightarrow> lo_direction_label o1 | Some d \<Rightarrow> direction_as_str d),
          lu_exchange_id = lo_exchange_id o1,
          lu_amount = Option.bind (lo_amount o1) (\<lambda>v. if is_finite v then Some v else None),
          lu_reason = the (gap_of obs m o1)\<rparr>.
          m \<leftarrow> sort_methods impacts,
          o1 \<leftarrow> sort_by_key (\<lambda>o1. (lo_flow_id o1, lo_direction_label o1, lo_exchange_id o1)) obs,
          gap_of obs m o1 \<noteq> None]) (\<lambda>s. Ok (s, lb_record_count b))"
proof -
  let ?d = "unique_supported_direction_by_flow obs"
  from assms(2) obtain groups s n where groups: "fold_result group_step [] obs = Ok groups"
      and fold: "fold_result (coverage_step ?d (order_g groups)) (zero_counts, []) (sort_methods impacts) = Ok s"
      and n: "Option.bind (checked_add (lc_unmatched (fst s)) (lc_invalid (fst s)))
        (\<lambda>n. checked_add n (lc_unsupported_direction (fst s))) = Some n"
      and b: "b = \<lparr>lb_counts = fst s, lb_by_method = snd s, lb_observations = obs, lb_record_count = n\<rparr>"
    unfolding build_lcia_factor_coverage_def and_then_Ok_iff ok_or_Ok_iff by auto
  have counts: "c = direct_counts ?d obs m" if "count_method ?d (order_g groups) m = Ok c" for m c
    using count_method_direct [OF groups assms(1) that] .
  note result = coverage_fold [OF counts fold, unfolded sort_methods_sum]
  let ?sorted = "sort_by_key (\<lambda>o1. (lo_flow_id o1, lo_direction_label o1, lo_exchange_id o1)) obs"
  have sorted: "mset ?sorted = mset obs" "set ?sorted = set obs" by (simp_all add: sort_by_key_def)
  let ?records = "gap_records ?d (List.product (sort_methods impacts) ?sorted)"
  have "n = gap_total (fst s)"
    using n by (auto simp: checked_add_def gap_total_def Option.bind_eq_Some_conv split: if_splits)
  also have "\<dots> = (\<Sum>m \<leftarrow> impacts. gap_count ?d obs m)"
    using result unfolding direct_counts_gaps(1) [of ?d obs, symmetric] by (simp add: gap_total_def zero_counts_def sum_list_addf)
  finally have n: "n = (\<Sum>m \<leftarrow> impacts. gap_count ?d obs m)" .
  have count: "length ?records = n"
    using gap_records_count [of ?d "sort_methods impacts" ?sorted] gap_count_perm [OF sorted(1)] n by (simp add: sort_methods_sum)
  have pairs: "n = length [(m, o1). m \<leftarrow> impacts, o1 \<leftarrow> obs, gap_of obs m o1 \<noteq> None]"
    unfolding n gap_records_count [symmetric] gap_records_exact [OF order_refl] by (simp add: length_concat comp_def if_distrib cong: if_cong)
  have records: "?records = [gap_record m o1 (the (gap_of obs m o1)). m \<leftarrow> sort_methods impacts, o1 \<leftarrow> ?sorted, gap_of obs m o1 \<noteq> None]"
    by (rule gap_records_exact) (simp add: sorted)
  have visited: "visit_lcia_gaps visit s0 obs impacts = and_then (fold_result visit s0 ?records) (\<lambda>s. Ok (s, n))"
    unfolding visit_lcia_gaps_def Let_def visit_fold count by simp
  have totals: "fst s = \<lparr>lc_matched = (\<Sum>m \<leftarrow> impacts. gap_tally obs m {None}),
      lc_unmatched = (\<Sum>m \<leftarrow> impacts. gap_tally obs m {Some ''no_lcia_factor_for_flow_direction''}),
      lc_invalid = (\<Sum>m \<leftarrow> impacts. gap_tally obs m {Some ''invalid_exchange_amount''}),
      lc_unsupported_direction = (\<Sum>m \<leftarrow> impacts. gap_tally obs m
        {Some ''unsupported_exchange_direction'', Some ''ambiguous_elementary_flow_direction_axis''})\<rparr>"
    using result by (intro lcia_factor_coverage_counts.equality) (simp_all add: direct_counts_exact zero_counts_def)
  show ?thesis
    unfolding b lcia_factor_coverage_build.simps
  proof (intro conjI)
    show "snd s = map (\<lambda>m. \<lparr>lm_method_id = if_impact_id m, lm_method_version = if_method_version m,
        lm_artifact_locator_id = if_artifact_locator_id m,
        lm_counts = \<lparr>lc_matched = gap_tally obs m {None},
          lc_unmatched = gap_tally obs m {Some ''no_lcia_factor_for_flow_direction''},
          lc_invalid = gap_tally obs m {Some ''invalid_exchange_amount''},
          lc_unsupported_direction = gap_tally obs m
            {Some ''unsupported_exchange_direction'', Some ''ambiguous_elementary_flow_direction_axis''}\<rparr>\<rparr>) (sort_methods impacts)"
      using result by (simp add: method_coverage_def direct_counts_exact)
  qed (rule totals pairs visited [unfolded records gap_record_def])+
qed

definition one_method :: impact_factor_set where
  "one_method = \<lparr>if_impact_id = 3, if_method_version = ''1'', if_artifact_locator_id = 3, if_impact_key = ''k'',
     if_impact_name = ''n'', if_unit = ''u'', if_factors_by_flow = [],
     if_factors_by_flow_direction = [((7, ''1'', ExOutput), Fin 2)]\<rparr>"

definition two_observations :: "lcia_exchange_observation list" where
  "two_observations = map (\<lambda>f. \<lparr>lo_flow_id = f, lo_flow_version = ''1'', lo_direction = Some ExOutput,
     lo_direction_label = ''Output'', lo_exchange_id = ''x'', lo_amount = Some (Fin 1)\<rparr>) [7, 8]"

theorem lcia_coverage_exact_witness:
  "\<exists>b. build_lcia_factor_coverage rev two_observations [one_method] (unique_supported_direction_by_flow two_observations) = Ok b \<and>
     lb_record_count b = 1 \<and> lb_counts b = \<lparr>lc_matched = 1, lc_unmatched = 1, lc_invalid = 0, lc_unsupported_direction = 0\<rparr>"
proof -
  have "\<exists>b. build_lcia_factor_coverage rev two_observations [one_method] (unique_supported_direction_by_flow two_observations) = Ok b"
    by (simp add: build_lcia_factor_coverage_def two_observations_def one_method_def group_step_def observation_key_of_def
      checked_add_def u64_max_def coverage_step_def count_method_def add_count_def add_counts_def zero_counts_def
      sort_methods_def sort_by_key_def unique_supported_direction_by_flow_def lcia_gap_reason_def Let_def)
  then obtain b where b: "build_lcia_factor_coverage rev two_observations [one_method]
      (unique_supported_direction_by_flow two_observations) = Ok b"
    by blast
  have tally: "gap_tally two_observations one_method {None} = 1"
      "gap_tally two_observations one_method {Some ''no_lcia_factor_for_flow_direction''} = 1"
      "gap_tally two_observations one_method {Some ''invalid_exchange_amount''} = 0"
      "gap_tally two_observations one_method
         {Some ''unsupported_exchange_direction'', Some ''ambiguous_elementary_flow_direction_axis''} = 0"
      "length [(m, o1). m \<leftarrow> [one_method], o1 \<leftarrow> two_observations, gap_of two_observations m o1 \<noteq> None] = 1"
    by code_simp+
  note exact = lcia_coverage_exact [of rev, OF mset_rev b]
  have "lb_counts b = \<lparr>lc_matched = 1, lc_unmatched = 1, lc_invalid = 0, lc_unsupported_direction = 0\<rparr>"
    using exact [THEN conjunct2, THEN conjunct1] by (simp add: tally)
  moreover have "lb_record_count b = 1"
    using exact [THEN conjunct2, THEN conjunct2, THEN conjunct1] unfolding tally .
  ultimately show ?thesis using b by blast
qed

end
