(* ===== verification/Rust_Number.thy ===== *)
theory Rust_Number
  imports Json
begin

text \<open>
  Number parsing and conversion of the standard library and of \<open>serde_json::Number\<close>:
  \<open>str::parse::<f64>\<close> (optional sign, decimal digits with point and exponent, rounded to nearest;
  \<open>inf\<close>, \<open>infinity\<close> and \<open>nan\<close> in any case), \<open>str::parse::<i32>\<close>, \<open>Number::as_f64\<close> and \<open>Number::as_i64\<close>.
\<close>

definition digits_value :: "string \<Rightarrow> nat" where
  "digits_value ds = foldl (\<lambda>a c. a * 10 + (of_char c - 48)) 0 ds"

definition split_sign :: "string \<Rightarrow> bool \<times> string" where
  "split_sign s = (case s of
     c # r \<Rightarrow> if c = CHR ''-'' then (True, r) else if c = CHR ''+'' then (False, r) else (False, s)
   | [] \<Rightarrow> (False, []))"

definition parse_exponent :: "string \<Rightarrow> int option" where
  "parse_exponent s =
     (case s of
        [] \<Rightarrow> Some 0
      | c # r \<Rightarrow>
          (let (neg, ds) = split_sign r
           in if c \<in> {CHR ''e'', CHR ''E''} \<and> ds \<noteq> [] \<and> list_all is_digit ds
              then Some (if neg then - int (digits_value ds) else int (digits_value ds)) else None))"

definition pow10 :: "int \<Rightarrow> rat" where
  "pow10 e = (if 0 \<le> e then 10 ^ nat e else 1 / 10 ^ nat (- e))"

definition parse_f64 :: "string \<Rightarrow> f64 option" where
  "parse_f64 s =
     (let (neg, r) = split_sign s;
          word = map ascii_upper r;
          whole = takeWhile is_digit r; rest = dropWhile is_digit r;
          (frac, tail) = (case rest of
             c # t \<Rightarrow> if c = CHR ''.'' then (takeWhile is_digit t, dropWhile is_digit t) else ([], rest)
           | [] \<Rightarrow> ([], []))
      in if word = ''NAN'' then Some NaN
         else if word = ''INF'' \<or> word = ''INFINITY'' then Some (if neg then NegInf else PosInf)
         else if whole = [] \<and> frac = [] then None
         else map_option (\<lambda>e.
                let q = of_nat (digits_value (whole @ frac)) * pow10 (e - int (length frac))
                in if q = 0 then (if neg then NegZero else Fin 0) else round64 (if neg then - q else q))
              (parse_exponent tail))"

definition parse_i32 :: "string \<Rightarrow> i32 option" where
  "parse_i32 s =
     (let (neg, ds) = split_sign s;
          n = (if neg then - int (digits_value ds) else int (digits_value ds))
      in if ds \<noteq> [] \<and> list_all is_digit ds \<and> i32_range n then Some n else None)"

fun as_f64 :: "json_number \<Rightarrow> f64" where
  "as_f64 (PosInt n) = round64 (of_nat n)"
| "as_f64 (NegInt i) = round64 (of_int i)"
| "as_f64 (Float x) = x"

fun as_i64 :: "json_number \<Rightarrow> int option" where
  "as_i64 (PosInt n) = (if n < 2 ^ 63 then Some (int n) else None)"
| "as_i64 (NegInt i) = Some i"
| "as_i64 (Float _) = None"

lemma round64_not_nan: "\<not> is_nan (round64 q)"
  by (simp add: round64_def Let_def)

end
