(* ===== verification/Tidas_Allocation.thy ===== *)
theory Tidas_Allocation
  imports Rust_Number
begin

text \<open>
  Allocation semantics of TIDAS processes (\<open>solver-worker/src/tidas_process_semantics.rs\<close>): the share
  of every exchange that belongs to the quantitative reference, from targeted allocation vectors
  or from legacy output shares. Every \<open>bail!\<close> and \<open>context\<close> is an error constructor; hash sets are
  duplicate-free lists. The printer of a JSON number belongs to \<open>serde_json\<close> and is an argument.
\<close>

subsection \<open>Data\<close>

definition allocation_sum_tolerance :: f64 where
  "allocation_sum_tolerance = round64 (10000001 / 10 ^ 12)"

datatype tidas_allocation_resolution =
    Undeclared
  | LegacyEmptyUndeclared
  | Explicit f64
  | LegacyInferredReference f64
  | SparseZero

record tidas_process_allocation =
  pa_exchanges :: "tidas_allocation_resolution list"
  allocation_target_indices :: "nat list"

record process_allocation_declarations =
  decl_targets :: "string list"
  decl_legacy :: "(nat \<times> f64) list"

datatype percent_error =
    PercentageEmpty | PercentageHasSign | PercentageNotNumeric | PercentageWrongType
  | PercentageNonFinite | PercentageOutOfRange

datatype tidas_error =
    InvalidOrDuplicateId string
  | ReferenceNotUnique
  | MixedAllocations
  | TargetMissing string
  | TargetDirection string
  | LegacyNotOnOutput
  | LegacyMissingId
  | LegacySumNotClosed f64
  | AllocationsNotObject
  | AllocationMissing
  | AllocationWrongShape
  | AllocationEmptyArray
  | DeclarationNotObject
  | DeclarationFractionMissing
  | DeclarationFractionInvalid percent_error
  | EntryNotObject nat
  | TargetBlank
  | TargetlessAmbiguous
  | FractionMissing nat
  | FractionInvalid nat percent_error
  | TargetlessNotFull
  | ReferenceIdEmpty
  | TargetlessNotInferable
  | TargetInvalid nat
  | TargetUnknown nat string
  | TargetDuplicate string
  | FractionSumNonFinite
  | FractionSumNotClosed f64

subsection \<open>Percentages\<close>

definition check_percentage :: "f64 \<Rightarrow> (percent_error, f64) result" where
  "check_percentage percentage =
     and_then (ensure (is_finite percentage) PercentageNonFinite) (\<lambda>_.
     and_then (ensure (f_le (Fin 0) percentage \<and> f_le percentage (Fin 100)) PercentageOutOfRange) (\<lambda>_.
     Ok (f_div percentage (Fin 100))))"

definition parse_tidas_perc :: "json \<Rightarrow> (percent_error, f64) result" where
  "parse_tidas_perc v =
     and_then
       (case v of
          JString text \<Rightarrow>
            (let trimmed = trim text in
             and_then (ensure (trimmed \<noteq> []) PercentageEmpty) (\<lambda>_.
             and_then (ensure (CHR ''%'' \<notin> set trimmed) PercentageHasSign) (\<lambda>_.
             ok_or (parse_f64 trimmed) PercentageNotNumeric)))
        | JNumber n \<Rightarrow> Ok (as_f64 n)
        | _ \<Rightarrow> Err PercentageWrongType)
       check_percentage"

definition strip_percent :: "string \<Rightarrow> string" where
  "strip_percent text =
     (let t = trim text in trim (if t \<noteq> [] \<and> last t = CHR ''%'' then butlast t else t))"

definition parse_legacy_targetless_full_fraction :: "nat \<Rightarrow> json \<Rightarrow> (tidas_error, f64) result" where
  "parse_legacy_targetless_full_fraction i v =
     (if (case as_str v of Some text \<Rightarrow> trim text = ''100%'' | None \<Rightarrow> False) then Ok (Fin 1)
      else and_then (map_err (FractionInvalid i) (parse_tidas_perc v)) (\<lambda>fraction.
           if fraction \<noteq> Fin 1 then Err TargetlessNotFull else Ok (Fin 1)))"

definition preferred_calculation_amount_value :: "json \<Rightarrow> json option" where
  "preferred_calculation_amount_value ex =
     (case json_get ''resultingAmount'' ex of
        Some v \<Rightarrow> Some v
      | None \<Rightarrow>
          (case json_get ''meanAmount'' ex of
             Some v \<Rightarrow> Some v
           | None \<Rightarrow> json_get ''meanValue'' ex))"

subsection \<open>Declarations of a process\<close>

definition declaration_entry ::
    "nat \<Rightarrow> nat \<Rightarrow> process_allocation_declarations \<Rightarrow> json \<Rightarrow> (tidas_error, process_allocation_declarations) result" where
  "declaration_entry index entry_count decls entry_json =
     and_then (ok_or (as_object entry_json) DeclarationNotObject) (\<lambda>entry.
     case map_of entry ''@internalReferenceToCoProduct'' of
       Some target_json \<Rightarrow>
         and_then (ok_or (Option.bind (as_str target_json) trim_nonempty) TargetBlank) (\<lambda>target.
         Ok (decls\<lparr>decl_targets := List.insert target (decl_targets decls)\<rparr>))
     | None \<Rightarrow>
         and_then (ensure (entry_count = 1) TargetlessAmbiguous) (\<lambda>_.
         and_then (ok_or (map_of entry ''@allocatedFraction'') DeclarationFractionMissing) (\<lambda>v.
         let canonical = (case as_str v of Some text \<Rightarrow> JString (strip_percent text) | None \<Rightarrow> v) in
         and_then (map_err DeclarationFractionInvalid (parse_tidas_perc canonical)) (\<lambda>fraction.
         Ok (decls\<lparr>decl_legacy := decl_legacy decls @ [(index, fraction)]\<rparr>)))))"

definition declaration_step ::
    "process_allocation_declarations \<Rightarrow> nat \<times> json \<Rightarrow> (tidas_error, process_allocation_declarations) result" where
  "declaration_step decls e =
     (case json_get ''allocations'' (snd e) of
        None \<Rightarrow> Ok decls
      | Some container \<Rightarrow>
          and_then (ok_or (as_object container) AllocationsNotObject) (\<lambda>obj.
          and_then (ok_or (map_of obj ''allocation'') AllocationMissing) (\<lambda>allocation.
          if allocation = JObject [] then Ok decls
          else and_then
                 (case allocation of
                    JObject _ \<Rightarrow> Ok [allocation]
                  | JArray es \<Rightarrow> if es = [] then Err AllocationWrongShape else Ok es
                  | _ \<Rightarrow> Err AllocationWrongShape)
                 (\<lambda>es. fold_result (declaration_entry (fst e) (length es)) decls es))))"

definition collect_process_allocation_declarations ::
    "json list \<Rightarrow> (tidas_error, process_allocation_declarations) result" where
  "collect_process_allocation_declarations exchanges =
     fold_result declaration_step \<lparr>decl_targets = [], decl_legacy = []\<rparr> (List.enumerate 0 exchanges)"

subsection \<open>One exchange\<close>

type_synonym target_state = "string list \<times> f64 option \<times> f64"

definition target_step ::
    "string \<Rightarrow> string list \<Rightarrow> target_state \<Rightarrow> nat \<times> json \<Rightarrow> (tidas_error, target_state) result" where
  "target_step reference valid st e =
     (case st of (seen, selected, fraction_sum) \<Rightarrow>
     and_then (ok_or (as_object (snd e)) (EntryNotObject (fst e))) (\<lambda>entry.
     and_then (ok_or (Option.bind (Option.bind (map_of entry ''@internalReferenceToCoProduct'') as_str) trim_nonempty)
                 (TargetInvalid (fst e))) (\<lambda>target.
     and_then (ensure (target \<in> set valid) (TargetUnknown (fst e) target)) (\<lambda>_.
     and_then (ensure (target \<notin> set seen) (TargetDuplicate target)) (\<lambda>_.
     and_then (ok_or (map_of entry ''@allocatedFraction'') (FractionMissing (fst e))) (\<lambda>raw.
     and_then (map_err (FractionInvalid (fst e)) (parse_tidas_perc raw)) (\<lambda>fraction.
     let fraction_sum1 = f_add fraction_sum fraction in
     and_then (ensure (is_finite fraction_sum1) FractionSumNonFinite) (\<lambda>_.
     Ok (target # seen, if target = reference then Some fraction else selected, fraction_sum1)))))))))"

definition resolve_targets ::
    "string \<Rightarrow> string list \<Rightarrow> json list \<Rightarrow> (tidas_error, tidas_allocation_resolution) result" where
  "resolve_targets reference valid es =
     and_then (fold_result (target_step reference valid) ([], None, Fin 0) (List.enumerate 0 es)) (\<lambda>st.
     let fraction_sum = snd (snd st) in
     and_then (ensure (\<not> f_gt (f_abs (f_sub fraction_sum (Fin 1))) allocation_sum_tolerance)
                 (FractionSumNotClosed fraction_sum)) (\<lambda>_.
     Ok (case fst (snd st) of None \<Rightarrow> SparseZero | Some fraction \<Rightarrow> Explicit fraction)))"

definition resolve_entries ::
    "string \<Rightarrow> string list \<Rightarrow> nat \<Rightarrow> json list \<Rightarrow> (tidas_error, tidas_allocation_resolution) result" where
  "resolve_entries reference valid reference_count es =
     (case es of
        [e] \<Rightarrow>
          and_then (ok_or (as_object e) (EntryNotObject 0)) (\<lambda>entry.
          if map_of entry ''@internalReferenceToCoProduct'' = None
          then and_then (ensure (\<not> (reference_count \<noteq> 1 \<or> reference \<notin> set valid)) TargetlessNotInferable) (\<lambda>_.
               and_then (ok_or (map_of entry ''@allocatedFraction'') (FractionMissing 0)) (\<lambda>raw.
               and_then (parse_legacy_targetless_full_fraction 0 raw) (\<lambda>fraction.
               Ok (LegacyInferredReference fraction))))
          else resolve_targets reference valid es)
      | _ \<Rightarrow> resolve_targets reference valid es)"

definition resolve_tidas_exchange_allocation ::
    "json \<Rightarrow> string \<Rightarrow> string list \<Rightarrow> nat \<Rightarrow> (tidas_error, tidas_allocation_resolution) result" where
  "resolve_tidas_exchange_allocation ex reference_id valid reference_count =
     (let reference = trim reference_id in
      and_then (ensure (reference \<noteq> []) ReferenceIdEmpty) (\<lambda>_.
      case json_get ''allocations'' ex of
        None \<Rightarrow> Ok Undeclared
      | Some container \<Rightarrow>
          and_then (ok_or (as_object container) AllocationsNotObject) (\<lambda>obj.
          and_then (ok_or (map_of obj ''allocation'') AllocationMissing) (\<lambda>allocation.
          if allocation = JObject [] then Ok LegacyEmptyUndeclared
          else and_then
                 (case allocation of
                    JObject _ \<Rightarrow> Ok [allocation]
                  | JArray es \<Rightarrow> if es = [] then Err AllocationEmptyArray else Ok es
                  | _ \<Rightarrow> Err AllocationWrongShape)
                 (resolve_entries reference valid reference_count)))))"

subsection \<open>A whole process\<close>

definition exchange_internal_id :: "(json_number \<Rightarrow> string) \<Rightarrow> json \<Rightarrow> string option" where
  "exchange_internal_id show_number ex =
     (case json_get ''@dataSetInternalID'' ex of
        Some (JString s) \<Rightarrow> Some (trim s)
      | Some (JNumber n) \<Rightarrow> Some (show_number n)
      | _ \<Rightarrow> None)"

definition id_step :: "string list \<Rightarrow> string \<Rightarrow> (tidas_error, string list) result" where
  "id_step all_ids i = (if i = [] \<or> i \<in> set all_ids then Err (InvalidOrDuplicateId i) else Ok (i # all_ids))"

definition exchange_direction_text :: "json \<Rightarrow> string option" where
  "exchange_direction_text ex = map_option trim (Option.bind (json_get ''exchangeDirection'' ex) as_str)"

definition is_output_exchange :: "json \<Rightarrow> bool" where
  "is_output_exchange ex \<longleftrightarrow> exchange_direction_text ex = Some ''Output''"

definition legacy_process_fraction ::
    "json list \<Rightarrow> string option list \<Rightarrow> string \<Rightarrow> (nat \<times> f64) list \<Rightarrow> (tidas_error, f64) result" where
  "legacy_process_fraction exchanges ids reference legacy =
     and_then (ensure (\<not> list_ex (\<lambda>l. \<not> is_output_exchange (exchanges ! fst l)) legacy) LegacyNotOnOutput) (\<lambda>_.
     and_then (ensure (\<not> list_ex (\<lambda>l. ids ! fst l = None) legacy) LegacyMissingId) (\<lambda>_.
     let share_sum = f_sum (map snd legacy) in
     and_then (ensure (\<not> f_gt (f_abs (f_sub share_sum (Fin 1))) allocation_sum_tolerance)
                 (LegacySumNotClosed share_sum)) (\<lambda>_.
     Ok (case find (\<lambda>l. ids ! fst l = Some reference) legacy of None \<Rightarrow> Fin 1 | Some l \<Rightarrow> snd l))))"

definition check_target_directions ::
    "json list \<Rightarrow> string option list \<Rightarrow> string list \<Rightarrow> (tidas_error, unit) result" where
  "check_target_directions exchanges ids targets =
     fold_result (\<lambda>_ e.
       case fst e of
         None \<Rightarrow> Ok ()
       | Some i \<Rightarrow>
           ensure (\<not> (i \<in> set targets \<and>
                     exchange_direction_text (snd e) \<notin> {Some ''Input'', Some ''Output''})) (TargetDirection i))
       () (zip ids exchanges)"

definition resolve_tidas_process_allocations ::
    "(json_number \<Rightarrow> string) \<Rightarrow> json list \<Rightarrow> string \<Rightarrow> (tidas_error, tidas_process_allocation) result" where
  "resolve_tidas_process_allocations show_number exchanges reference_id =
     (let reference = trim reference_id; ids = map (exchange_internal_id show_number) exchanges in
      and_then (fold_result id_step [] (List.map_filter id ids)) (\<lambda>all_ids.
      let reference_count = length (filter (\<lambda>i. i = Some reference) ids) in
      and_then (ensure (\<not> (reference = [] \<or> reference_count \<noteq> 1)) ReferenceNotUnique) (\<lambda>_.
      and_then (collect_process_allocation_declarations exchanges) (\<lambda>decls.
      and_then (ensure (\<not> (decl_targets decls \<noteq> [] \<and> decl_legacy decls \<noteq> [])) MixedAllocations) (\<lambda>_.
      and_then (case min_by (\<le>) (filter (\<lambda>t. t \<notin> set all_ids) (decl_targets decls)) of
                  Some target \<Rightarrow> Err (TargetMissing target)
                | None \<Rightarrow> Ok ()) (\<lambda>_.
      and_then (check_target_directions exchanges ids (decl_targets decls)) (\<lambda>_.
      let indices = filter (\<lambda>k. case ids ! k of None \<Rightarrow> False | Some i \<Rightarrow> i \<in> set (decl_targets decls))
                      [0..<length ids] in
      if list_ex (\<lambda>l. is_output_exchange (exchanges ! fst l)) (decl_legacy decls)
      then and_then (legacy_process_fraction exchanges ids reference (decl_legacy decls)) (\<lambda>fraction.
           Ok \<lparr>pa_exchanges = replicate (length exchanges) (Explicit fraction), allocation_target_indices = indices\<rparr>)
      else and_then (traverse (\<lambda>ex. resolve_tidas_exchange_allocation ex reference all_ids reference_count) exchanges)
             (\<lambda>resolutions.
           Ok \<lparr>pa_exchanges = resolutions, allocation_target_indices = indices\<rparr>))))))))"

subsection \<open>Shares\<close>

definition unit_share :: "f64 \<Rightarrow> bool" where
  "unit_share x \<longleftrightarrow> is_finite x \<and> f_le (Fin 0) x \<and> f_le x (Fin 1)"

lemma unit_share_1: "unit_share (Fin 1)"
  by (simp add: unit_share_def f_le_def f_lt_def f_eq_def)

lemma check_percentage_unit:
  assumes "check_percentage p = Ok f"
  shows "unit_share f"
proof -
  from assms have p: "is_finite p" "f_le (Fin 0) p" "f_le p (Fin 100)" and f: "f = f_div p (Fin 100)"
    by (auto simp: check_percentage_def and_then_Ok_iff)
  show ?thesis
  proof (cases "is_zero p")
    case True
    with p f show ?thesis
      by (cases p) (auto simp: f_div_def Let_def zero_of_def unit_share_def f_le_def f_lt_def f_eq_def)
  next
    case False
    with p obtain q where q: "p = Fin q" "0 < q" "q \<le> 100"
      by (cases p) (auto simp: f_le_def f_lt_def f_eq_def order_less_le)
    then have "f = round64 (q / 100)" by (simp add: f f_div_def Let_def)
    with round64_unit_interval [of "q / 100"] q show ?thesis
      by (auto simp: unit_share_def f_le_def f_lt_def f_eq_def)
  qed
qed

lemma parse_tidas_perc_unit: "parse_tidas_perc v = Ok f \<Longrightarrow> unit_share f"
  by (auto simp: parse_tidas_perc_def and_then_Ok_iff intro: check_percentage_unit)

lemma legacy_full_fraction: "parse_legacy_targetless_full_fraction i v = Ok f \<Longrightarrow> f = Fin 1"
  by (auto simp: parse_legacy_targetless_full_fraction_def and_then_Ok_iff split: if_splits)

text \<open>What one entry of an allocation vector declares.\<close>

definition entry_share :: "json \<Rightarrow> (string \<times> f64) option" where
  "entry_share e =
     Option.bind (as_object e) (\<lambda>entry.
     Option.bind (Option.bind (Option.bind (map_of entry ''@internalReferenceToCoProduct'') as_str) trim_nonempty) (\<lambda>target.
     Option.bind (map_of entry ''@allocatedFraction'') (\<lambda>raw.
     case parse_tidas_perc raw of Inl _ \<Rightarrow> None | Inr fraction \<Rightarrow> Some (target, fraction))))"

lemma share_case:
  "(case r of Inl _ \<Rightarrow> None | Inr f \<Rightarrow> Some (t, f)) = Some (t', f') \<longleftrightarrow> t' = t \<and> r = Ok f'"
  for r :: "(percent_error, f64) result"
  by (cases r) auto

lemma entry_share_unit: "entry_share e = Some (t, f) \<Longrightarrow> unit_share f"
  by (auto simp: entry_share_def Option.bind_eq_Some_conv share_case intro: parse_tidas_perc_unit)

lemma target_step_Ok:
  "target_step reference valid (seen, selected, s) (k, e) = Ok st \<longleftrightarrow>
     (\<exists>t f. entry_share e = Some (t, f) \<and> t \<in> set valid \<and> t \<notin> set seen \<and> is_finite (f_add s f) \<and>
        st = (t # seen, if t = reference then Some f else selected, f_add s f))"
  unfolding target_step_def entry_share_def prod.case fst_conv snd_conv and_then_Ok_iff ok_or_Ok_iff
    ensure_Ok_iff map_err_Ok_iff Let_def Option.bind_eq_Some_conv share_case
  by (safe; (simp only: sum.inject)?; blast)

primrec partial_finite :: "f64 \<Rightarrow> f64 list \<Rightarrow> bool" where
  "partial_finite s [] = True"
| "partial_finite s (x # xs) = (is_finite (f_add s x) \<and> partial_finite (f_add s x) xs)"

lemma f_add_finiteD: "is_finite (f_add x y) \<Longrightarrow> is_finite x"
  by (cases x; cases y) (auto simp: f_add_def)

lemma foldl_f_add_finiteD: "is_finite (foldl f_add s xs) \<Longrightarrow> is_finite s"
  by (induction xs arbitrary: s) (auto dest: f_add_finiteD)

lemma partial_finiteI: "is_finite (foldl f_add s xs) \<Longrightarrow> partial_finite s xs"
  by (induction xs arbitrary: s) (auto dest: foldl_f_add_finiteD)

lemma targets_loop_Ok:
  "fold_result (target_step reference valid) (seen, selected, s) (List.enumerate k es) = Ok st \<longleftrightarrow>
     (\<exists>shares. map entry_share es = map Some shares \<and> distinct (map fst shares) \<and>
        set (map fst shares) \<subseteq> set valid \<and> set (map fst shares) \<inter> set seen = {} \<and>
        partial_finite s (map snd shares) \<and>
        st = (rev (map fst shares) @ seen,
              (case map_of shares reference of None \<Rightarrow> selected | Some f \<Rightarrow> Some f),
              foldl f_add s (map snd shares)))"
proof (induction es arbitrary: k seen selected s)
  case Nil
  then show ?case by auto
next
  case (Cons e es)
  let ?rest = "\<lambda>t f sh. map entry_share es = map Some sh \<and> distinct (map fst sh) \<and>
      set (map fst sh) \<subseteq> set valid \<and> set (map fst sh) \<inter> set (t # seen) = {} \<and>
      partial_finite (f_add s f) (map snd sh) \<and>
      st = (rev (map fst sh) @ t # seen,
            (case map_of sh reference of None \<Rightarrow> if t = reference then Some f else selected | Some g \<Rightarrow> Some g),
            foldl f_add (f_add s f) (map snd sh))"
  have "fold_result (target_step reference valid) (seen, selected, s) (List.enumerate k (e # es)) = Ok st \<longleftrightarrow>
    (\<exists>t f sh. entry_share e = Some (t, f) \<and> t \<in> set valid \<and> t \<notin> set seen \<and> is_finite (f_add s f) \<and> ?rest t f sh)"
  proof -
    have "fold_result (target_step reference valid) (seen, selected, s) (List.enumerate k (e # es)) = Ok st \<longleftrightarrow>
      (\<exists>t f. entry_share e = Some (t, f) \<and> t \<in> set valid \<and> t \<notin> set seen \<and> is_finite (f_add s f) \<and>
        fold_result (target_step reference valid) (t # seen, if t = reference then Some f else selected, f_add s f)
          (List.enumerate (Suc k) es) = Ok st)"
      unfolding enumerate_simps fold_result.simps and_then_Ok_iff target_step_Ok by blast
    then show ?thesis unfolding Cons.IH by (simp only: ex_simps)
  qed
  also have "\<dots> \<longleftrightarrow> (\<exists>t f sh. map entry_share (e # es) = map Some ((t, f) # sh) \<and> distinct (map fst ((t, f) # sh)) \<and>
        set (map fst ((t, f) # sh)) \<subseteq> set valid \<and> set (map fst ((t, f) # sh)) \<inter> set seen = {} \<and>
        partial_finite s (map snd ((t, f) # sh)) \<and>
        st = (rev (map fst ((t, f) # sh)) @ seen,
              (case map_of ((t, f) # sh) reference of None \<Rightarrow> selected | Some g \<Rightarrow> Some g),
              foldl f_add s (map snd ((t, f) # sh))))" (is "?l \<longleftrightarrow> ?r")
  proof -
    have sel: "(case map_of sh reference of None \<Rightarrow> if t = reference then Some f else selected | Some g \<Rightarrow> Some g) =
        (case map_of ((t, f) # sh) reference of None \<Rightarrow> selected | Some g \<Rightarrow> Some g)" if "t \<notin> fst ` set sh" for t f sh
    proof (cases "t = reference")
      case True
      with that have "map_of sh reference = None" by (simp add: map_of_eq_None_iff)
      with True show ?thesis by simp
    qed simp
    have "entry_share e = Some (t, f) \<and> t \<in> set valid \<and> t \<notin> set seen \<and> is_finite (f_add s f) \<and> ?rest t f sh \<longleftrightarrow>
      map entry_share (e # es) = map Some ((t, f) # sh) \<and> distinct (map fst ((t, f) # sh)) \<and>
        set (map fst ((t, f) # sh)) \<subseteq> set valid \<and> set (map fst ((t, f) # sh)) \<inter> set seen = {} \<and>
        partial_finite s (map snd ((t, f) # sh)) \<and>
        st = (rev (map fst ((t, f) # sh)) @ seen,
              (case map_of ((t, f) # sh) reference of None \<Rightarrow> selected | Some g \<Rightarrow> Some g),
              foldl f_add s (map snd ((t, f) # sh)))" for t f sh
    proof (cases "t \<in> fst ` set sh")
      case True
      then show ?thesis by auto
    next
      case False
      show ?thesis unfolding sel [OF False] using False by auto
    qed
    then show ?thesis by blast
  qed
  also have "\<dots> \<longleftrightarrow> (\<exists>shares. map entry_share (e # es) = map Some shares \<and> distinct (map fst shares) \<and>
        set (map fst shares) \<subseteq> set valid \<and> set (map fst shares) \<inter> set seen = {} \<and>
        partial_finite s (map snd shares) \<and>
        st = (rev (map fst shares) @ seen,
              (case map_of shares reference of None \<Rightarrow> selected | Some f \<Rightarrow> Some f),
              foldl f_add s (map snd shares)))" (is "_ \<longleftrightarrow> (\<exists>shares. ?P shares)")
  proof -
    have "(\<exists>shares. ?P shares) \<longleftrightarrow> (\<exists>t f sh. ?P ((t, f) # sh))"
    proof
      assume "\<exists>shares. ?P shares"
      then obtain shares where P: "?P shares" by blast
      then obtain x sh where "shares = x # sh" by (cases shares) auto
      with P have "?P ((fst x, snd x) # sh)" by simp
      then show "\<exists>t f sh. ?P ((t, f) # sh)" by blast
    qed blast
    then show ?thesis by simp
  qed
  finally show ?case .
qed

lemma tolerance_Fin: "\<exists>r. allocation_sum_tolerance = Fin r"
proof -
  have "\<exists>r. allocation_sum_tolerance = Fin r \<and> 0 \<le> r \<and> r \<le> 1"
    unfolding allocation_sum_tolerance_def by (rule round64_unit_interval) simp_all
  then show ?thesis by blast
qed

lemma closed_sum_finite:
  assumes "f_ge s (Fin 0)" and "\<not> f_gt (f_abs (f_sub s (Fin 1))) allocation_sum_tolerance"
  shows "is_finite s"
proof (rule ccontr)
  assume "\<not> is_finite s"
  with assms(1) have "s = PosInf" by (cases s) (auto simp: f_le_def f_lt_def f_eq_def)
  then have "f_abs (f_sub s (Fin 1)) = PosInf" by (simp add: f_sub_def f_add_def)
  moreover obtain r where r: "allocation_sum_tolerance = Fin r" using tolerance_Fin by blast
  have "f_gt PosInf allocation_sum_tolerance" unfolding r by (simp add: f_lt_def)
  ultimately show False using assms(2) by (simp only: not_True_eq_False)
qed

lemma shares_nonneg:
  assumes "map entry_share es = map Some shares" and "x \<in> set (map snd shares)"
  shows "f_ge x (Fin 0)"
proof -
  from assms(2) obtain t where "(t, x) \<in> set shares" by auto
  then have "Some (t, x) \<in> set (map entry_share es)" unfolding assms(1) by simp
  then obtain e where "entry_share e = Some (t, x)" by auto
  from entry_share_unit [OF this] show ?thesis by (simp add: unit_share_def)
qed

lemma resolve_targets_iff:
  "resolve_targets reference valid es = Ok res \<longleftrightarrow>
     (\<exists>shares. map entry_share es = map Some shares \<and> distinct (map fst shares) \<and>
        set (map fst shares) \<subseteq> set valid \<and>
        \<not> f_gt (f_abs (f_sub (foldl f_add (Fin 0) (map snd shares)) (Fin 1))) allocation_sum_tolerance \<and>
        res = (case map_of shares reference of None \<Rightarrow> SparseZero | Some fraction \<Rightarrow> Explicit fraction))"
    (is "?ok \<longleftrightarrow> (\<exists>shares. ?spec shares)")
proof
  assume ?ok
  then obtain st where st: "fold_result (target_step reference valid) ([], None, Fin 0) (List.enumerate 0 es) = Ok st"
      and res: "\<not> f_gt (f_abs (f_sub (snd (snd st)) (Fin 1))) allocation_sum_tolerance"
        "res = (case fst (snd st) of None \<Rightarrow> SparseZero | Some fraction \<Rightarrow> Explicit fraction)"
    by (auto simp: resolve_targets_def and_then_Ok_iff Let_def)
  from st obtain shares where "map entry_share es = map Some shares" "distinct (map fst shares)"
      "set (map fst shares) \<subseteq> set valid" "fst (snd st) = map_of shares reference"
      "snd (snd st) = foldl f_add (Fin 0) (map snd shares)"
  proof -
    have "(case x of None \<Rightarrow> None | Some f \<Rightarrow> Some f) = x" for x :: "f64 option" by (cases x) simp_all
    with st that show thesis unfolding targets_loop_Ok by (metis fst_conv snd_conv)
  qed
  with res show "\<exists>shares. ?spec shares" by (intro exI [of _ shares] conjI) (simp_all only: not_False_eq_True)
next
  assume "\<exists>shares. ?spec shares"
  then obtain shares where sh: "?spec shares" by blast
  let ?s = "foldl f_add (Fin 0) (map snd shares)"
  have nonneg: "f_ge (foldl f_add z xs) (Fin 0)" if "f_ge z (Fin 0)" "\<forall>x \<in> set xs. f_ge x (Fin 0)" for z xs
    using that by (induction xs arbitrary: z) (auto intro: f_add_nonneg)
  have "f_ge (Fin 0) (Fin 0)" by (simp add: f_le_def f_eq_def)
  then have "f_ge ?s (Fin 0)" by (rule nonneg) (use shares_nonneg sh in blast)
  with sh have "is_finite ?s" by (intro closed_sum_finite) blast+
  then have "partial_finite (Fin 0) (map snd shares)" by (rule partial_finiteI)
  with sh have "fold_result (target_step reference valid) ([], None, Fin 0) (List.enumerate 0 es) =
      Ok (rev (map fst shares) @ [], (case map_of shares reference of None \<Rightarrow> None | Some f \<Rightarrow> Some f), ?s)"
    unfolding targets_loop_Ok by (intro exI [of _ shares]) simp
  with sh show ?ok by (auto simp: resolve_targets_def Let_def ensure_def split: option.splits)
qed

text \<open>The share a resolution gives to the reference.\<close>

fun resolution_share :: "tidas_allocation_resolution \<Rightarrow> f64" where
  "resolution_share (Explicit f) = f"
| "resolution_share (LegacyInferredReference f) = f"
| "resolution_share SparseZero = Fin 0"
| "resolution_share _ = Fin 1"

lemma resolve_targets_unit: "resolve_targets reference valid es = Ok res \<Longrightarrow> unit_share (resolution_share res)"
proof -
  assume "resolve_targets reference valid es = Ok res"
  then obtain shares where sh: "map entry_share es = map Some shares"
      "res = (case map_of shares reference of None \<Rightarrow> SparseZero | Some fraction \<Rightarrow> Explicit fraction)"
    unfolding resolve_targets_iff by blast
  show ?thesis
  proof (cases "map_of shares reference")
    case None
    with sh show ?thesis by (simp add: unit_share_def f_le_def f_lt_def f_eq_def)
  next
    case (Some f)
    then have "Some (reference, f) \<in> set (map entry_share es)" unfolding sh(1) by (auto dest: map_of_SomeD)
    then obtain e where "entry_share e = Some (reference, f)" by auto
    from entry_share_unit [OF this] sh(2) Some show ?thesis by simp
  qed
qed

lemma resolve_entries_unit:
  "resolve_entries reference valid n es = Ok res \<Longrightarrow> unit_share (resolution_share res)"
  by (auto simp: resolve_entries_def and_then_Ok_iff unit_share_1 dest: resolve_targets_unit legacy_full_fraction
      split: list.splits if_splits)

lemma exchange_allocation_unit:
  "resolve_tidas_exchange_allocation ex reference valid n = Ok res \<Longrightarrow> unit_share (resolution_share res)"
  by (auto simp: resolve_tidas_exchange_allocation_def Let_def and_then_Ok_iff unit_share_1
      intro: resolve_entries_unit split: option.split_asm if_splits)

text \<open>Facts on the declarations of a process.\<close>

definition legacy_ok :: "nat \<Rightarrow> process_allocation_declarations \<Rightarrow> bool" where
  "legacy_ok n decls \<longleftrightarrow> (\<forall>l \<in> set (decl_legacy decls). unit_share (snd l) \<and> fst l < n)"

lemma declaration_entry_legacy:
  assumes "declaration_entry i k decls e = Ok decls'" and "legacy_ok n decls" and "i < n"
  shows "legacy_ok n decls'"
proof -
  obtain entry where entry: "as_object e = Some entry"
    using assms(1) by (auto simp: declaration_entry_def and_then_Ok_iff)
  show ?thesis
  proof (cases "map_of entry ''@internalReferenceToCoProduct''")
    case (Some t)
    with assms(1) entry show ?thesis using assms(2) by (auto simp: declaration_entry_def and_then_Ok_iff legacy_ok_def)
  next
    case None
    with assms(1) entry obtain v f where "parse_tidas_perc v = Ok f"
        "decls' = decls\<lparr>decl_legacy := decl_legacy decls @ [(i, f)]\<rparr>"
      by (auto simp: declaration_entry_def and_then_Ok_iff Let_def)
    with assms(2,3) parse_tidas_perc_unit show ?thesis by (auto simp: legacy_ok_def)
  qed
qed

lemma declaration_step_legacy:
  assumes "declaration_step decls e = Ok decls'" and "legacy_ok n decls" and "fst e < n"
  shows "legacy_ok n decls'"
proof -
  have "decls' = decls \<or> (\<exists>k es. fold_result (declaration_entry (fst e) k) decls es = Ok decls')"
    using assms(1) by (auto simp: declaration_step_def and_then_Ok_iff split: option.split_asm if_splits)
  then show ?thesis
  proof (elim disjE exE)
    fix k es assume "fold_result (declaration_entry (fst e) k) decls es = Ok decls'"
    then show ?thesis using assms(2) by (rule fold_result_invariant) (rule declaration_entry_legacy [OF _ _ assms(3)])
  qed (use assms(2) in simp)
qed

lemma collect_declarations_legacy:
  assumes "collect_process_allocation_declarations exchanges = Ok decls"
  shows "legacy_ok (length exchanges) decls"
proof (rule fold_result_invariant [OF assms [unfolded collect_process_allocation_declarations_def]])
  show "legacy_ok (length exchanges) \<lparr>decl_targets = [], decl_legacy = []\<rparr>" by (simp add: legacy_ok_def)
qed (auto intro: declaration_step_legacy simp: in_set_enumerate_eq)

lemma legacy_process_fraction_unit:
  assumes "legacy_process_fraction exchanges ids reference legacy = Ok f" and "\<forall>l \<in> set legacy. unit_share (snd l)"
  shows "unit_share f"
proof (cases "find (\<lambda>l. ids ! fst l = Some reference) legacy")
  case None
  with assms(1) show ?thesis by (auto simp: legacy_process_fraction_def and_then_Ok_iff Let_def unit_share_1)
next
  case (Some l)
  then have "l \<in> set legacy" by (auto simp: find_Some_iff)
  with assms Some show ?thesis by (auto simp: legacy_process_fraction_def and_then_Ok_iff Let_def)
qed

lemma check_target_directions_Ok:
  assumes "check_target_directions exchanges ids targets = Ok ()" and "length ids = length exchanges"
    and "k < length ids" and "ids ! k = Some i" and "i \<in> set targets"
  shows "exchange_direction_text (exchanges ! k) \<in> {Some ''Input'', Some ''Output''}"
proof -
  have loop: "fold_result (\<lambda>_ e. g e) () es = Ok () \<Longrightarrow> e \<in> set es \<Longrightarrow> g e = Ok ()"
    for g :: "string option \<times> json \<Rightarrow> (tidas_error, unit) result" and es e
    by (induction es) (auto simp: and_then_Ok_iff)
  have "(ids ! k, exchanges ! k) \<in> set (zip ids exchanges)"
    using assms(2,3) by (auto simp: set_zip)
  from loop [OF assms(1) [unfolded check_target_directions_def] this] assms(4,5) show ?thesis by simp
qed

lemma resolve_process_allocations_Ok:
  assumes "resolve_tidas_process_allocations show_number exchanges reference_id = Ok pa"
  defines "ids \<equiv> map (exchange_internal_id show_number) exchanges"
  obtains decls all_ids where
    "collect_process_allocation_declarations exchanges = Ok decls"
    "fold_result id_step [] (List.map_filter id ids) = Ok all_ids"
    "length (filter (\<lambda>i. i = Some (trim reference_id)) ids) = 1" "trim reference_id \<noteq> []"
    "decl_targets decls = [] \<or> decl_legacy decls = []"
    "check_target_directions exchanges ids (decl_targets decls) = Ok ()"
    "allocation_target_indices pa =
       filter (\<lambda>k. case ids ! k of None \<Rightarrow> False | Some i \<Rightarrow> i \<in> set (decl_targets decls)) [0..<length ids]"
    "if list_ex (\<lambda>l. is_output_exchange (exchanges ! fst l)) (decl_legacy decls)
     then \<exists>f. legacy_process_fraction exchanges ids (trim reference_id) (decl_legacy decls) = Ok f \<and>
            pa_exchanges pa = replicate (length exchanges) (Explicit f)
     else traverse (\<lambda>ex. resolve_tidas_exchange_allocation ex (trim reference_id) all_ids 1) exchanges = Ok (pa_exchanges pa)"
proof -
  note body = assms(1) [unfolded resolve_tidas_process_allocations_def Let_def and_then_Ok_iff ensure_Ok_iff,
      folded ids_def]
  from body obtain all_ids decls u where
      a: "fold_result id_step [] (List.map_filter id ids) = Ok all_ids"
      and n: "\<not> (trim reference_id = [] \<or> length (filter (\<lambda>i. i = Some (trim reference_id)) ids) \<noteq> 1)"
      and c: "collect_process_allocation_declarations exchanges = Ok decls"
      and m: "\<not> (decl_targets decls \<noteq> [] \<and> decl_legacy decls \<noteq> [])"
      and t: "check_target_directions exchanges ids (decl_targets decls) = Ok u"
      and r: "(if list_ex (\<lambda>l. is_output_exchange (exchanges ! fst l)) (decl_legacy decls)
        then and_then (legacy_process_fraction exchanges ids (trim reference_id) (decl_legacy decls)) (\<lambda>fraction.
             Ok \<lparr>pa_exchanges = replicate (length exchanges) (Explicit fraction), allocation_target_indices =
               filter (\<lambda>k. case ids ! k of None \<Rightarrow> False | Some i \<Rightarrow> i \<in> set (decl_targets decls)) [0..<length ids]\<rparr>)
        else and_then (traverse (\<lambda>ex. resolve_tidas_exchange_allocation ex (trim reference_id) all_ids
               (length (filter (\<lambda>i. i = Some (trim reference_id)) ids))) exchanges) (\<lambda>resolutions.
             Ok \<lparr>pa_exchanges = resolutions, allocation_target_indices =
               filter (\<lambda>k. case ids ! k of None \<Rightarrow> False | Some i \<Rightarrow> i \<in> set (decl_targets decls)) [0..<length ids]\<rparr>)) = Ok pa"
    by blast
  from n have one: "length (filter (\<lambda>i. i = Some (trim reference_id)) ids) = 1" by blast
  show thesis
    by (rule that [OF c a one _ _ t [simplified]]) (use n m r in \<open>auto simp: one and_then_Ok_iff split: if_splits\<close>)
qed

lemma process_allocation_facts:
  assumes "resolve_tidas_process_allocations show_number exchanges reference_id = Ok pa"
  shows "length (pa_exchanges pa) = length exchanges \<and>
    (\<forall>r \<in> set (pa_exchanges pa). unit_share (resolution_share r)) \<and>
    sorted_wrt (<) (allocation_target_indices pa) \<and>
    (\<forall>k \<in> set (allocation_target_indices pa). k < length exchanges \<and>
       exchange_direction_text (exchanges ! k) \<in> {Some ''Input'', Some ''Output''}) \<and>
    length (filter (\<lambda>ex. exchange_internal_id show_number ex = Some (trim reference_id)) exchanges) = 1"
proof -
  let ?ids = "map (exchange_internal_id show_number) exchanges"
  obtain decls all_ids where d: "collect_process_allocation_declarations exchanges = Ok decls"
    "length (filter (\<lambda>i. i = Some (trim reference_id)) ?ids) = 1"
    "check_target_directions exchanges ?ids (decl_targets decls) = Ok ()"
    "allocation_target_indices pa =
       filter (\<lambda>k. case ?ids ! k of None \<Rightarrow> False | Some i \<Rightarrow> i \<in> set (decl_targets decls)) [0..<length ?ids]"
    "if list_ex (\<lambda>l. is_output_exchange (exchanges ! fst l)) (decl_legacy decls)
     then \<exists>f. legacy_process_fraction exchanges ?ids (trim reference_id) (decl_legacy decls) = Ok f \<and>
            pa_exchanges pa = replicate (length exchanges) (Explicit f)
     else traverse (\<lambda>ex. resolve_tidas_exchange_allocation ex (trim reference_id) all_ids 1) exchanges = Ok (pa_exchanges pa)"
    by (rule resolve_process_allocations_Ok [OF assms])
  have legacy: "\<forall>l \<in> set (decl_legacy decls). unit_share (snd l)"
    using collect_declarations_legacy [OF d(1)] by (auto simp: legacy_ok_def)
  have "length (pa_exchanges pa) = length exchanges \<and> (\<forall>r \<in> set (pa_exchanges pa). unit_share (resolution_share r))"
  proof (cases "list_ex (\<lambda>l. is_output_exchange (exchanges ! fst l)) (decl_legacy decls)")
    case True
    with d(5) obtain f where "legacy_process_fraction exchanges ?ids (trim reference_id) (decl_legacy decls) = Ok f"
        "pa_exchanges pa = replicate (length exchanges) (Explicit f)" by auto
    with legacy_process_fraction_unit [OF _ legacy] show ?thesis by auto
  next
    case False
    with d(5) have t: "traverse (\<lambda>ex. resolve_tidas_exchange_allocation ex (trim reference_id) all_ids 1) exchanges =
        Ok (pa_exchanges pa)" by simp
    then have "\<forall>k < length exchanges. unit_share (resolution_share (pa_exchanges pa ! k))"
      using traverse_nth [OF t] exchange_allocation_unit by blast
    with traverse_length [OF t] show ?thesis by (auto simp: in_set_conv_nth)
  qed
  moreover have "sorted_wrt (<) (allocation_target_indices pa)"
    unfolding d(4) by (rule sorted_wrt_filter) simp
  moreover have "\<forall>k \<in> set (allocation_target_indices pa). k < length exchanges \<and>
      exchange_direction_text (exchanges ! k) \<in> {Some ''Input'', Some ''Output''}"
  proof
    fix k assume "k \<in> set (allocation_target_indices pa)"
    then obtain i where k: "k < length ?ids" "?ids ! k = Some i" "i \<in> set (decl_targets decls)"
      unfolding d(4) by (auto split: option.splits)
    with check_target_directions_Ok [OF d(3) _ k] show "k < length exchanges \<and>
      exchange_direction_text (exchanges ! k) \<in> {Some ''Input'', Some ''Output''}" by simp
  qed
  moreover have "length (filter (\<lambda>ex. exchange_internal_id show_number ex = Some (trim reference_id)) exchanges) = 1"
    using d(2) by (simp add: filter_map comp_def)
  ultimately show ?thesis by blast
qed

subsection \<open>Properties\<close>

text \<open>
  A targeted allocation vector is accepted exactly when every entry names a target and a
  percentage between 0 and 100, the targets are distinct exchanges of the process, and the shares
  sum to one within the tolerance; the resolution is the share of the reference, or a sparse zero
  when the vector omits it.
\<close>

theorem targeted_allocation_decides:
  "resolve_targets reference valid es = Ok res \<longleftrightarrow>
     (\<exists>shares. map entry_share es = map Some shares \<and> distinct (map fst shares) \<and>
        set (map fst shares) \<subseteq> set valid \<and>
        \<not> f_gt (f_abs (f_sub (foldl f_add (Fin 0) (map snd shares)) (Fin 1))) allocation_sum_tolerance \<and>
        res = (case map_of shares reference of None \<Rightarrow> SparseZero | Some fraction \<Rightarrow> Explicit fraction))"
  by (rule resolve_targets_iff)

text \<open>
  C34. Resolving a process gives one resolution per exchange, each with a share between zero and
  one; the allocation targets it returns are in ascending order, exist, and have an input or
  output direction. The reference names exactly one exchange, and targeted vectors are never
  mixed with legacy shares.
\<close>

theorem process_allocation_sound:
  assumes "resolve_tidas_process_allocations show_number exchanges reference_id = Ok pa"
  shows "length (pa_exchanges pa) = length exchanges \<and>
    (\<forall>r \<in> set (pa_exchanges pa). unit_share (resolution_share r)) \<and>
    sorted_wrt (<) (allocation_target_indices pa) \<and>
    (\<forall>k \<in> set (allocation_target_indices pa). k < length exchanges \<and>
       exchange_direction_text (exchanges ! k) \<in> {Some ''Input'', Some ''Output''}) \<and>
    length (filter (\<lambda>ex. exchange_internal_id show_number ex = Some (trim reference_id)) exchanges) = 1"
  using assms by (rule process_allocation_facts)

text \<open>A process with one exchange and the empty placeholder of older documents.\<close>

definition placeholder_exchange :: json where
  "placeholder_exchange = JObject [(''@dataSetInternalID'', JNumber (PosInt 0)),
     (''allocations'', JObject [(''allocation'', JObject [])])]"

theorem process_allocation_sound_witness:
  "\<exists>pa. resolve_tidas_process_allocations (\<lambda>_. ''0'') [placeholder_exchange] ''0'' = Ok pa \<and> length (pa_exchanges pa) = 1"
proof -
  have "case resolve_tidas_process_allocations (\<lambda>_. ''0'') [placeholder_exchange] ''0'' of
      Inl _ \<Rightarrow> False | Inr _ \<Rightarrow> True" by code_simp
  then obtain pa where pa: "resolve_tidas_process_allocations (\<lambda>_. ''0'') [placeholder_exchange] ''0'' = Ok pa"
    by (cases "resolve_tidas_process_allocations (\<lambda>_. ''0'') [placeholder_exchange] ''0''") simp_all
  from process_allocation_sound [OF pa, THEN conjunct1] pa show ?thesis by auto
qed

end
