(* ===== verification/Process_Parsing.thy ===== *)
theory Process_Parsing
  imports Tidas_Allocation Provider_Linking
begin

text \<open>
  Reading a process data set in the snapshot builder (\<open>solver-worker/src/bin/snapshot_builder.rs\<close>):
  metadata, the quantitative reference and its normalization, the exchanges with their allocated
  amounts, and the checks before linking. UUID parsing and printing and the printer of a JSON
  number are arguments; time stamps are numbers. Counters are unbounded (the code's \<open>i64\<close> counts
  list elements).
\<close>

subsection \<open>Data\<close>

record process_row =
  row_id :: uuid
  row_version :: string
  row_model_id :: "uuid option"
  row_model_version :: "string option"
  row_user_id :: "uuid option"
  row_state_code :: i32
  row_team_id :: "uuid option"
  row_review_id :: "uuid option"
  row_modified_at :: "int option"
  row_json :: json

record reference_parse_stats =
  missing_reference :: int
  invalid_reference :: int
  normalized_processes :: int

record allocation_parse_stats =
  exchange_total :: int
  fraction_present_count :: int
  fraction_missing_count :: int
  fraction_invalid_count :: int
  legacy_empty_count :: int
  legacy_inferred_count :: int

datatype process_error =
    MultipleReferences "string list"
  | MissingReference
  | ReferenceMatches string nat
  | ReferenceDirection string
  | ReferenceAmount string
  | ReferenceCoefficient string signed_flow_error
  | ReferencePivotInvalid string signed_flow_error
  | MissingReferenceAfterValidation
  | InvalidAllocationVector tidas_error
  | ExchangeCoefficient signed_flow_error
  | PivotMismatch "string option" f64 f64
  | UnresolvableFlow string uuid
  | InvisibleFlow string uuid string
  | ReferenceExchangeCount uuid string nat
  | ReferenceFlowUnavailable uuid string uuid
  | ReferenceWithoutDirection uuid string
  | ReferenceWithoutAmount uuid string
  | ReferenceNotUnit uuid string f64

subsection \<open>Reading JSON\<close>

definition process_exchange_items :: "json \<Rightarrow> json list" where
  "process_exchange_items j =
     (case json_pointer [''processDataSet'', ''exchanges'', ''exchange''] j of
        Some (JArray es) \<Rightarrow> es
      | Some (JObject m) \<Rightarrow> [JObject m]
      | _ \<Rightarrow> [])"

definition parse_uuid_at :: "(string \<Rightarrow> uuid option) \<Rightarrow> json \<Rightarrow> string list \<Rightarrow> uuid option" where
  "parse_uuid_at parse_uuid v path = Option.bind (Option.bind (json_pointer path v) as_str) parse_uuid"

definition parse_reference_internal_ids :: "json \<Rightarrow> string list" where
  "parse_reference_internal_ids j =
     (case json_pointer [''processDataSet'', ''processInformation'', ''quantitativeReference'', ''referenceToReferenceFlow''] j of
        None \<Rightarrow> []
      | Some v \<Rightarrow>
          List.map_filter (\<lambda>x. Option.bind (as_str x) trim_nonempty) (case v of JArray vs \<Rightarrow> vs | _ \<Rightarrow> [v]))"

definition parse_reference_internal_id :: "json \<Rightarrow> string option" where
  "parse_reference_internal_id j =
     (let ids = parse_reference_internal_ids j in if length ids = 1 then Some (hd ids) else None)"

definition parse_exchange_internal_id :: "json \<Rightarrow> string option" where
  "parse_exchange_internal_id ex = Option.bind (Option.bind (json_get ''@dataSetInternalID'' ex) as_str) trim_nonempty"

definition is_reference_internal_exchange :: "string option \<Rightarrow> string option \<Rightarrow> bool" where
  "is_reference_internal_exchange internal_id reference \<longleftrightarrow> reference \<noteq> None \<and> internal_id = reference"

definition parse_number :: "json option \<Rightarrow> f64 option" where
  "parse_number v =
     Option.bind
       (case v of
          Some (JString text) \<Rightarrow> parse_f64 (filter (\<lambda>c. c \<noteq> CHR '','') text)
        | Some (JNumber n) \<Rightarrow> Some (as_f64 n)
        | _ \<Rightarrow> None)
       (\<lambda>x. if is_finite x then Some x else None)"

fun parse_location_string_value :: "json \<Rightarrow> string option"
  and parse_location_items :: "json list \<Rightarrow> string option"
where
  "parse_location_string_value (JArray items) = parse_location_items items"
| "parse_location_string_value (JObject m) =
     Option.bind (Option.bind (case map_of m ''@location'' of Some v \<Rightarrow> Some v | None \<Rightarrow> map_of m ''#text'') as_str) trim_nonempty"
| "parse_location_string_value (JString text) = trim_nonempty text"
| "parse_location_string_value _ = None"
| "parse_location_items [] = None"
| "parse_location_items (v # vs) =
     (case parse_location_string_value v of Some l \<Rightarrow> Some l | None \<Rightarrow> parse_location_items vs)"

definition parse_exchange_location :: "json \<Rightarrow> string option" where
  "parse_exchange_location ex = Option.bind (json_get ''location'' ex) parse_location_string_value"

definition parse_process_location :: "json \<Rightarrow> string option" where
  "parse_process_location j =
     Option.bind (Option.bind (json_pointer [''processDataSet'', ''processInformation'', ''geography'',
       ''locationOfOperationSupplyOrProduction'', ''@location''] j) as_str) trim_nonempty"

definition parse_process_name :: "json \<Rightarrow> string option" where
  "parse_process_name j =
     Option.bind (json_pointer [''processDataSet'', ''processInformation'', ''dataSetInformation'', ''name'', ''baseName''] j) (\<lambda>b.
     Option.bind (case b of JArray items \<Rightarrow> (case items of [] \<Rightarrow> None | x # _ \<Rightarrow> Some x) | JObject _ \<Rightarrow> Some b | _ \<Rightarrow> None) (\<lambda>v.
     Option.bind (as_str (case json_get ''#text'' v of Some t \<Rightarrow> t | None \<Rightarrow> v)) trim_nonempty))"

definition i32_of_i64 :: "int \<Rightarrow> i32 option" where
  "i32_of_i64 n = (if i32_range n then Some n else None)"

definition parse_process_reference_year :: "json \<Rightarrow> i32 option" where
  "parse_process_reference_year j =
     Option.bind (json_pointer [''processDataSet'', ''processInformation'', ''time'', ''common:referenceYear''] j) (\<lambda>v.
     case v of
       JNumber n \<Rightarrow> Option.bind (as_i64 n) i32_of_i64
     | JString text \<Rightarrow> parse_i32 (trim text)
     | _ \<Rightarrow> None)"

definition parse_positive_number_prefix :: "string \<Rightarrow> f64 option" where
  "parse_positive_number_prefix text =
     Option.bind (first_word text) (\<lambda>token.
     Option.bind (parse_f64 (filter (\<lambda>c. c \<noteq> CHR '','') token)) (\<lambda>v.
     if is_finite v \<and> f_gt v (Fin 0) then Some v else None))"

fun parse_string_multi_lang_number_prefix :: "json \<Rightarrow> f64 option"
  and parse_multi_lang_items :: "json list \<Rightarrow> f64 option"
where
  "parse_string_multi_lang_number_prefix (JArray items) = parse_multi_lang_items items"
| "parse_string_multi_lang_number_prefix (JObject m) =
     Option.bind (Option.bind (map_of m ''#text'') as_str) parse_positive_number_prefix"
| "parse_string_multi_lang_number_prefix (JString text) = parse_positive_number_prefix text"
| "parse_string_multi_lang_number_prefix _ = None"
| "parse_multi_lang_items [] = None"
| "parse_multi_lang_items (v # vs) =
     (case parse_string_multi_lang_number_prefix v of Some x \<Rightarrow> Some x | None \<Rightarrow> parse_multi_lang_items vs)"

definition parse_process_annual_supply_or_production_volume :: "json \<Rightarrow> f64 option" where
  "parse_process_annual_supply_or_production_volume j =
     Option.bind (json_pointer [''processDataSet'', ''modellingAndValidation'', ''dataSourcesTreatmentAndRepresentativeness'',
       ''annualSupplyOrProductionVolume''] j) parse_string_multi_lang_number_prefix"

definition category_text :: "json \<Rightarrow> string" where
  "category_text category =
     (case category of
        JArray items \<Rightarrow>
          (case items of
             [] \<Rightarrow> []
           | v # _ \<Rightarrow> unwrap_or (Option.bind (json_get ''#text'' v) as_str) [])
      | JObject m \<Rightarrow> unwrap_or (Option.bind (map_of m ''#text'') as_str) []
      | JString text \<Rightarrow> text
      | _ \<Rightarrow> [])"

definition classify_source_flow_type :: "json \<Rightarrow> compiled_source_flow_type" where
  "classify_source_flow_type j =
     (case map_option trim (Option.bind (json_pointer [''flowDataSet'', ''modellingAndValidation'', ''LCIMethod'',
             ''typeOfDataSet''] j) as_str) of
        Some t \<Rightarrow>
          (if t = ''Product flow'' then SourceProduct else if t = ''Waste flow'' then SourceWaste
           else if t = ''Elementary flow'' then SourceElementary else SourceOther)
      | None \<Rightarrow>
          (case json_pointer [''flowDataSet'', ''flowInformation'', ''dataSetInformation'', ''classificationInformation'',
                  ''common:elementaryFlowCategorization'', ''common:category''] j of
             None \<Rightarrow> SourceProduct
           | Some category \<Rightarrow>
               (if category_text category \<in> {''Emissions'', ''Resources'', ''Land use''} then SourceElementary
                else SourceProduct)))"

fun flow_space_for_source_type :: "compiled_source_flow_type \<Rightarrow> compiled_flow_space" where
  "flow_space_for_source_type SourceProduct = Technosphere"
| "flow_space_for_source_type SourceWaste = Technosphere"
| "flow_space_for_source_type SourceElementary = Biosphere"
| "flow_space_for_source_type SourceOther = Reporting"

subsection \<open>Reference and allocation\<close>

definition resolve_reference_normalization ::
    "json \<Rightarrow> json list \<Rightarrow> (process_error, reference_pivot \<times> reference_parse_stats) result" where
  "resolve_reference_normalization j exchanges =
     (let ids = parse_reference_internal_ids j in
      and_then (ensure (\<not> 1 < length ids) (MultipleReferences ids)) (\<lambda>_.
      case ids of
        [] \<Rightarrow> Err MissingReference
      | reference # _ \<Rightarrow>
          (let matches = filter (\<lambda>ex. parse_exchange_internal_id ex = Some reference) exchanges in
           and_then (ensure (length matches = 1) (ReferenceMatches reference (length matches))) (\<lambda>_.
           let ex = hd matches in
           and_then (ok_or (parse_exchange_direction (Option.bind (json_get ''exchangeDirection'' ex) as_str))
                       (ReferenceDirection reference)) (\<lambda>direction.
           and_then (ok_or (parse_number (preferred_calculation_amount_value ex)) (ReferenceAmount reference)) (\<lambda>amount.
           and_then (map_err (ReferenceCoefficient reference)
                       (signed_coefficient (signed_flow_direction_of direction) amount)) (\<lambda>raw.
           and_then (map_err (ReferencePivotInvalid reference) (normalize_reference_coefficient raw)) (\<lambda>pivot.
           Ok (pivot, \<lparr>missing_reference = 0, invalid_reference = 0, normalized_processes = 1\<rparr>)))))))))"

fun allocation_fraction_parts ::
    "tidas_allocation_resolution \<Rightarrow> f64 \<times> allocation_fraction_state \<times> allocation_fallback_state" where
  "allocation_fraction_parts Undeclared = (Fin 1, AllocMissing, FallbackNone)"
| "allocation_fraction_parts LegacyEmptyUndeclared = (Fin 1, AllocMissing, FallbackLegacyEmptyUndeclared)"
| "allocation_fraction_parts (Explicit fraction) = (fraction, AllocPresent, FallbackNone)"
| "allocation_fraction_parts (LegacyInferredReference fraction) =
     (fraction, AllocPresent, FallbackLegacySingleReferenceTargetInferred)"
| "allocation_fraction_parts SparseZero = (Fin 0, AllocSparseZero, FallbackNone)"

definition count_allocation ::
    "allocation_fraction_state \<Rightarrow> allocation_fallback_state \<Rightarrow> allocation_parse_stats \<Rightarrow> allocation_parse_stats" where
  "count_allocation state fallback stats0 =
     (let stats = stats0\<lparr>exchange_total := exchange_total stats0 + 1\<rparr>;
          stats1 = (case state of
             AllocPresent \<Rightarrow> stats\<lparr>fraction_present_count := fraction_present_count stats + 1\<rparr>
           | AllocSparseZero \<Rightarrow> stats\<lparr>fraction_present_count := fraction_present_count stats + 1\<rparr>
           | AllocMissing \<Rightarrow> stats\<lparr>fraction_missing_count := fraction_missing_count stats + 1\<rparr>
           | AllocInvalid \<Rightarrow> stats\<lparr>fraction_invalid_count := fraction_invalid_count stats + 1\<rparr>)
      in case fallback of
           FallbackNone \<Rightarrow> stats1
         | FallbackLegacyEmptyUndeclared \<Rightarrow> stats1\<lparr>legacy_empty_count := legacy_empty_count stats1 + 1\<rparr>
         | FallbackLegacySingleReferenceTargetInferred \<Rightarrow> stats1\<lparr>legacy_inferred_count := legacy_inferred_count stats1 + 1\<rparr>)"

subsection \<open>One process\<close>

definition attributed_amount :: "f64 option \<Rightarrow> f64 \<Rightarrow> f64 \<Rightarrow> f64 option" where
  "attributed_amount raw sc fraction =
     Option.bind raw (\<lambda>x. let y = f_mul (f_mul x sc) fraction in if is_finite y then Some y else None)"

definition check_pivot ::
    "bool \<Rightarrow> exchange_direction option \<Rightarrow> f64 option \<Rightarrow> reference_pivot \<Rightarrow> string option \<Rightarrow> (process_error, unit) result" where
  "check_pivot is_reference direction amount pivot internal_id =
     (case (direction, amount) of
        (Some d, Some a) \<Rightarrow>
          if is_reference
          then and_then (map_err ExchangeCoefficient (signed_coefficient (signed_flow_direction_of d) a)) (\<lambda>c.
               ensure (\<not> f_gt (f_abs (f_sub c (pivot_coefficient pivot))) signed_flow_closure_tolerance)
                 (PivotMismatch internal_id (pivot_coefficient pivot) c))
          else Ok ()
      | _ \<Rightarrow> Ok ())"

type_synonym chunk_state = "parsed_exchange list \<times> uuid list \<times> allocation_parse_stats"

definition parse_exchange_step ::
    "(string \<Rightarrow> uuid option) \<Rightarrow> (uuid \<Rightarrow> string) \<Rightarrow> process_row \<Rightarrow> i32 \<Rightarrow> string \<Rightarrow> reference_pivot \<Rightarrow>
     tidas_process_allocation \<Rightarrow> chunk_state \<Rightarrow> nat \<times> json \<Rightarrow> (process_error, chunk_state) result" where
  "parse_exchange_step parse_uuid show_uuid row idx reference pivot allocation st e =
     (let ex = snd e;
          label = unwrap_or (Option.bind (Option.bind (json_get ''exchangeDirection'' ex) as_str) trim_nonempty) ''unknown'';
          direction = parse_exchange_direction (Some label)
      in case parse_uuid_at parse_uuid ex [''referenceToFlowDataSet'', ''@refObjectId''] of
           None \<Rightarrow> Ok st
         | Some flow_id \<Rightarrow>
             (let internal_id = parse_exchange_internal_id ex;
                  version = unwrap_or (Option.bind (Option.bind (json_pointer [''referenceToFlowDataSet'', ''@version''] ex) as_str)
                              trim_nonempty) ''unknown'';
                  parts = allocation_fraction_parts (pa_exchanges allocation ! fst e);
                  fraction = fst parts; state = fst (snd parts); fallback = snd (snd parts);
                  is_reference = is_reference_internal_exchange internal_id (Some reference);
                  raw = parse_number (preferred_calculation_amount_value ex);
                  amount = attributed_amount raw (scale pivot) (if is_reference then Fin 1 else fraction)
              in and_then (case (direction, raw) of
                             (Some d, Some x) \<Rightarrow>
                               and_then (map_err ExchangeCoefficient (signed_coefficient (signed_flow_direction_of d) x)) (\<lambda>c. Ok (Some c))
                           | _ \<Rightarrow> Ok None) (\<lambda>signed_raw.
                 and_then (check_pivot is_reference direction amount pivot internal_id) (\<lambda>_.
                 Ok (fst st @
                       [\<lparr>px_process_idx = idx, px_flow_id = flow_id, px_direction = direction, px_direction_label = label,
                         px_internal_id = internal_id,
                         px_exchange_id = show_uuid (row_id row) @ '':'' @ row_version row @ '':'' @
                           (case internal_id of None \<Rightarrow> show_nat (fst e) | Some i \<Rightarrow> i),
                         px_flow_version = version, px_is_reference_exchange = is_reference, px_raw_amount = raw,
                         px_signed_raw_coefficient = signed_raw, px_amount = amount, px_allocation_state = state,
                         px_allocation_fraction = fraction, px_allocation_target_internal_id = reference,
                         px_location = parse_exchange_location ex\<rparr>],
                     List.insert flow_id (fst (snd st)), count_allocation state fallback (snd (snd st)))))))"

definition process_meta_of_row :: "process_row \<Rightarrow> i32 \<Rightarrow> process_meta" where
  "process_meta_of_row row idx =
     \<lparr>pm_process_idx = idx, pm_process_id = row_id row, pm_process_version = row_version row,
      pm_process_name = parse_process_name (row_json row), pm_model_id = row_model_id row,
      pm_model_version = row_model_version row, pm_location = parse_process_location (row_json row),
      pm_reference_year = parse_process_reference_year (row_json row),
      pm_annual_volume = parse_process_annual_supply_or_production_volume (row_json row)\<rparr>"

type_synonym parsed_process_chunk =
  "process_meta \<times> parsed_exchange list \<times> uuid list \<times> reference_parse_stats \<times> allocation_parse_stats"

definition parse_process_chunk ::
    "(string \<Rightarrow> uuid option) \<Rightarrow> (uuid \<Rightarrow> string) \<Rightarrow> (json_number \<Rightarrow> string) \<Rightarrow> process_row \<Rightarrow> i32 \<Rightarrow>
       (process_error, parsed_process_chunk) result" where
  "parse_process_chunk parse_uuid show_uuid show_number row idx =
     (let exchanges = process_exchange_items (row_json row) in
      and_then (resolve_reference_normalization (row_json row) exchanges) (\<lambda>(pivot, reference_stats).
      and_then (ok_or (parse_reference_internal_id (row_json row)) MissingReferenceAfterValidation) (\<lambda>reference.
      and_then (map_err InvalidAllocationVector (resolve_tidas_process_allocations show_number exchanges reference)) (\<lambda>allocation.
      and_then (fold_result (parse_exchange_step parse_uuid show_uuid row idx reference pivot allocation)
                  ([], [], \<lparr>exchange_total = 0, fraction_present_count = 0, fraction_missing_count = 0,
                            fraction_invalid_count = 0, legacy_empty_count = 0, legacy_inferred_count = 0\<rparr>)
                  (List.enumerate 0 exchanges)) (\<lambda>st.
      Ok (process_meta_of_row row idx, fst st, fst (snd st), reference_stats, snd (snd st)))))))"

subsection \<open>Flow versions and quantitative references\<close>

record flow_reference_requests =
  fr_exact :: "flow_link_identity list"
  fr_omitted :: "uuid list"

record flow_row =
  fw_id :: uuid
  fw_version :: string
  fw_user_id :: "uuid option"
  fw_state_code :: i32
  fw_team_id :: "uuid option"
  fw_review_id :: "uuid option"
  fw_json :: json

record resolved_flow_metadata =
  fm_by_identity :: "(flow_link_identity \<times> flow_row) list"
  fm_omitted_version_by_id :: "(uuid \<times> string) list"

definition insert_flow_reference_request ::
    "flow_reference_requests \<Rightarrow> uuid \<Rightarrow> string \<Rightarrow> flow_reference_requests" where
  "insert_flow_reference_request requests flow_id version =
     (if version = ''unknown'' \<or> version = []
      then requests\<lparr>fr_omitted := List.insert flow_id (fr_omitted requests)\<rparr>
      else requests\<lparr>fr_exact := List.insert (flow_link_identity_from_parts flow_id version) (fr_exact requests)\<rparr>)"

definition collect_exchange_flow_reference_requests :: "parsed_exchange list \<Rightarrow> flow_reference_requests" where
  "collect_exchange_flow_reference_requests exchanges =
     foldl (\<lambda>r ex. insert_flow_reference_request r (px_flow_id ex) (px_flow_version ex))
       \<lparr>fr_exact = [], fr_omitted = []\<rparr> exchanges"

definition collect_process_flow_reference_requests ::
    "(string \<Rightarrow> uuid option) \<Rightarrow> process_row list \<Rightarrow> flow_reference_requests" where
  "collect_process_flow_reference_requests parse_uuid rows =
     foldl (\<lambda>r ex.
        case parse_uuid_at parse_uuid ex [''referenceToFlowDataSet'', ''@refObjectId''] of
          None \<Rightarrow> r
        | Some flow_id \<Rightarrow>
            insert_flow_reference_request r flow_id
              (unwrap_or (Option.bind (Option.bind (json_pointer [''referenceToFlowDataSet'', ''@version''] ex) as_str)
                 trim_nonempty) ''unknown''))
       \<lparr>fr_exact = [], fr_omitted = []\<rparr> (concat (map (process_exchange_items \<circ> row_json) rows))"

definition resolve_flow_version ::
    "resolved_flow_metadata \<Rightarrow> flow_link_identity list \<Rightarrow> parsed_exchange \<Rightarrow> (process_error, parsed_exchange) result" where
  "resolve_flow_version meta extra ex =
     (if px_flow_version ex = ''unknown''
      then and_then (ok_or (map_of (fm_omitted_version_by_id meta) (px_flow_id ex))
             (UnresolvableFlow (px_exchange_id ex) (px_flow_id ex))) (\<lambda>version.
           Ok (ex\<lparr>px_flow_version := version\<rparr>))
      else if map_of (fm_by_identity meta) (flow_link_identity_of ex) \<noteq> None \<or> flow_link_identity_of ex \<in> set extra
      then Ok ex
      else Err (InvisibleFlow (px_exchange_id ex) (px_flow_id ex) (px_flow_version ex)))"

definition resolve_requested_flow_versions_with_available ::
    "parsed_exchange list \<Rightarrow> resolved_flow_metadata \<Rightarrow> flow_link_identity list \<Rightarrow> (process_error, parsed_exchange list) result" where
  "resolve_requested_flow_versions_with_available exchanges meta extra =
     traverse (resolve_flow_version meta extra) exchanges"

definition resolve_requested_flow_versions ::
    "parsed_exchange list \<Rightarrow> resolved_flow_metadata \<Rightarrow> (process_error, parsed_exchange list) result" where
  "resolve_requested_flow_versions exchanges meta =
     resolve_requested_flow_versions_with_available exchanges meta []"

definition reference_exchanges_of :: "parsed_exchange list \<Rightarrow> process_meta \<Rightarrow> parsed_exchange list" where
  "reference_exchanges_of exchanges process =
     filter (\<lambda>ex. px_process_idx ex = pm_process_idx process \<and> px_is_reference_exchange ex) exchanges"

definition validate_process_reference ::
    "parsed_exchange list \<Rightarrow> (flow_link_identity \<Rightarrow> compiled_flow_space option) \<Rightarrow> process_meta \<Rightarrow>
       (process_error, unit) result" where
  "validate_process_reference exchanges flow_space process =
     (let i = pm_process_id process; v = pm_process_version process; refs = reference_exchanges_of exchanges process in
      and_then (ensure (length refs = 1) (ReferenceExchangeCount i v (length refs))) (\<lambda>_.
      let ex = hd refs in
      and_then (ensure (flow_space (flow_link_identity_of ex) \<noteq> None) (ReferenceFlowUnavailable i v (px_flow_id ex))) (\<lambda>_.
      and_then (ok_or (px_direction ex) (ReferenceWithoutDirection i v)) (\<lambda>direction.
      and_then (case px_amount ex of
                  None \<Rightarrow> Err (ReferenceWithoutAmount i v)
                | Some a \<Rightarrow> map_err ExchangeCoefficient (signed_coefficient (signed_flow_direction_of direction) a)) (\<lambda>c.
      ensure (\<not> f_gt (f_abs (f_sub (f_abs c) (Fin 1))) signed_flow_closure_tolerance) (ReferenceNotUnit i v c))))))"

definition validate_quantitative_references ::
    "parsed_exchange list \<Rightarrow> process_meta list \<Rightarrow> (flow_link_identity \<Rightarrow> compiled_flow_space option) \<Rightarrow>
       (process_error, unit) result" where
  "validate_quantitative_references exchanges processes flow_space =
     fold_result (\<lambda>_. validate_process_reference exchanges flow_space) () processes"

subsection \<open>Facts on one exchange\<close>

lemma allocation_parts_share:
  "fst (allocation_fraction_parts r) = resolution_share r" "fst (snd (allocation_fraction_parts r)) \<noteq> AllocInvalid"
  "fst (snd (allocation_fraction_parts r)) = AllocSparseZero \<longleftrightarrow> r = SparseZero"
  by (cases r; simp)+

lemma attributed_amount_finite: "attributed_amount raw sc f = Some a \<Longrightarrow> is_finite a"
  by (auto simp: attributed_amount_def Option.bind_eq_Some_conv Let_def split: if_splits)

lemma attributed_zero: "attributed_amount raw sc (Fin 0) = Some a \<Longrightarrow> f_eq a (Fin 0)"
proof -
  have "is_finite (f_mul y (Fin 0)) \<Longrightarrow> f_eq (f_mul y (Fin 0)) (Fin 0)" for y
    by (cases y) (auto simp: f_mul_def zero_of_def f_eq_def)
  then show "attributed_amount raw sc (Fin 0) = Some a \<Longrightarrow> ?thesis"
    by (auto simp: attributed_amount_def Option.bind_eq_Some_conv Let_def split: if_splits)
qed

lemma zero_amount_no_residual:
  assumes "case px_amount ex of None \<Rightarrow> True | Some a \<Rightarrow> f_eq a (Fin 0)"
  shows "nonzero_residual_coefficient ex = None"
proof (rule ccontr)
  assume "nonzero_residual_coefficient ex \<noteq> None"
  then obtain c where c: "nonzero_residual_coefficient ex = Some c" by blast
  then obtain d a where a: "px_amount ex = Some a" "(case signed_coefficient (signed_flow_direction_of d) a of
      Inl _ \<Rightarrow> None | Inr c \<Rightarrow> if f_eq c (Fin 0) then None else Some c) = Some c"
    by (auto simp: nonzero_residual_coefficient_def Option.bind_eq_Some_conv split: if_splits)
  from assms a(1) have z: "a = Fin 0 \<or> a = NegZero" by (cases a) (auto simp: f_eq_def)
  have "signed_coefficient s a = Ok (Fin 0) \<or> signed_coefficient s a = Ok NegZero" for s
    using z by (cases s) (auto simp: signed_coefficient_def ensure_def f_mul_def zero_of_def)
  from this [of "signed_flow_direction_of d"] a(2) show False by (elim disjE) (simp_all add: f_eq_def)
qed

text \<open>What every parsed exchange of a process satisfies.\<close>

definition exchange_ok :: "i32 \<Rightarrow> parsed_exchange \<Rightarrow> bool" where
  "exchange_ok idx px \<longleftrightarrow>
     px_process_idx px = idx \<and> unit_share (px_allocation_fraction px) \<and> px_allocation_state px \<noteq> AllocInvalid \<and>
     (case px_amount px of None \<Rightarrow> True | Some a \<Rightarrow> is_finite a) \<and>
     (px_is_reference_exchange px \<or> px_allocation_state px = AllocSparseZero \<longrightarrow> nonzero_residual_coefficient px = None)"

lemma parse_exchange_step_Ok:
  assumes "parse_exchange_step parse_uuid show_uuid row idx reference pivot allocation st (k, ex) = Ok st'"
    and "unit_share (resolution_share (pa_exchanges allocation ! k))"
  obtains "st' = st"
  | px state fallback where "exchange_ok idx px" "px_allocation_state px = state"
      "px_is_reference_exchange px \<longleftrightarrow> parse_exchange_internal_id ex = Some reference"
      "st' = (fst st @ [px], List.insert (px_flow_id px) (fst (snd st)), count_allocation state fallback (snd (snd st)))"
proof (cases "parse_uuid_at parse_uuid ex [''referenceToFlowDataSet'', ''@refObjectId'']")
  case None
  with assms(1) that(1) show thesis by (simp add: parse_exchange_step_def Let_def)
next
  case (Some flow_id)
  let ?parts = "allocation_fraction_parts (pa_exchanges allocation ! k)"
  let ?ref = "is_reference_internal_exchange (parse_exchange_internal_id ex) (Some reference)"
  let ?amount = "attributed_amount (parse_number (preferred_calculation_amount_value ex)) (scale pivot)
     (if ?ref then Fin 1 else fst ?parts)"
  let ?label = "unwrap_or (Option.bind (Option.bind (json_get ''exchangeDirection'' ex) as_str) trim_nonempty) ''unknown''"
  let ?px = "\<lambda>signed_raw. \<lparr>px_process_idx = idx, px_flow_id = flow_id,
      px_direction = parse_exchange_direction (Some ?label), px_direction_label = ?label,
      px_internal_id = parse_exchange_internal_id ex,
      px_exchange_id = show_uuid (row_id row) @ '':'' @ row_version row @ '':'' @
        (case parse_exchange_internal_id ex of None \<Rightarrow> show_nat k | Some i \<Rightarrow> i),
      px_flow_version = unwrap_or (Option.bind (Option.bind (json_pointer [''referenceToFlowDataSet'', ''@version''] ex) as_str)
        trim_nonempty) ''unknown'',
      px_is_reference_exchange = ?ref, px_raw_amount = parse_number (preferred_calculation_amount_value ex),
      px_signed_raw_coefficient = signed_raw, px_amount = ?amount, px_allocation_state = fst (snd ?parts),
      px_allocation_fraction = fst ?parts, px_allocation_target_internal_id = reference,
      px_location = parse_exchange_location ex\<rparr>"
  from assms(1) Some obtain signed_raw where st: "Ok (fst st @ [?px signed_raw], List.insert flow_id (fst (snd st)),
         count_allocation (fst (snd ?parts)) (snd (snd ?parts)) (snd (snd st))) = Ok st'"
    unfolding parse_exchange_step_def Let_def fst_conv snd_conv Some option.case and_then_Ok_iff by fast
  define px where "px = ?px signed_raw"
  have px: "px_process_idx px = idx" "px_flow_id px = flow_id" "px_amount px = ?amount"
      "px_allocation_state px = fst (snd ?parts)" "px_allocation_fraction px = fst ?parts" "px_is_reference_exchange px = ?ref"
    by (simp_all add: px_def)
  have st': "st' = (fst st @ [px], List.insert flow_id (fst (snd st)),
         count_allocation (fst (snd ?parts)) (snd (snd ?parts)) (snd (snd st)))"
    using st unfolding px_def [symmetric] by simp
  have "exchange_ok idx px"
    unfolding exchange_ok_def
  proof (intro conjI impI)
    show "px_process_idx px = idx" by (rule px)
    show "unit_share (px_allocation_fraction px)" using assms(2) by (simp add: px allocation_parts_share)
    show "px_allocation_state px \<noteq> AllocInvalid" by (simp add: px allocation_parts_share)
    show "case px_amount px of None \<Rightarrow> True | Some a \<Rightarrow> is_finite a"
      unfolding px(3) using attributed_amount_finite by (auto split: option.split)
    assume or: "px_is_reference_exchange px \<or> px_allocation_state px = AllocSparseZero"
    show "nonzero_residual_coefficient px = None"
    proof (cases "px_is_reference_exchange px")
      case True
      then show ?thesis by (simp add: nonzero_residual_coefficient_def)
    next
      case False
      with or have "pa_exchanges allocation ! k = SparseZero" by (simp add: px(4) allocation_parts_share)
      with False have "px_amount px = attributed_amount (parse_number (preferred_calculation_amount_value ex)) (scale pivot) (Fin 0)"
        by (simp add: px)
      then have "case px_amount px of None \<Rightarrow> True | Some a \<Rightarrow> f_eq a (Fin 0)"
        using attributed_zero by (auto split: option.split)
      then show ?thesis by (rule zero_amount_no_residual)
    qed
  qed
  moreover have "px_is_reference_exchange px \<longleftrightarrow> parse_exchange_internal_id ex = Some reference"
    by (auto simp: px(6) is_reference_internal_exchange_def)
  ultimately show thesis by (rule that(2) [OF _ px(4)]) (simp add: st' px(2))
qed

definition chunk_ok :: "i32 \<Rightarrow> chunk_state \<Rightarrow> bool" where
  "chunk_ok idx st \<longleftrightarrow>
     (\<forall>px \<in> set (fst st). exchange_ok idx px \<and> px_flow_id px \<in> set (fst (snd st))) \<and>
     exchange_total (snd (snd st)) = int (length (fst st)) \<and> fraction_invalid_count (snd (snd st)) = 0 \<and>
     fraction_present_count (snd (snd st)) + fraction_missing_count (snd (snd st)) = exchange_total (snd (snd st))"

lemma count_allocation_sums:
  "state \<noteq> AllocInvalid \<Longrightarrow>
     exchange_total (count_allocation state fallback s) = exchange_total s + 1 \<and>
     fraction_invalid_count (count_allocation state fallback s) = fraction_invalid_count s \<and>
     fraction_present_count (count_allocation state fallback s) + fraction_missing_count (count_allocation state fallback s) =
       fraction_present_count s + fraction_missing_count s + 1"
  by (cases state; cases fallback) (auto simp: count_allocation_def Let_def)

lemma chunk_step_ok:
  assumes "parse_exchange_step parse_uuid show_uuid row idx reference pivot allocation st e = Ok st'"
    and "unit_share (resolution_share (pa_exchanges allocation ! fst e))" and "chunk_ok idx st"
  shows "chunk_ok idx st'"
proof -
  obtain k ex where e: "e = (k, ex)" by (cases e)
  show ?thesis
  proof (cases rule: parse_exchange_step_Ok [OF assms(1) [unfolded e] assms(2) [unfolded e fst_conv]])
    case 1
    with assms(3) show ?thesis by simp
  next
    case (2 px state fallback)
    then have "state \<noteq> AllocInvalid" by (auto simp: exchange_ok_def)
    from count_allocation_sums [OF this, of fallback "snd (snd st)"] 2 assms(3) show ?thesis
      by (auto simp: chunk_ok_def)
  qed
qed

lemma reference_step_count:
  assumes "parse_exchange_step parse_uuid show_uuid row idx reference pivot allocation st e = Ok st'"
    and "unit_share (resolution_share (pa_exchanges allocation ! fst e))"
  shows "length (filter px_is_reference_exchange (fst st')) \<le> length (filter px_is_reference_exchange (fst st)) +
    (if parse_exchange_internal_id (snd e) = Some reference then 1 else 0)"
proof -
  obtain k ex where e: "e = (k, ex)" by (cases e)
  show ?thesis
    by (rule parse_exchange_step_Ok [OF assms(1) [unfolded e] assms(2) [unfolded e fst_conv]]) (auto simp: e)
qed

lemma reference_count:
  assumes "\<forall>e \<in> set es. unit_share (resolution_share (pa_exchanges allocation ! fst e))"
    and "fold_result (parse_exchange_step parse_uuid show_uuid row idx reference pivot allocation) st es = Ok st'"
  shows "length (filter px_is_reference_exchange (fst st')) \<le> length (filter px_is_reference_exchange (fst st)) +
    length (filter (\<lambda>e. parse_exchange_internal_id (snd e) = Some reference) es)"
  using assms
proof (induction es arbitrary: st)
  case (Cons e es)
  from Cons.prems(2) obtain s1 where s1: "parse_exchange_step parse_uuid show_uuid row idx reference pivot allocation st e = Ok s1"
      "fold_result (parse_exchange_step parse_uuid show_uuid row idx reference pivot allocation) s1 es = Ok st'"
    by (auto simp: and_then_Ok_iff)
  from Cons.IH [OF _ s1(2)] reference_step_count [OF s1(1)] Cons.prems(1) show ?case by fastforce
qed simp

lemma reference_normalization_Ok:
  assumes "resolve_reference_normalization j exchanges = Ok (pivot, stats)"
    and "parse_reference_internal_id j = Some reference"
  shows "length (filter (\<lambda>ex. parse_exchange_internal_id ex = Some reference) exchanges) = 1"
    and "\<exists>raw. normalize_reference_coefficient raw = Ok pivot" and "normalized_processes stats = 1"
proof -
  from assms(2) have ids: "parse_reference_internal_ids j = [reference]"
    by (cases "parse_reference_internal_ids j") (auto simp: parse_reference_internal_id_def Let_def split: if_splits)
  show "length (filter (\<lambda>ex. parse_exchange_internal_id ex = Some reference) exchanges) = 1"
    "\<exists>raw. normalize_reference_coefficient raw = Ok pivot" "normalized_processes stats = 1"
    using assms(1) unfolding resolve_reference_normalization_def ids
    by (auto simp: Let_def and_then_Ok_iff)
qed

lemma enumerate_snd_filter: "length (filter (\<lambda>e. P (snd e)) (List.enumerate n xs)) = length (filter P xs)"
  by (induction xs arbitrary: n) simp_all

subsection \<open>A process with one exchange\<close>

definition unit_exchange :: json where
  "unit_exchange = JObject
     [(''@dataSetInternalID'', JString ''0''), (''exchangeDirection'', JString ''Output''),
      (''meanAmount'', JNumber (Float (Fin 1))),
      (''referenceToFlowDataSet'', JObject [(''@refObjectId'', JString ''7'')])]"

definition unit_process :: process_row where
  "unit_process = \<lparr>row_id = 1, row_version = ''1'', row_model_id = None, row_model_version = None, row_user_id = None,
     row_state_code = 100, row_team_id = None, row_review_id = None, row_modified_at = None,
     row_json = JObject [(''processDataSet'', JObject
       [(''processInformation'', JObject [(''quantitativeReference'', JObject [(''referenceToReferenceFlow'', JString ''0'')])]),
        (''exchanges'', JObject [(''exchange'', unit_exchange)])])]\<rparr>"

lemma unit_items: "process_exchange_items (row_json unit_process) = [unit_exchange]" by code_simp

lemma unit_refs: "parse_reference_internal_ids (row_json unit_process) = [''0'']" by code_simp

lemma unit_iid: "parse_exchange_internal_id unit_exchange = Some ''0''" by code_simp

lemma unit_direction: "parse_exchange_direction (Option.bind (json_get ''exchangeDirection'' unit_exchange) as_str) = Some ExOutput" by code_simp

lemma unit_label: "parse_exchange_direction (Some (unwrap_or (Option.bind (Option.bind (json_get ''exchangeDirection'' unit_exchange) as_str) trim_nonempty) ''unknown'')) = Some ExOutput" by code_simp

lemma unit_amount: "parse_number (preferred_calculation_amount_value unit_exchange) = Some (Fin 1)" by code_simp

lemma unit_flow: "parse_uuid_at (\<lambda>_. Some 7) unit_exchange [''referenceToFlowDataSet'', ''@refObjectId''] = Some 7" by code_simp

lemma unit_allocation: "resolve_tidas_process_allocations (\<lambda>_. ''0'') [unit_exchange] ''0'' = Ok \<lparr>pa_exchanges = [Undeclared], allocation_target_indices = []\<rparr>"
  by code_simp

lemma unit_coefficient: "signed_coefficient Output (Fin 1) = Ok (Fin 1)"
  by (simp add: signed_coefficient_def ensure_def f_mul_def)

lemma unit_pivot: "normalize_reference_coefficient (Fin 1) = Ok \<lparr>raw_coefficient = Fin 1, scale = Fin 1, pivot_coefficient = Fin 1\<rparr>"
  by (simp add: normalize_reference_coefficient_def Let_def ensure_def f_recip_def f_div_def f_eq_def f_lt_def)

lemma unit_deviation: "f_abs (f_sub (Fin 1) (Fin 1)) = Fin 0" by (simp add: f_sub_def f_add_def)

lemma tolerance_not_exceeded: "\<not> f_gt (Fin 0) signed_flow_closure_tolerance"
proof -
  obtain t where t: "signed_flow_closure_tolerance = Fin t" "0 < t" using tolerance_pos by blast
  show ?thesis unfolding t(1) using t(2) by (simp add: f_lt_def)
qed

lemma unit_attributed: "attributed_amount (Some (Fin 1)) (Fin 1) (Fin 1) = Some (Fin 1)" by (simp add: attributed_amount_def f_mul_def)

lemma unit_norm: "resolve_reference_normalization (row_json unit_process) [unit_exchange] =
    Ok (\<lparr>raw_coefficient = Fin 1, scale = Fin 1, pivot_coefficient = Fin 1\<rparr>,
        \<lparr>missing_reference = 0, invalid_reference = 0, normalized_processes = 1\<rparr>)"
  by (simp add: resolve_reference_normalization_def Let_def unit_refs ensure_def unit_iid unit_direction unit_amount unit_coefficient unit_pivot ok_or_def map_err_def del: Option.bind_assoc)

lemma unit_step: "\<exists>px flows as. parse_exchange_step (\<lambda>_. Some 7) (\<lambda>_. ''1'') unit_process 0 ''0'' \<lparr>raw_coefficient = Fin 1, scale = Fin 1, pivot_coefficient = Fin 1\<rparr>
   \<lparr>pa_exchanges = [Undeclared], allocation_target_indices = []\<rparr> ([], st) (0, unit_exchange) = Ok ([px], flows, as)"
  by (simp add: parse_exchange_step_def Let_def unit_label unit_flow unit_amount unit_iid unit_coefficient map_err_def check_pivot_def unit_attributed unit_deviation tolerance_not_exceeded ensure_def
    is_reference_internal_exchange_def del: Option.bind_assoc)

lemma unit_chunk: "\<exists>px flows rs as. parse_process_chunk (\<lambda>_. Some 7) (\<lambda>_. ''1'') (\<lambda>_. ''0'') unit_process 0 =
   Ok (process_meta_of_row unit_process 0, [px], flows, rs, as)"
proof -
  let ?zero = "\<lparr>exchange_total = 0, fraction_present_count = 0, fraction_missing_count = 0,
                fraction_invalid_count = 0, legacy_empty_count = 0, legacy_inferred_count = 0\<rparr>"
  obtain px flows as where "parse_exchange_step (\<lambda>_. Some 7) (\<lambda>_. ''1'') unit_process 0 ''0''
      \<lparr>raw_coefficient = Fin 1, scale = Fin 1, pivot_coefficient = Fin 1\<rparr>
      \<lparr>pa_exchanges = [Undeclared], allocation_target_indices = []\<rparr> ([], [], ?zero) (0, unit_exchange) = Ok ([px], flows, as)"
    using unit_step by fast
  then show ?thesis
    by (simp add: parse_process_chunk_def unit_items Let_def unit_norm parse_reference_internal_id_def unit_refs unit_allocation ok_or_def map_err_def)
qed

subsection \<open>Properties\<close>

lemma parsed_process_facts:
  assumes "parse_process_chunk parse_uuid show_uuid show_number row idx = Ok (meta, exchanges, flows, reference_stats, allocation_stats)"
  shows "meta = process_meta_of_row row idx \<and>
    (\<forall>px \<in> set exchanges. exchange_ok idx px \<and> px_flow_id px \<in> set flows) \<and>
    length (filter px_is_reference_exchange exchanges) \<le> 1 \<and> normalized_processes reference_stats = 1 \<and>
    exchange_total allocation_stats = int (length exchanges) \<and> fraction_invalid_count allocation_stats = 0 \<and>
    fraction_present_count allocation_stats + fraction_missing_count allocation_stats = exchange_total allocation_stats"
proof -
  let ?es = "process_exchange_items (row_json row)"
  let ?zero = "\<lparr>exchange_total = 0, fraction_present_count = 0, fraction_missing_count = 0,
                fraction_invalid_count = 0, legacy_empty_count = 0, legacy_inferred_count = 0\<rparr>"
  from assms obtain pivot reference allocation st where
      norm: "resolve_reference_normalization (row_json row) ?es = Ok (pivot, reference_stats)"
      and ref: "parse_reference_internal_id (row_json row) = Some reference"
      and alloc: "resolve_tidas_process_allocations show_number ?es reference = Ok allocation"
      and loop: "fold_result (parse_exchange_step parse_uuid show_uuid row idx reference pivot allocation) ([], [], ?zero)
                   (List.enumerate 0 ?es) = Ok st"
      and out: "meta = process_meta_of_row row idx" "exchanges = fst st" "flows = fst (snd st)" "allocation_stats = snd (snd st)"
    unfolding parse_process_chunk_def Let_def and_then_Ok_iff split_paired_Ex prod.case ok_or_Ok_iff map_err_Ok_iff
    by (auto simp: and_then_Ok_iff)
  note facts = process_allocation_facts [OF alloc]
  have share: "\<forall>e \<in> set (List.enumerate 0 ?es). unit_share (resolution_share (pa_exchanges allocation ! fst e))"
    using facts by (auto simp: in_set_enumerate_eq)
  have "chunk_ok idx st"
    using loop by (rule fold_result_invariant) (use chunk_step_ok share in \<open>auto simp: chunk_ok_def\<close>)
  moreover have "length (filter px_is_reference_exchange (fst st)) \<le> 1"
    using reference_count [OF share loop] reference_normalization_Ok(1) [OF norm ref]
    by (simp add: enumerate_snd_filter [of "\<lambda>ex. parse_exchange_internal_id ex = Some reference" 0])
  ultimately show ?thesis
    using reference_normalization_Ok(3) [OF norm ref] out by (simp add: chunk_ok_def)
qed

text \<open>
  C10. A process that parses has its exchanges under its own index, with shares between zero and
  one, finite amounts and no invalid allocation; at most one of them is the quantitative
  reference. The reference and every exchange allocated entirely to co-products have no residual,
  so the linker never balances them. The flows listed are those of the exchanges and the
  allocation counters add up.
\<close>

theorem parsed_process_sound:
  assumes "parse_process_chunk parse_uuid show_uuid show_number row idx = Ok (meta, exchanges, flows, reference_stats, allocation_stats)"
  shows "meta = process_meta_of_row row idx \<and>
    (\<forall>px \<in> set exchanges. exchange_ok idx px \<and> px_flow_id px \<in> set flows) \<and>
    length (filter px_is_reference_exchange exchanges) \<le> 1 \<and> normalized_processes reference_stats = 1 \<and>
    exchange_total allocation_stats = int (length exchanges) \<and> fraction_invalid_count allocation_stats = 0 \<and>
    fraction_present_count allocation_stats + fraction_missing_count allocation_stats = exchange_total allocation_stats"
  using assms by (rule parsed_process_facts)

theorem parsed_process_sound_witness:
  "\<exists>px flows reference_stats allocation_stats.
     parse_process_chunk (\<lambda>_. Some 7) (\<lambda>_. ''1'') (\<lambda>_. ''0'') unit_process 0 =
       Ok (process_meta_of_row unit_process 0, [px], flows, reference_stats, allocation_stats) \<and>
     exchange_ok 0 px \<and> px_flow_id px \<in> set flows \<and> exchange_total allocation_stats = 1"
proof -
  obtain px flows rs as where "parse_process_chunk (\<lambda>_. Some 7) (\<lambda>_. ''1'') (\<lambda>_. ''0'') unit_process 0 =
      Ok (process_meta_of_row unit_process 0, [px], flows, rs, as)"
    using unit_chunk by blast
  with parsed_process_sound [OF this] show ?thesis by auto
qed

text \<open>
  The check of quantitative references succeeds exactly when every process has exactly one
  reference exchange, whose flow is known, which has a direction and an amount, and whose signed
  coefficient has magnitude one within the tolerance.
\<close>

theorem quantitative_references_decided:
  "validate_quantitative_references exchanges processes flow_space = Ok () \<longleftrightarrow>
     list_all (\<lambda>p. \<exists>ex d a c. reference_exchanges_of exchanges p = [ex] \<and> flow_space (flow_link_identity_of ex) \<noteq> None \<and>
        px_direction ex = Some d \<and> px_amount ex = Some a \<and>
        signed_coefficient (signed_flow_direction_of d) a = Ok c \<and>
        \<not> f_gt (f_abs (f_sub (f_abs c) (Fin 1))) signed_flow_closure_tolerance) processes"
proof -
  have one: "validate_process_reference exchanges flow_space p = Ok () \<longleftrightarrow>
      (\<exists>ex d a c. reference_exchanges_of exchanges p = [ex] \<and> flow_space (flow_link_identity_of ex) \<noteq> None \<and>
        px_direction ex = Some d \<and> px_amount ex = Some a \<and>
        signed_coefficient (signed_flow_direction_of d) a = Ok c \<and>
        \<not> f_gt (f_abs (f_sub (f_abs c) (Fin 1))) signed_flow_closure_tolerance)" for p
  proof (cases "\<exists>ex. reference_exchanges_of exchanges p = [ex]")
    case True
    then obtain ex where ex: "reference_exchanges_of exchanges p = [ex]" by blast
    show ?thesis
      by (cases "px_amount ex") (auto simp: validate_process_reference_def ex Let_def and_then_Ok_iff)
  next
    case False
    then have "length (reference_exchanges_of exchanges p) \<noteq> 1" by (auto simp: length_Suc_conv)
    with False show ?thesis by (auto simp: validate_process_reference_def Let_def and_then_Ok_iff)
  qed
  have unit: "(\<exists>u. r = Ok u \<and> Q) \<longleftrightarrow> r = Ok () \<and> Q" for r :: "(process_error, unit) result" and Q by auto
  show ?thesis
    unfolding validate_quantitative_references_def one [symmetric]
    by (induction processes) (simp_all add: and_then_Ok_iff unit)
qed

end
