(* ===== verification/Balance_Compilation.thy ===== *)
theory Balance_Compilation
  imports Provider_Linking
begin

text \<open>
  Correctness of the provider rules and of \<open>compile_signed_flow_balances\<close> (definitions in
  \<open>Provider_Linking\<close>): what a rule may allocate, what one pass of the loop adds to the batch,
  and the invariants of the whole loop.
\<close>

subsection \<open>Provider rules\<close>

text \<open>The candidates a rule considers: those of the consumer's model where there are any.\<close>

definition meta_of :: "process_meta list \<Rightarrow> i32 \<Rightarrow> process_meta" where
  "meta_of metas p = the (process_meta_for_idx metas p)"

definition preferred_providers :: "process_meta list \<Rightarrow> i32 \<Rightarrow> i32 list \<Rightarrow> i32 list" where
  "preferred_providers metas c ps =
     (case pm_model_id (meta_of metas c) of
        None \<Rightarrow> ps
      | Some model \<Rightarrow>
          let same_model = filter (\<lambda>p. pm_model_id (meta_of metas p) = Some model) ps
          in if same_model = [] then ps else same_model)"

lemma preferred_providers_subset: "set (preferred_providers metas c ps) \<subseteq> set ps"
  by (auto simp: preferred_providers_def Let_def split: option.splits)

lemma preferred_providers_nonempty: "ps \<noteq> [] \<Longrightarrow> preferred_providers metas c ps \<noteq> []"
  by (auto simp: preferred_providers_def Let_def split: option.splits)

text \<open>A traversal that reads the metadata of every provider.\<close>

lemma traverse_meta:
  assumes "traverse (\<lambda>p. and_then (ok_or (process_meta_for_idx metas p) (err p)) (\<lambda>m. Ok (f p m))) ps = Ok ys"
  shows "ys = map (\<lambda>p. f p (meta_of metas p)) ps"
  using assms unfolding traverse_Ok_iff
  by (induction ps ys rule: list_all2_induct) (auto simp: and_then_Ok_iff meta_of_def)

lemma same_model_preferred_Ok:
  assumes "same_model_preferred_provider_indices c ps metas = Ok qs"
  shows "qs = preferred_providers metas c ps"
proof -
  obtain m where meta: "process_meta_for_idx metas c = Some m"
    using assms by (auto simp: same_model_preferred_provider_indices_def and_then_Ok_iff)
  then have m: "meta_of metas c = m" by (simp add: meta_of_def)
  show ?thesis
  proof (cases "pm_model_id m")
    case None
    with assms meta m show ?thesis by (simp add: same_model_preferred_provider_indices_def preferred_providers_def)
  next
    case (Some model)
    with assms meta obtain fs where fs: "traverse (\<lambda>p. and_then (ok_or (process_meta_for_idx metas p) (MissingProviderMeta p))
        (\<lambda>provider. Ok (p, pm_model_id provider = Some model))) ps = Ok fs"
      and qs: "qs = (if map fst (filter snd fs) = [] then ps else map fst (filter snd fs))"
      by (auto simp: same_model_preferred_provider_indices_def and_then_Ok_iff Let_def)
    have "map fst (filter snd fs) = filter (\<lambda>p. pm_model_id (meta_of metas p) = Some model) ps"
      unfolding traverse_meta [OF fs] by (simp add: filter_map comp_def)
    with qs Some m show ?thesis by (simp add: preferred_providers_def Let_def)
  qed
qed

definition final_score :: "string option \<Rightarrow> i32 option \<Rightarrow> process_meta \<Rightarrow> f64" where
  "final_score region year provider =
     f_add (f_mul auto_link_geo_weight (geo_score region (pm_location provider)))
       (f_mul auto_link_time_weight (time_score year (pm_reference_year provider)))"

definition score_of :: "string option \<Rightarrow> i32 option \<Rightarrow> i32 \<Rightarrow> process_meta \<Rightarrow> provider_candidate_score" where
  "score_of region year p provider =
     \<lparr>cs_provider_idx = p, cs_provider_id = pm_process_id provider,
      cs_geo_score = geo_score region (pm_location provider),
      cs_time_score = time_score year (pm_reference_year provider),
      cs_final_score = final_score region year provider\<rparr>"

definition region_of :: "process_meta list \<Rightarrow> parsed_exchange \<Rightarrow> string option" where
  "region_of metas ex =
     anchor_location (resolve_supply_region_anchor (px_location ex) (pm_location (meta_of metas (px_process_idx ex))))"

lemma score_candidate_eq:
  "score_candidate anchor consumer metas =
     (\<lambda>p. and_then (ok_or (process_meta_for_idx metas p) (MissingProviderMeta p))
       (\<lambda>m. Ok (score_of (anchor_location anchor) (pm_reference_year consumer) p m)))"
  by (rule ext) (simp add: score_candidate_def score_of_def final_score_def Let_def)

text \<open>The scores of an exchange's candidates, best first.\<close>

definition ranked_scores :: "process_meta list \<Rightarrow> parsed_exchange \<Rightarrow> i32 list \<Rightarrow> provider_candidate_score list" where
  "ranked_scores metas ex ps =
     filter (\<lambda>c. f_ge (cs_final_score c) auto_link_min_score) (sort_by score_le
       (map (\<lambda>p. score_of (region_of metas ex) (pm_reference_year (meta_of metas (px_process_idx ex))) p (meta_of metas p))
          (preferred_providers metas (px_process_idx ex) ps)))"

lemma scored_candidates_Ok:
  assumes "scored_candidates ex ps metas auto_link_min_score = Ok scored"
  shows "scored = ranked_scores metas ex ps"
proof -
  obtain consumer qs ss where
      c: "process_meta_for_idx metas (px_process_idx ex) = Some consumer"
      and qs: "same_model_preferred_provider_indices (px_process_idx ex) ps metas = Ok qs"
      and ss: "traverse (score_candidate (resolve_supply_region_anchor (px_location ex) (pm_location consumer))
         consumer metas) qs = Ok ss"
      and s: "scored = filter (\<lambda>c. f_ge (cs_final_score c) auto_link_min_score) (sort_by score_le ss)"
    using assms unfolding scored_candidates_def score_provider_candidates_def and_then_Ok_iff ok_or_Ok_iff
    by fast
  have "meta_of metas (px_process_idx ex) = consumer" using c by (simp add: meta_of_def)
  then show ?thesis
    unfolding s traverse_meta [OF ss [unfolded score_candidate_eq]] same_model_preferred_Ok [OF qs]
    by (simp add: ranked_scores_def region_of_def)
qed

lemma ranked_scores_mem:
  assumes "c \<in> set (ranked_scores metas ex ps)"
  shows "cs_provider_idx c \<in> set ps" and "f_ge (cs_final_score c) auto_link_min_score"
    and "\<exists>region year m. cs_final_score c = final_score region year m"
proof -
  from assms obtain p where p: "p \<in> set (preferred_providers metas (px_process_idx ex) ps)" and
    c: "c = score_of (region_of metas ex) (pm_reference_year (meta_of metas (px_process_idx ex))) p (meta_of metas p)"
    and ge: "f_ge (cs_final_score c) auto_link_min_score"
    unfolding ranked_scores_def set_filter set_sort_by set_map by blast
  show "cs_provider_idx c \<in> set ps" using p preferred_providers_subset by (fastforce simp: c score_of_def)
  show "f_ge (cs_final_score c) auto_link_min_score" by (rule ge)
  show "\<exists>region year m. cs_final_score c = final_score region year m"
    unfolding c score_of_def provider_candidate_score.simps by blast
qed

lemma with_tier_eq:
  "with_tier region metas = (\<lambda>p. and_then (ok_or (process_meta_for_idx metas p) (MissingProviderMeta p))
     (\<lambda>m. Ok (p, provider_geography_tier region (pm_location m))))"
  by (rule ext) (simp add: with_tier_def)

lemma with_raw_weight_eq:
  "with_raw_weight metas = (\<lambda>p. and_then (ok_or (process_meta_for_idx metas p) (MissingProviderMeta p))
     (\<lambda>m. Ok (p, provider_volume_raw_weight m)))"
  by (rule ext) (simp add: with_raw_weight_def)

interpretation tier_order: total_preorder "\<lambda>s t. provider_geography_tier_rank s \<le> provider_geography_tier_rank t"
  by unfold_locales auto

text \<open>The providers of the nearest tier that has any, and their shares of the volume.\<close>

definition tier_of :: "process_meta list \<Rightarrow> parsed_exchange \<Rightarrow> i32 \<Rightarrow> geography_tier" where
  "tier_of metas ex p = provider_geography_tier (region_of metas ex) (pm_location (meta_of metas p))"

definition nearest_providers :: "process_meta list \<Rightarrow> parsed_exchange \<Rightarrow> i32 list \<Rightarrow> i32 list" where
  "nearest_providers metas ex ps =
     filter (\<lambda>p. \<forall>q \<in> set ps. provider_geography_tier_rank (tier_of metas ex p)
                              \<le> provider_geography_tier_rank (tier_of metas ex q)) ps"

definition volume_of :: "process_meta list \<Rightarrow> i32 \<Rightarrow> f64" where
  "volume_of metas p = fst (provider_volume_raw_weight (meta_of metas p))"

lemma tier_rank_inj: "provider_geography_tier_rank s = provider_geography_tier_rank t \<Longrightarrow> s = t"
  by (cases s; cases t) simp_all

lemma nearest_filter:
  assumes "min_by (\<lambda>s t. provider_geography_tier_rank s \<le> provider_geography_tier_rank t) (map g ps) = Some t"
  shows "filter (\<lambda>p. g p = t) ps =
    filter (\<lambda>p. \<forall>q \<in> set ps. provider_geography_tier_rank (g p) \<le> provider_geography_tier_rank (g q)) ps"
proof (rule filter_cong [OF refl])
  fix p assume p: "p \<in> set ps"
  obtain q where q: "q \<in> set ps" "g q = t" using min_by_mem [OF assms] by auto
  have least: "provider_geography_tier_rank t \<le> provider_geography_tier_rank (g r)" if "r \<in> set ps" for r
    using tier_order.min_by_least [OF assms] that by simp
  show "g p = t \<longleftrightarrow> (\<forall>q \<in> set ps. provider_geography_tier_rank (g p) \<le> provider_geography_tier_rank (g q))"
    using least q p tier_rank_inj [of "g p" t] by (metis order_antisym)
qed

lemma split_by_process_volume_Ok:
  assumes "split_by_process_volume ex ps metas = Ok r"
  defines "qs \<equiv> nearest_providers metas ex (preferred_providers metas (px_process_idx ex) ps)"
  defines "w \<equiv> f_sum (map (volume_of metas) qs)"
  shows "mp_allocations r = map (\<lambda>p. (p, f_div (volume_of metas p) w)) qs"
    and "qs \<noteq> []" and "is_finite w" and "\<not> f_le w f64_epsilon"
    and "mp_resolution_strategy r = StrategySplitByProcessVolume" and "\<not> mp_used_equal_fallback r"
proof -
  let ?le = "\<lambda>s t. provider_geography_tier_rank s \<le> provider_geography_tier_rank t"
  obtain anchor pref tiered tier raw fallbacks where
      anchor: "supply_region_anchor_for_exchange ex metas = Ok anchor"
      and pref: "same_model_preferred_provider_indices (px_process_idx ex) ps metas = Ok pref"
      and tiered: "traverse (with_tier (anchor_location anchor) metas) pref = Ok tiered"
      and tier: "min_by ?le (map snd tiered) = Some tier"
      and raw: "traverse (with_raw_weight metas) (map fst (filter (\<lambda>e. snd e = tier) tiered)) = Ok raw"
      and sum_ok: "\<not> (f_le (f_sum (map (\<lambda>e. fst (snd e)) raw)) f64_epsilon \<or>
                     \<not> is_finite (f_sum (map (\<lambda>e. fst (snd e)) raw)))"
      and res: "Ok \<lparr>mp_allocations = map (\<lambda>e. (fst e, f_div (fst (snd e)) (f_sum (map (\<lambda>e. fst (snd e)) raw)))) raw,
         mp_resolution_strategy = StrategySplitByProcessVolume, mp_used_equal_fallback = False,
         mp_volume_fallback_to_one_count = fallbacks, mp_geography_tier = Some tier\<rparr> = Ok r"
    using assms(1) unfolding split_by_process_volume_def and_then_Ok_iff ok_or_Ok_iff Let_def ensure_Ok_iff
    by fast
  have r: "mp_allocations r = map (\<lambda>e. (fst e, f_div (fst (snd e)) (f_sum (map (\<lambda>e. fst (snd e)) raw)))) raw"
    "mp_resolution_strategy r = StrategySplitByProcessVolume" "\<not> mp_used_equal_fallback r"
    using res by auto
  have region: "anchor_location anchor = region_of metas ex"
    using anchor by (auto simp: supply_region_anchor_for_exchange_def and_then_Ok_iff region_of_def meta_of_def)
  have tiered': "tiered = map (\<lambda>p. (p, tier_of metas ex p)) pref"
    unfolding traverse_meta [OF tiered [unfolded with_tier_eq]] tier_of_def region ..
  have snds: "map snd tiered = map (tier_of metas ex) pref" by (simp add: tiered')
  have chosen: "map fst (filter (\<lambda>e. snd e = tier) tiered) = qs"
    unfolding qs_def nearest_providers_def same_model_preferred_Ok [OF pref, symmetric]
      nearest_filter [OF tier [unfolded snds], symmetric] tiered'
    by (simp add: filter_map comp_def)
  have raw': "raw = map (\<lambda>p. (p, provider_volume_raw_weight (meta_of metas p))) qs"
    using traverse_meta [OF raw [unfolded with_raw_weight_eq]] by (simp only: chosen)
  have w: "f_sum (map (\<lambda>e. fst (snd e)) raw) = w"
    by (simp add: raw' w_def volume_of_def [abs_def] comp_def)
  obtain e where "e \<in> set tiered" "snd e = tier" using min_by_mem [OF tier] by auto
  then have "filter (\<lambda>e. snd e = tier) tiered \<noteq> []" by (auto simp: filter_empty_conv)
  with chosen show "qs \<noteq> []" by auto
  show "mp_allocations r = map (\<lambda>p. (p, f_div (volume_of metas p) w)) qs"
    unfolding r(1) w by (simp add: raw' volume_of_def)
  show "is_finite w" "\<not> f_le w f64_epsilon" using sum_ok w by simp_all
  show "mp_resolution_strategy r = StrategySplitByProcessVolume" "\<not> mp_used_equal_fallback r" by (rule r)+
qed

text \<open>Every score is a finite number.\<close>

definition geo_levels :: "f64 list" where
  "geo_levels = [Fin 1, round64 (85 / 100), round64 (6 / 10), round64 (4 / 10), round64 (1 / 10)]"

definition time_levels :: "f64 list" where
  "time_levels = [Fin 1, round64 (85 / 100), round64 (65 / 100), round64 (4 / 10), round64 (2 / 10), round64 (5 / 10)]"

lemma geo_score_level: "geo_score l r \<in> set geo_levels"
proof -
  have "(if a then x else if b then y else if c then z else if d then u else v) \<in> {x, y, z, u, v}"
    for a b c d and x y z u v :: f64 by simp
  then show ?thesis unfolding geo_score_def geo_levels_def Let_def list.set .
qed

lemma time_score_level: "time_score l r \<in> set time_levels"
proof -
  have "(if a then x else if b then y else if c then z else if d then u else v) \<in> {x, y, z, u, v, w}"
    for a b c d and x y z u v w :: f64 by simp
  moreover have "w \<in> {x, y, z, u, v, w}" for x y z u v w :: f64 by blast
  ultimately show ?thesis
    unfolding time_score_def time_levels_def Let_def list.set
    by (cases l; cases r) (simp_all only: option.case prod.case)
qed

definition in_unit :: "f64 \<Rightarrow> bool" where
  "in_unit x \<longleftrightarrow> (\<exists>r. x = Fin r \<and> 0 \<le> r \<and> r \<le> 1)"

lemma in_unit_round64: "0 < q \<Longrightarrow> q \<le> 1 \<Longrightarrow> in_unit (round64 q)"
  unfolding in_unit_def by (rule round64_unit_interval)

lemma in_unit_1: "in_unit (Fin 1)"
  by (simp add: in_unit_def)

lemma levels_in_unit: "\<forall>x \<in> set geo_levels. in_unit x" "\<forall>x \<in> set time_levels. in_unit x"
proof -
  have "in_unit (round64 (85 / 100))" "in_unit (round64 (65 / 100))" "in_unit (round64 (6 / 10))"
    "in_unit (round64 (4 / 10))" "in_unit (round64 (1 / 10))" "in_unit (round64 (2 / 10))" "in_unit (round64 (5 / 10))"
    by (rule in_unit_round64; simp)+
  then show "\<forall>x \<in> set geo_levels. in_unit x" "\<forall>x \<in> set time_levels. in_unit x"
    unfolding geo_levels_def time_levels_def list.set using in_unit_1 by blast+
qed

lemma in_unit_mul: "in_unit x \<Longrightarrow> in_unit y \<Longrightarrow> in_unit (f_mul x y)"
proof -
  assume "in_unit x" "in_unit y"
  then obtain p q where pq: "x = Fin p" "0 \<le> p" "p \<le> 1" "y = Fin q" "0 \<le> q" "q \<le> 1"
    by (auto simp: in_unit_def)
  show ?thesis
  proof (cases "p = 0 \<or> q = 0")
    case True
    with pq show ?thesis by (auto simp: f_mul_def zero_of_def in_unit_def)
  next
    case False
    with pq have "f_mul x y = round64 (p * q)" by (simp add: f_mul_def)
    with pq False show ?thesis by (simp add: in_unit_round64 mult_le_one)
  qed
qed

lemma final_score_finite: "is_finite (final_score region year m)"
proof -
  have "in_unit auto_link_geo_weight" "in_unit auto_link_time_weight"
    unfolding auto_link_geo_weight_def auto_link_time_weight_def by (rule in_unit_round64; simp)+
  then obtain p q where pq: "f_mul auto_link_geo_weight (geo_score region (pm_location m)) = Fin p" "0 \<le> p" "p \<le> 1"
    "f_mul auto_link_time_weight (time_score year (pm_reference_year m)) = Fin q" "0 \<le> q" "q \<le> 1"
    using in_unit_mul levels_in_unit geo_score_level time_score_level unfolding in_unit_def by metis
  show ?thesis
  proof (cases "p + q = 0")
    case True
    with pq show ?thesis by (simp add: final_score_def f_add_def)
  next
    case False
    with pq have "f_add (Fin p) (Fin q) = round64 (p + q)" by (auto simp: f_add_def)
    with round64_interval [of "p + q" 2] pq False show ?thesis by (auto simp: final_score_def)
  qed
qed

lemma share_nonneg: "ps \<noteq> [] \<Longrightarrow> f_ge (f_div (Fin 1) (f64_of_usize (length ps))) (Fin 0)"
proof -
  assume "ps \<noteq> []"
  then have "f_gt (f64_of_usize (length ps)) (Fin 0)"
    unfolding f64_of_usize_def by (intro round64_ge_one_pos) (simp add: Suc_le_eq)
  then show ?thesis by (rule f_div_nonneg [rotated 2]) (simp_all add: f_le_def f_lt_def)
qed

lemma epsilon_pos: "\<not> f_le x f64_epsilon \<Longrightarrow> \<not> is_nan x \<Longrightarrow> f_gt x (Fin 0)"
  by (cases x) (auto simp: f64_epsilon_def f_le_def f_lt_def f_eq_def)

lemma volume_pos: "is_finite (volume_of metas p) \<and> f_gt (volume_of metas p) (Fin 0)"
  by (auto simp: volume_of_def provider_volume_raw_weight_def f_lt_def split: option.splits)

lemma min_score_nonneg: "f_ge x auto_link_min_score \<Longrightarrow> f_ge x (Fin 0)"
proof -
  assume x: "f_ge x auto_link_min_score"
  have "in_unit auto_link_min_score" unfolding auto_link_min_score_def by (rule in_unit_round64; simp)
  then obtain r where r: "auto_link_min_score = Fin r" "0 \<le> r" unfolding in_unit_def by blast
  show ?thesis using x unfolding r(1) using r(2) by (cases x) (auto simp: f_le_def f_lt_def f_eq_def)
qed

text \<open>What each rule allocates once it resolves.\<close>

definition equal_shares :: "i32 list \<Rightarrow> (i32 \<times> f64) list" where
  "equal_shares ps = map (\<lambda>p. (p, f_div (Fin 1) (f64_of_usize (length ps)))) ps"

definition volume_shares :: "process_meta list \<Rightarrow> parsed_exchange \<Rightarrow> i32 list \<Rightarrow> (i32 \<times> f64) list" where
  "volume_shares metas ex ps =
     (let qs = nearest_providers metas ex (preferred_providers metas (px_process_idx ex) ps)
      in map (\<lambda>p. (p, f_div (volume_of metas p) (f_sum (map (volume_of metas) qs)))) qs)"

definition evidence_shares :: "provider_candidate_score list \<Rightarrow> (i32 \<times> f64) list" where
  "evidence_shares cs = map (\<lambda>c. (cs_provider_idx c, f_div (cs_final_score c) (f_sum (map cs_final_score cs)))) cs"

fun rule_allocations :: "provider_rule \<Rightarrow> process_meta list \<Rightarrow> parsed_exchange \<Rightarrow> i32 list \<Rightarrow> (i32 \<times> f64) list" where
  "rule_allocations StrictUniqueProvider metas ex ps = []"
| "rule_allocations SplitEqual metas ex ps = equal_shares ps"
| "rule_allocations SplitByProcessVolume metas ex ps = volume_shares metas ex ps"
| "rule_allocations BestProviderStrict metas ex ps = [(cs_provider_idx (hd (ranked_scores metas ex ps)), Fin 1)]"
| "rule_allocations SplitByEvidenceStrict metas ex ps = evidence_shares (ranked_scores metas ex ps)"
| "rule_allocations SplitByEvidenceHybrid metas ex ps =
     (let cs = ranked_scores metas ex ps
      in if cs = [] \<or> f_le (f_sum (map cs_final_score cs)) f64_epsilon then equal_shares ps
         else evidence_shares cs)"

lemma split_equal_allocations:
  "mp_allocations (split_equal ps) = equal_shares ps" "mp_allocations (split_equal_fallback ps) = equal_shares ps"
  by (simp_all add: split_equal_fallback_def split_equal_def equal_shares_def Let_def)

lemma split_by_evidence_allocations:
  "mp_allocations (split_by_evidence cs (f_sum (map cs_final_score cs))) = evidence_shares cs"
  by (simp add: split_by_evidence_def evidence_shares_def)

lemma best_provider_Resolved:
  "best_provider_strict cs = Resolved r \<Longrightarrow> cs \<noteq> [] \<and> mp_allocations r = [(cs_provider_idx (hd cs), Fin 1)]"
  by (cases cs) (auto simp: best_provider_strict_def split: if_splits)

lemma resolve_multi_allocations:
  assumes "resolve_multi_provider rule ex ps metas = Ok (Resolved r)"
  shows "mp_allocations r = rule_allocations rule metas ex ps" and "ps \<noteq> []"
    and "rule = BestProviderStrict \<or> rule = SplitByEvidenceStrict \<Longrightarrow> ranked_scores metas ex ps \<noteq> []"
    and "rule = SplitByEvidenceStrict \<Longrightarrow> \<not> f_le (f_sum (map cs_final_score (ranked_scores metas ex ps))) f64_epsilon"
    and "rule = SplitByProcessVolume \<Longrightarrow> split_by_process_volume ex ps metas = Ok r"
    and "rule \<noteq> StrictUniqueProvider"
proof -
  show ps: "ps \<noteq> []" using assms by (auto simp: resolve_multi_provider_def)
  note res = assms [unfolded resolve_multi_provider_def if_not_P [OF ps]]
  have scored: "scored = ranked_scores metas ex ps"
    if "scored_candidates ex ps metas auto_link_min_score = Ok scored" for scored
    using scored_candidates_Ok that .
  have "mp_allocations r = rule_allocations rule metas ex ps \<and>
    (rule = BestProviderStrict \<or> rule = SplitByEvidenceStrict \<longrightarrow> ranked_scores metas ex ps \<noteq> []) \<and>
    (rule = SplitByEvidenceStrict \<longrightarrow> \<not> f_le (f_sum (map cs_final_score (ranked_scores metas ex ps))) f64_epsilon) \<and>
    (rule = SplitByProcessVolume \<longrightarrow> split_by_process_volume ex ps metas = Ok r) \<and> rule \<noteq> StrictUniqueProvider"
  proof (cases rule)
    case SplitByProcessVolume
    with res have "split_by_process_volume ex ps metas = Ok r" by (simp add: and_then_Ok_iff)
    with split_by_process_volume_Ok(1) [OF this] SplitByProcessVolume show ?thesis
      by (simp add: volume_shares_def Let_def)
  next
    case BestProviderStrict
    with res scored have "best_provider_strict (ranked_scores metas ex ps) = Resolved r"
      by (auto simp: and_then_Ok_iff)
    with best_provider_Resolved [OF this] BestProviderStrict show ?thesis by simp
  next
    case SplitByEvidenceStrict
    with res scored show ?thesis
      by (auto simp: and_then_Ok_iff Let_def split_by_evidence_allocations split: if_splits)
  next
    case SplitByEvidenceHybrid
    let ?cs = "ranked_scores metas ex ps"
    from SplitByEvidenceHybrid res obtain cs where
        cs: "scored_candidates ex ps metas auto_link_min_score = Ok cs"
      and r: "r = (if cs = [] \<or> f_le (f_sum (map cs_final_score cs)) f64_epsilon then split_equal_fallback ps
            else split_by_evidence cs (f_sum (map cs_final_score cs)))"
      by (auto simp: and_then_Ok_iff Let_def split: if_splits)
    show ?thesis
      using SplitByEvidenceHybrid
      by (simp add: r scored [OF cs] Let_def split_by_evidence_allocations split_equal_allocations)
  qed (use res in \<open>auto simp: split_equal_allocations\<close>)
  then show "mp_allocations r = rule_allocations rule metas ex ps"
    and "rule = BestProviderStrict \<or> rule = SplitByEvidenceStrict \<Longrightarrow> ranked_scores metas ex ps \<noteq> []"
    and "rule = SplitByEvidenceStrict \<Longrightarrow> \<not> f_le (f_sum (map cs_final_score (ranked_scores metas ex ps))) f64_epsilon"
    and "rule = SplitByProcessVolume \<Longrightarrow> split_by_process_volume ex ps metas = Ok r"
    and "rule \<noteq> StrictUniqueProvider" by blast+
qed

lemma f_sum_above_epsilon:
  "\<forall>x \<in> set xs. f_ge x (Fin 0) \<Longrightarrow> \<not> f_le (f_sum xs) f64_epsilon \<Longrightarrow> f_gt (f_sum xs) (Fin 0)"
  using f_sum_nonneg [of xs] by (intro epsilon_pos) (cases "f_sum xs"; auto)+

lemma evidence_shares_ok:
  assumes "\<not> f_le (f_sum (map cs_final_score (ranked_scores metas ex ps))) f64_epsilon"
  shows "fst ` set (evidence_shares (ranked_scores metas ex ps)) \<subseteq> set ps"
    and "\<forall>a \<in> set (evidence_shares (ranked_scores metas ex ps)). f_ge (snd a) (Fin 0)"
proof -
  let ?cs = "ranked_scores metas ex ps"
  have nonneg: "f_ge (cs_final_score c) (Fin 0)" if "c \<in> set ?cs" for c
    by (rule min_score_nonneg) (rule ranked_scores_mem(2) [OF that])
  have pos: "f_gt (f_sum (map cs_final_score ?cs)) (Fin 0)"
    by (rule f_sum_above_epsilon [OF _ assms]) (use nonneg in auto)
  show "fst ` set (evidence_shares ?cs) \<subseteq> set ps"
    using ranked_scores_mem(1) by (auto simp: evidence_shares_def)
  have "f_ge (f_div (cs_final_score c) (f_sum (map cs_final_score ?cs))) (Fin 0)" if c: "c \<in> set ?cs" for c
    using ranked_scores_mem(3) [OF c] final_score_finite nonneg [OF c] pos
    by (metis f_div_nonneg)
  then show "\<forall>a \<in> set (evidence_shares ?cs). f_ge (snd a) (Fin 0)" by (auto simp: evidence_shares_def)
qed

lemma equal_shares_ok:
  assumes "ps \<noteq> []"
  shows "fst ` set (equal_shares ps) = set ps" and "\<forall>a \<in> set (equal_shares ps). f_ge (snd a) (Fin 0)"
    and "equal_shares ps \<noteq> []"
  using share_nonneg [OF assms] assms by (auto simp: equal_shares_def image_image)

lemma volume_shares_ok:
  assumes "split_by_process_volume ex ps metas = Ok r"
  shows "fst ` set (volume_shares metas ex ps) \<subseteq> set ps"
    and "\<forall>a \<in> set (volume_shares metas ex ps). f_ge (snd a) (Fin 0)"
    and "volume_shares metas ex ps \<noteq> []"
proof -
  let ?qs = "nearest_providers metas ex (preferred_providers metas (px_process_idx ex) ps)"
  let ?w = "f_sum (map (volume_of metas) ?qs)"
  have "\<forall>x \<in> set (map (volume_of metas) ?qs). f_ge x (Fin 0)" using volume_pos f_gt_ge by auto
  then have "f_gt ?w (Fin 0)" by (rule f_sum_above_epsilon) (rule split_by_process_volume_Ok(4) [OF assms])
  then have "f_ge (f_div (volume_of metas p) ?w) (Fin 0)" for p
    using volume_pos f_gt_ge by (intro f_div_nonneg) blast+
  moreover have "set ?qs \<subseteq> set ps" using preferred_providers_subset by (fastforce simp: nearest_providers_def)
  ultimately show "fst ` set (volume_shares metas ex ps) \<subseteq> set ps"
      "\<forall>a \<in> set (volume_shares metas ex ps). f_ge (snd a) (Fin 0)" "volume_shares metas ex ps \<noteq> []"
    using split_by_process_volume_Ok(2) [OF assms] by (auto simp: volume_shares_def Let_def)
qed

lemma resolved_allocations_ok:
  assumes "resolve_multi_provider rule ex ps metas = Ok (Resolved r)"
  shows "mp_allocations r \<noteq> []" and "fst ` set (mp_allocations r) \<subseteq> set ps"
    and "\<forall>a \<in> set (mp_allocations r). f_ge (snd a) (Fin 0)"
proof -
  note facts = resolve_multi_allocations [OF assms]
  have "rule_allocations rule metas ex ps \<noteq> [] \<and> fst ` set (rule_allocations rule metas ex ps) \<subseteq> set ps \<and>
    (\<forall>a \<in> set (rule_allocations rule metas ex ps). f_ge (snd a) (Fin 0))"
  proof (cases rule)
    case StrictUniqueProvider
    with facts(6) show ?thesis by blast
  next
    case BestProviderStrict
    with facts(3) have ne: "ranked_scores metas ex ps \<noteq> []" by blast
    with ranked_scores_mem(1) [OF hd_in_set [OF ne]] BestProviderStrict show ?thesis
      by (simp add: f_le_def f_lt_def)
  next
    case SplitByProcessVolume
    with volume_shares_ok [OF facts(5)] show ?thesis by simp
  next
    case SplitByEvidenceStrict
    with facts(3,4) evidence_shares_ok [of metas ex ps] show ?thesis by (simp add: evidence_shares_def)
  next
    case SplitByEvidenceHybrid
    let ?cs = "ranked_scores metas ex ps"
    show ?thesis
    proof (cases "?cs = [] \<or> f_le (f_sum (map cs_final_score ?cs)) f64_epsilon")
      case True
      then show ?thesis using SplitByEvidenceHybrid equal_shares_ok [OF facts(2)] by simp
    next
      case False
      then have "evidence_shares ?cs \<noteq> []" by (simp add: evidence_shares_def)
      with False evidence_shares_ok [of metas ex ps] SplitByEvidenceHybrid show ?thesis by (simp add: Let_def)
    qed
  next
    case SplitEqual
    with equal_shares_ok [OF facts(2)] show ?thesis by simp
  qed
  then show "mp_allocations r \<noteq> []" "fst ` set (mp_allocations r) \<subseteq> set ps"
      "\<forall>a \<in> set (mp_allocations r). f_ge (snd a) (Fin 0)"
    unfolding facts(1) by blast+
qed

interpretation score_order: total_preorder score_le
  by unfold_locales (auto simp: score_le_def)

subsection \<open>One decision\<close>

text \<open>How a decision moves the counters, by its kind.\<close>

definition count_decision ::
    "provider_decision_kind \<Rightarrow> bool \<Rightarrow> compiled_matching_stats \<Rightarrow> compiled_matching_stats" where
  "count_decision kind equal_fallback stats =
     (case kind of
        UniqueProvider \<Rightarrow> stats\<lparr>matched_unique_provider := matched_unique_provider stats + 1\<rparr>
      | MultiResolved \<Rightarrow>
          stats\<lparr>matched_multi_provider := matched_multi_provider stats + 1,
                matched_multi_resolved := matched_multi_resolved stats + 1,
                matched_multi_fallback_equal := matched_multi_fallback_equal stats + (if equal_fallback then 1 else 0)\<rparr>
      | MultiUnresolved \<Rightarrow>
          stats\<lparr>matched_multi_provider := matched_multi_provider stats + 1,
                matched_multi_unresolved := matched_multi_unresolved stats + 1\<rparr>
      | NoProvider \<Rightarrow> stats\<lparr>unmatched_no_provider := unmatched_no_provider stats + 1\<rparr>)"

text \<open>What a decision may hold: allocations exactly when it is resolved, from the gate's providers.\<close>

definition decision_ok :: "provider_lineage_gate \<Rightarrow> link_decision \<Rightarrow> bool" where
  "decision_ok gate d \<longleftrightarrow>
     (lk_allocations d = [] \<longleftrightarrow> lk_kind d \<in> {MultiUnresolved, NoProvider}) \<and>
     (lk_failure d = None \<longleftrightarrow> lk_allocations d \<noteq> []) \<and>
     (lk_strategy d = None \<longleftrightarrow> lk_allocations d = []) \<and>
     cpl_provider_idx ` set (lk_allocations d) \<subseteq> set (gate_providers gate) \<and>
     (\<forall>a \<in> set (lk_allocations d). f_ge (cpl_weight a) (Fin 0))"

lemma decide_providers_Ok:
  assumes "decide_providers rule ex metas anchor ports gate stats = Ok (stats', d)"
  shows "stats' = count_decision (lk_kind d) (lk_equal_fallback d) stats" and "decision_ok gate d"
proof -
  consider (unresolved) "gate_unresolved gate" | (none) "\<not> gate_unresolved gate" "gate_providers gate = []"
    | (one) p where "\<not> gate_unresolved gate" "gate_providers gate = [p]"
    | (many) p q ps where "\<not> gate_unresolved gate" "gate_providers gate = p # q # ps"
    by (metis neq_Nil_conv)
  then have "stats' = count_decision (lk_kind d) (lk_equal_fallback d) stats \<and> decision_ok gate d"
  proof cases
    case unresolved
    with assms show ?thesis
      by (auto simp: decide_providers_def unresolved_decision_def count_decision_def decision_ok_def)
  next
    case none
    with assms show ?thesis
      by (auto simp: decide_providers_def unresolved_decision_def count_decision_def decision_ok_def)
  next
    case one
    with assms show ?thesis
      by (auto simp: decide_providers_def count_decision_def decision_ok_def and_then_Ok_iff f_le_def f_lt_def)
  next
    case many
    with assms obtain decision where res: "resolve_multi_provider rule ex (gate_providers gate) metas = Ok decision"
      by (auto simp: decide_providers_def Let_def and_then_Ok_iff)
    show ?thesis
    proof (cases decision)
      case (Unresolved reason)
      with assms many res show ?thesis
        by (auto simp: decide_providers_def Let_def unresolved_decision_def count_decision_def decision_ok_def)
    next
      case (Resolved r)
      note ok = resolved_allocations_ok [OF res [unfolded Resolved]]
      from assms many res Resolved obtain tier where
        "stats' = count_decision MultiResolved (mp_used_equal_fallback r) stats"
        "d = \<lparr>lk_kind = MultiResolved, lk_strategy = Some (mp_resolution_strategy r), lk_failure = None,
                    lk_equal_fallback = mp_used_equal_fallback r,
                    lk_volume_fallbacks = mp_volume_fallback_to_one_count r, lk_tier = tier,
                    lk_allocations = map (\<lambda>a. \<lparr>cpl_provider_idx = fst a, cpl_weight = snd a\<rparr>) (mp_allocations r)\<rparr>"
        by (auto simp: decide_providers_def Let_def and_then_Ok_iff count_decision_def)
      with ok show ?thesis by (auto simp: decision_ok_def)
    qed
  qed
  then show "stats' = count_decision (lk_kind d) (lk_equal_fallback d) stats" "decision_ok gate d" by blast+
qed

subsection \<open>One exchange\<close>

lemma resolve_weighted_balance_Ok:
  assumes "resolve_weighted_balance residual ports = Ok b" and "\<not> f_eq residual (Fin 0)"
  shows "contributions b = map (port_contribution residual) ports"
    and "\<forall>p \<in> set ports. port_ok residual p"
    and "f_le (f_abs (closure_residual b)) (f_mul signed_flow_closure_tolerance (f_max (f_abs residual) (Fin 1)))"
  using assms by (auto simp: resolve_weighted_balance_def and_then_Ok_iff contribution_loop_Ok Let_def)

definition edge_written :: "(reference_port_candidate \<times> weighted_reference_port) \<times> balance_contribution \<Rightarrow> bool" where
  "edge_written item \<longleftrightarrow> \<not> f_eq (activity_requirement (snd item)) (Fin 0)"

definition technosphere_edge_of ::
    "compiled_process list \<Rightarrow> parsed_exchange \<Rightarrow> compiled_process \<Rightarrow>
     (reference_port_candidate \<times> weighted_reference_port) \<times> balance_contribution \<Rightarrow> compiled_technosphere_edge" where
  "technosphere_edge_of processes ex dep item =
     (let port = fst (fst item); balancing = the (compiled_process_for_idx processes (rp_process_idx port))
      in \<lparr>cte_provider_idx = rp_process_idx port, cte_consumer_idx = px_process_idx ex,
          cte_flow_id = px_flow_id ex, cte_amount = activity_requirement (snd item),
          cte_provider_partition = cp_partition balancing, cte_consumer_partition = cp_partition dep,
          cte_partition = from_partitions (cp_partition balancing) (cp_partition dep)\<rparr>)"

definition resolution_of ::
    "parsed_exchange \<Rightarrow> f64 \<Rightarrow>
     (reference_port_candidate \<times> weighted_reference_port) \<times> balance_contribution \<Rightarrow> compiled_balance_resolution" where
  "resolution_of ex residual item =
     (let port = fst (fst item)
      in \<lparr>cbr_dependent_process_idx = px_process_idx ex,
          cbr_residual_exchange_internal_id = unwrap_or (px_internal_id ex) [],
          cbr_balancing_process_idx = rp_process_idx port,
          cbr_balancing_reference_exchange_internal_id = unwrap_or (rp_reference_exchange_internal_id port) [],
          cbr_flow_id = px_flow_id ex, cbr_flow_version = px_flow_version ex,
          cbr_residual_coefficient = residual, cbr_reference_coefficient = rp_coefficient port,
          cbr_routing_weight = wp_routing_weight (snd (fst item)),
          cbr_activity_requirement = activity_requirement (snd item)\<rparr>)"

definition release_edge_of :: "string option \<Rightarrow> compiled_balance_resolution \<Rightarrow> compiled_release_technosphere_edge" where
  "release_edge_of location r =
     \<lparr>cre_dependent_process_idx = cbr_dependent_process_idx r,
      cre_residual_exchange_internal_id = cbr_residual_exchange_internal_id r,
      cre_balancing_process_idx = cbr_balancing_process_idx r,
      cre_balancing_reference_exchange_internal_id = cbr_balancing_reference_exchange_internal_id r,
      cre_residual_coefficient = cbr_residual_coefficient r, cre_reference_coefficient = cbr_reference_coefficient r,
      cre_routing_weight = cbr_routing_weight r, cre_activity_requirement = cbr_activity_requirement r,
      cre_flow_id = cbr_flow_id r, cre_flow_version = cbr_flow_version r, cre_location = location\<rparr>"

lemma write_edge_Ok:
  "write_edge processes ex residual dep batch item = Ok batch' \<longleftrightarrow>
     (if edge_written item
      then compiled_process_for_idx processes (rp_process_idx (fst (fst item))) \<noteq> None \<and>
        batch' = batch\<lparr>
          bb_technosphere_edges := bb_technosphere_edges batch @ [technosphere_edge_of processes ex dep item],
          bb_release_edges := bb_release_edges batch @ [release_edge_of (px_location ex) (resolution_of ex residual item)],
          bb_resolutions := bb_resolutions batch @ [resolution_of ex residual item]\<rparr>
      else batch' = batch)"
  by (auto simp: write_edge_def edge_written_def Let_def and_then_Ok_iff technosphere_edge_of_def
      resolution_of_def release_edge_of_def)

lemma write_edges_Ok:
  assumes "fold_result (write_edge processes ex residual dep) batch items = Ok batch'"
  shows "batch' = batch\<lparr>
      bb_technosphere_edges := bb_technosphere_edges batch @ map (technosphere_edge_of processes ex dep) (filter edge_written items),
      bb_release_edges := bb_release_edges batch @ map (\<lambda>i. release_edge_of (px_location ex) (resolution_of ex residual i)) (filter edge_written items),
      bb_resolutions := bb_resolutions batch @ map (resolution_of ex residual) (filter edge_written items)\<rparr> \<and>
    (\<forall>i \<in> set items. edge_written i \<longrightarrow> compiled_process_for_idx processes (rp_process_idx (fst (fst i))) \<noteq> None)"
  using assms
proof (induction items arbitrary: batch)
  case Nil
  then show ?case by simp
next
  case (Cons i items)
  from Cons.prems obtain b where b: "write_edge processes ex residual dep batch i = Ok b"
      "fold_result (write_edge processes ex residual dep) b items = Ok batch'"
    by (auto simp: and_then_Ok_iff)
  show ?case
    using Cons.IH [OF b(2)] b(1) unfolding write_edge_Ok by (cases "edge_written i") auto
qed

definition count_written :: "compiled_matching_stats \<Rightarrow> compiled_matching_stats" where
  "count_written stats =
     stats\<lparr>a_input_edges_written := a_input_edges_written stats + 1,
           a_balance_edges_written := a_balance_edges_written stats + 1\<rparr>"

lemma settle_balance_unresolved:
  assumes "settle_balance processes ex residual ports n [] batch = Ok batch'"
  shows "\<exists>u. batch' = batch\<lparr>bb_unresolved := bb_unresolved batch @ [u]\<rparr> \<and>
     cub_dependent_process_idx u = px_process_idx ex \<and> cub_residual_coefficient u = residual \<and>
     cub_required_reference_sign u = f_neg (f_signum residual)"
  using assms by (auto simp: settle_balance_def and_then_Ok_iff)

text \<open>The items of a resolved exchange: each allocation's port, its weight and its contribution.\<close>

definition item_ok ::
    "f64 \<Rightarrow> reference_port_candidate list \<Rightarrow> compiled_provider_allocation list \<Rightarrow>
     (reference_port_candidate \<times> weighted_reference_port) \<times> balance_contribution \<Rightarrow> bool" where
  "item_ok residual ps allocations item \<longleftrightarrow>
     (case item of ((port, weighted), contribution) \<Rightarrow>
        port \<in> set ps \<and>
        (\<exists>a \<in> set allocations. rp_process_idx port = cpl_provider_idx a \<and>
           weighted = \<lparr>wp_reference_coefficient = rp_coefficient port, wp_routing_weight = cpl_weight a\<rparr>) \<and>
        port_ok residual weighted \<and> contribution = port_contribution residual weighted)"

lemma weighted_port_Ok:
  "weighted_port ps a = Ok w \<Longrightarrow> fst w \<in> set ps \<and> rp_process_idx (fst w) = cpl_provider_idx a \<and>
     snd w = \<lparr>wp_reference_coefficient = rp_coefficient (fst w), wp_routing_weight = cpl_weight a\<rparr>"
  by (auto simp: weighted_port_def and_then_Ok_iff find_Some_iff)

lemma settle_balance_resolved:
  assumes "settle_balance processes ex residual ports n allocations batch = Ok batch'"
    and "allocations \<noteq> []" and "\<not> f_eq residual (Fin 0)"
  obtains ps items dep where "ports = Some ps" and "length items = length allocations"
    and "\<forall>i \<in> set items. item_ok residual ps allocations i"
    and "compiled_process_for_idx processes (px_process_idx ex) = Some dep"
    and "\<forall>i \<in> set items. edge_written i \<longrightarrow> compiled_process_for_idx processes (rp_process_idx (fst (fst i))) \<noteq> None"
    and "batch' = batch\<lparr>
      bb_matching_stats := count_written (bb_matching_stats batch),
      bb_technosphere_edges := bb_technosphere_edges batch @ map (technosphere_edge_of processes ex dep) (filter edge_written items),
      bb_release_edges := bb_release_edges batch @ map (\<lambda>i. release_edge_of (px_location ex) (resolution_of ex residual i)) (filter edge_written items),
      bb_resolutions := bb_resolutions batch @ map (resolution_of ex residual) (filter edge_written items)\<rparr>"
proof -
  from assms(1,2) obtain ps weighted balance dep where
      ps: "ports = Some ps" and w: "traverse (weighted_port ps) allocations = Ok weighted"
      and b: "resolve_weighted_balance residual (map snd weighted) = Ok balance"
      and dep: "compiled_process_for_idx processes (px_process_idx ex) = Some dep"
      and fold: "fold_result (write_edge processes ex residual dep)
        (batch\<lparr>bb_matching_stats := count_written (bb_matching_stats batch)\<rparr>)
        (zip weighted (contributions balance)) = Ok batch'"
    by (auto simp: settle_balance_def and_then_Ok_iff Let_def count_written_def)
  let ?items = "zip weighted (contributions balance)"
  note bal = resolve_weighted_balance_Ok [OF b assms(3)]
  have len: "length weighted = length allocations" by (rule traverse_length [OF w])
  have mem: "\<exists>a \<in> set allocations. weighted_port ps a = Ok v" if "v \<in> set weighted" for v
  proof -
    from that obtain k where "k < length weighted" "weighted ! k = v" by (auto simp: in_set_conv_nth)
    with len traverse_nth [OF w, of k] show ?thesis by (intro bexI [of _ "allocations ! k"]) simp_all
  qed
  have "item_ok residual ps allocations i" if "i \<in> set ?items" for i
  proof -
    from that have i: "fst i \<in> set weighted" "snd i = port_contribution residual (snd (fst i))"
      unfolding bal(1) by (auto simp: set_zip)
    obtain a where a: "a \<in> set allocations" "weighted_port ps a = Ok (fst i)" using mem [OF i(1)] by blast
    have "port_ok residual (snd (fst i))" using bal(2) i(1) by simp
    with weighted_port_Ok [OF a(2)] a(1) i(2) show ?thesis
      unfolding item_ok_def by (auto simp: split_beta)
  qed
  with write_edges_Ok [OF fold] ps dep len bal(1) show thesis
    by (intro that [of ps ?items dep]) auto
qed

text \<open>Everything one pass of the loop does to the batch.\<close>

lemma balance_exchange_Ok:
  assumes "balance_exchange flow_space port_map metas processes rule lineage batch ex = Ok batch'"
  obtains (skipped) "batch' = batch"
      "flow_space (flow_link_identity_of ex) \<noteq> Some Technosphere \<or> nonzero_residual_coefficient ex = None"
  | (linked) residual gate d decision n batch1 where
      "flow_space (flow_link_identity_of ex) = Some Technosphere"
      "nonzero_residual_coefficient ex = Some residual"
      "apply_provider_lineage_gate (eligible_balancing_process_indices
         (map_of port_map (flow_link_identity_of ex)) residual) metas lineage = Ok gate"
      "decision_ok gate d" "cpd_decision_kind decision = Some (lk_kind d)"
      "cpd_allocations decision = lk_allocations d"
      "batch1 = batch\<lparr>
         bb_matching_stats := count_decision (lk_kind d) (lk_equal_fallback d)
           ((bb_matching_stats batch)\<lparr>input_edges_total := input_edges_total (bb_matching_stats batch) + 1,
              residual_edges_total := residual_edges_total (bb_matching_stats batch) + 1\<rparr>),
         bb_decisions := bb_decisions batch @ [decision]\<rparr>"
      "settle_balance processes ex residual (map_of port_map (flow_link_identity_of ex)) n
         (lk_allocations d) batch1 = Ok batch'"
proof (cases "flow_space (flow_link_identity_of ex) = Some Technosphere \<and> nonzero_residual_coefficient ex \<noteq> None")
  case False
  then consider "flow_space (flow_link_identity_of ex) \<noteq> Some Technosphere" | "nonzero_residual_coefficient ex = None"
    by blast
  then have "batch' = batch"
    by cases (use assms in \<open>simp_all add: balance_exchange_def split: if_splits\<close>)
  with False skipped show thesis by blast
next
  case True
  then obtain residual where r: "nonzero_residual_coefficient ex = Some residual"
      "flow_space (flow_link_identity_of ex) = Some Technosphere" by blast
  note body0 = assms [unfolded balance_exchange_def r option.case Let_def simp_thms if_False]
  note body = body0 [unfolded and_then_Ok_iff ok_or_Ok_iff split_paired_Ex prod.case]
  from body obtain anchor gate candidates n stats1 d matched where
      gate: "apply_provider_lineage_gate (eligible_balancing_process_indices
         (map_of port_map (flow_link_identity_of ex)) residual) metas lineage = Ok gate"
      and decide: "decide_providers rule ex metas anchor (map_of port_map (flow_link_identity_of ex)) gate
        ((bb_matching_stats batch)\<lparr>input_edges_total := input_edges_total (bb_matching_stats batch) + 1,
              residual_edges_total := residual_edges_total (bb_matching_stats batch) + 1\<rparr>) = Ok (stats1, d)"
      and settle: "settle_balance processes ex residual (map_of port_map (flow_link_identity_of ex)) n
         (lk_allocations d) (batch\<lparr>bb_matching_stats := stats1,
                   bb_decisions := bb_decisions batch @
                     [\<lparr>cpd_consumer_idx = px_process_idx ex, cpd_flow_id = px_flow_id ex,
                       cpd_flow_version = px_flow_version ex,
                       cpd_candidate_provider_count = n, cpd_matched_provider_count = matched,
                       cpd_candidates = candidates, cpd_decision_kind = Some (lk_kind d),
                       cpd_resolution_strategy = lk_strategy d, cpd_failure_reason = lk_failure d,
                       cpd_used_equal_fallback = lk_equal_fallback d,
                       cpd_volume_fallback_to_one_count = lk_volume_fallbacks d,
                       cpd_geography_tier = lk_tier d,
                       cpd_supply_region_source = Some (anchor_source anchor),
                       cpd_supply_region_location = anchor_location anchor,
                       cpd_exchange_location_present = (px_location ex \<noteq> None),
                       cpd_allocations = lk_allocations d\<rparr>]\<rparr>) = Ok batch'"
    by fast
  show thesis
    by (rule linked [OF r(2,1) gate decide_providers_Ok(2) [OF decide] _ _ refl])
      (use settle decide_providers_Ok(1) [OF decide] in simp_all)
qed

subsection \<open>The whole loop\<close>

lemma nonzero_residual_not_zero:
  "nonzero_residual_coefficient ex = Some residual \<Longrightarrow> \<not> f_eq residual (Fin 0)"
proof -
  assume r: "nonzero_residual_coefficient ex = Some residual"
  then obtain d v where "(case signed_coefficient (signed_flow_direction_of d) v of
      Inl _ \<Rightarrow> None | Inr c \<Rightarrow> if f_eq c (Fin 0) then None else Some c) = Some residual"
    by (auto simp: nonzero_residual_coefficient_def Option.bind_eq_Some_conv split: if_splits)
  then show ?thesis
    by (cases "signed_coefficient (signed_flow_direction_of d) v") (auto split: if_splits)
qed

definition stats_balanced :: "compiled_balance_batch \<Rightarrow> bool" where
  "stats_balanced batch \<longleftrightarrow>
     (let s = bb_matching_stats batch in
        input_edges_total s = int (length (bb_decisions batch)) \<and>
        residual_edges_total s = input_edges_total s \<and>
        input_edges_total s = matched_unique_provider s + matched_multi_provider s + unmatched_no_provider s \<and>
        matched_multi_provider s = matched_multi_resolved s + matched_multi_unresolved s \<and>
        matched_multi_fallback_equal s \<le> matched_multi_resolved s \<and>
        a_input_edges_written s = a_balance_edges_written s \<and>
        a_balance_edges_written s = matched_unique_provider s + matched_multi_resolved s \<and>
        int (length (bb_unresolved batch)) = matched_multi_unresolved s + unmatched_no_provider s)"

lemma stats_balanced_step:
  assumes "balance_exchange flow_space port_map metas processes rule lineage batch ex = Ok batch'"
    and "stats_balanced batch"
  shows "stats_balanced batch'"
  using assms(1)
proof (cases rule: balance_exchange_Ok)
  case skipped
  with assms(2) show ?thesis by simp
next
  case (linked residual gate d decision n batch1)
  show ?thesis
  proof (cases "lk_allocations d = []")
    case True
    with settle_balance_unresolved linked(8) obtain u where
      u: "batch' = batch1\<lparr>bb_unresolved := bb_unresolved batch1 @ [u]\<rparr>" by metis
    have "lk_kind d \<in> {MultiUnresolved, NoProvider}" using linked(4) True by (simp add: decision_ok_def)
    with assms(2) show ?thesis
      by (auto simp: u linked(7) stats_balanced_def count_decision_def Let_def)
  next
    case False
    obtain items dep where
      b: "batch' = batch1\<lparr>
      bb_matching_stats := count_written (bb_matching_stats batch1),
      bb_technosphere_edges := bb_technosphere_edges batch1 @ map (technosphere_edge_of processes ex dep) (filter edge_written items),
      bb_release_edges := bb_release_edges batch1 @ map (\<lambda>i. release_edge_of (px_location ex) (resolution_of ex residual i)) (filter edge_written items),
      bb_resolutions := bb_resolutions batch1 @ map (resolution_of ex residual) (filter edge_written items)\<rparr>"
      using settle_balance_resolved [OF linked(8) False nonzero_residual_not_zero [OF linked(2)]] by metis
    have "lk_kind d = UniqueProvider \<or> lk_kind d = MultiResolved"
      using linked(4) False by (cases "lk_kind d") (auto simp: decision_ok_def)
    with assms(2) show ?thesis
      by (auto simp: b linked(7) stats_balanced_def count_decision_def count_written_def Let_def)
  qed
qed

definition residual_exchange ::
    "(flow_link_identity \<Rightarrow> compiled_flow_space option) \<Rightarrow> parsed_exchange \<Rightarrow> bool" where
  "residual_exchange flow_space ex \<longleftrightarrow>
     flow_space (flow_link_identity_of ex) = Some Technosphere \<and> nonzero_residual_coefficient ex \<noteq> None"

lemma decisions_step:
  assumes "balance_exchange flow_space port_map metas processes rule lineage batch ex = Ok batch'"
  shows "length (bb_decisions batch') = length (bb_decisions batch) + (if residual_exchange flow_space ex then 1 else 0)"
  using assms
proof (cases rule: balance_exchange_Ok)
  case skipped
  then show ?thesis by (auto simp: residual_exchange_def)
next
  case (linked residual gate d decision n batch1)
  have "bb_decisions batch' = bb_decisions batch1"
  proof (cases "lk_allocations d = []")
    case True
    with settle_balance_unresolved linked(8) show ?thesis by fastforce
  next
    case False
    show ?thesis
      by (rule settle_balance_resolved [OF linked(8) False nonzero_residual_not_zero [OF linked(2)]]) simp
  qed
  with linked(1,2,7) show ?thesis by (simp add: residual_exchange_def)
qed

lemma decisions_count:
  "fold_result (balance_exchange flow_space port_map metas processes rule lineage) batch exchanges = Ok batch' \<Longrightarrow>
   length (bb_decisions batch') = length (bb_decisions batch) + length (filter (residual_exchange flow_space) exchanges)"
proof (induction exchanges arbitrary: batch)
  case (Cons ex exchanges)
  from Cons.prems obtain b where
    b: "balance_exchange flow_space port_map metas processes rule lineage batch ex = Ok b"
      "fold_result (balance_exchange flow_space port_map metas processes rule lineage) b exchanges = Ok batch'"
    by (auto simp: and_then_Ok_iff)
  from Cons.IH [OF b(2)] decisions_step [OF b(1)] show ?case by simp
qed simp

lemma stats_balanced_compile:
  assumes "compile_signed_flow_balances exchanges flow_space port_map metas processes rule lineage = Ok batch"
  shows "stats_balanced batch"
proof -
  have "stats_balanced empty_batch" by (simp add: stats_balanced_def empty_batch_def matching_stats_default_def)
  with assms show ?thesis
    unfolding compile_signed_flow_balances_def
    by (rule fold_result_invariant) (rule stats_balanced_step)
qed

text \<open>Why a resolution is in the batch: the exchange and the reference port it balances.\<close>

definition resolution_from ::
    "(flow_link_identity \<Rightarrow> compiled_flow_space option) \<Rightarrow> reference_port_map \<Rightarrow> process_meta list \<Rightarrow>
     provider_lineage_index \<Rightarrow> compiled_balance_resolution \<Rightarrow> parsed_exchange \<Rightarrow> bool" where
  "resolution_from flow_space port_map metas lineage r ex \<longleftrightarrow>
     flow_space (flow_link_identity_of ex) = Some Technosphere \<and>
     nonzero_residual_coefficient ex = Some (cbr_residual_coefficient r) \<and>
     cbr_dependent_process_idx r = px_process_idx ex \<and>
     flow_link_identity_from_parts (cbr_flow_id r) (cbr_flow_version r) = flow_link_identity_of ex \<and>
     (\<exists>gate. apply_provider_lineage_gate (eligible_balancing_process_indices
         (map_of port_map (flow_link_identity_of ex)) (cbr_residual_coefficient r)) metas lineage = Ok gate \<and>
       cbr_balancing_process_idx r \<in> set (gate_providers gate)) \<and>
     (\<exists>ps port. map_of port_map (flow_link_identity_of ex) = Some ps \<and> port \<in> set ps \<and>
       rp_process_idx port = cbr_balancing_process_idx r \<and> rp_coefficient port = cbr_reference_coefficient r) \<and>
     f_lt (f_mul (cbr_residual_coefficient r) (cbr_reference_coefficient r)) (Fin 0) \<and>
     f_ge (cbr_routing_weight r) (Fin 0) \<and>
     is_finite (cbr_activity_requirement r) \<and> f_gt (cbr_activity_requirement r) (Fin 0)"

definition edge_of_resolution ::
    "compiled_process list \<Rightarrow> compiled_technosphere_edge \<Rightarrow> compiled_balance_resolution \<Rightarrow> bool" where
  "edge_of_resolution processes e r \<longleftrightarrow>
     cte_provider_idx e = cbr_balancing_process_idx r \<and> cte_consumer_idx e = cbr_dependent_process_idx r \<and>
     cte_flow_id e = cbr_flow_id r \<and> cte_amount e = cbr_activity_requirement r \<and>
     (\<exists>provider consumer. compiled_process_for_idx processes (cte_provider_idx e) = Some provider \<and>
        compiled_process_for_idx processes (cte_consumer_idx e) = Some consumer \<and>
        cte_provider_partition e = cp_partition provider \<and> cte_consumer_partition e = cp_partition consumer \<and>
        cte_partition e = from_partitions (cp_partition provider) (cp_partition consumer))"

definition edges_parallel :: "compiled_process list \<Rightarrow> compiled_balance_batch \<Rightarrow> bool" where
  "edges_parallel processes batch \<longleftrightarrow>
     list_all2 (edge_of_resolution processes) (bb_technosphere_edges batch) (bb_resolutions batch) \<and>
     list_all2 (\<lambda>e r. \<exists>location. e = release_edge_of location r) (bb_release_edges batch) (bb_resolutions batch)"

lemma f_not_ge_mul:
  assumes "is_finite x" and "is_finite y" and "\<not> f_ge (f_mul x y) (Fin 0)"
  shows "f_lt (f_mul x y) (Fin 0)"
proof -
  have "\<not> is_nan (round64 q)" for q by (auto simp: round64_def Let_def)
  then have "\<not> is_nan (f_mul x y)"
    using assms(1,2) by (cases x; cases y) (auto simp: f_mul_def zero_of_def Let_def)
  with assms(3) show ?thesis by (cases "f_mul x y") (auto simp: f_le_def f_lt_def f_eq_def)
qed

lemma nonzero_residual_finite:
  assumes "nonzero_residual_coefficient ex = Some residual"
  shows "is_finite residual"
proof -
  from assms obtain d v where "(case signed_coefficient (signed_flow_direction_of d) v of
      Inl _ \<Rightarrow> None | Inr c \<Rightarrow> if f_eq c (Fin 0) then None else Some c) = Some residual"
    by (auto simp: nonzero_residual_coefficient_def Option.bind_eq_Some_conv split: if_splits)
  then have "signed_coefficient (signed_flow_direction_of d) v = Ok residual"
    by (cases "signed_coefficient (signed_flow_direction_of d) v") (auto split: if_splits)
  then show ?thesis by (auto simp: signed_coefficient_def and_then_Ok_iff Let_def)
qed

lemma item_resolution:
  assumes "item_ok residual ps (lk_allocations d) i" and "edge_written i" and "decision_ok gate d"
    and "flow_space (flow_link_identity_of ex) = Some Technosphere"
    and "nonzero_residual_coefficient ex = Some residual"
    and "apply_provider_lineage_gate (eligible_balancing_process_indices
         (map_of port_map (flow_link_identity_of ex)) residual) metas lineage = Ok gate"
    and "map_of port_map (flow_link_identity_of ex) = Some ps"
  shows "resolution_from flow_space port_map metas lineage (resolution_of ex residual i) ex"
proof -
  obtain port w c where i: "i = ((port, w), c)" by (metis prod.collapse)
  from assms(1) obtain a where a: "port \<in> set ps" "a \<in> set (lk_allocations d)" "rp_process_idx port = cpl_provider_idx a"
      "w = \<lparr>wp_reference_coefficient = rp_coefficient port, wp_routing_weight = cpl_weight a\<rparr>"
      "port_ok residual w" "c = port_contribution residual w"
    unfolding item_ok_def i by auto
  have act: "activity_requirement c = port_activity residual w" by (simp add: a(6) port_contribution_def)
  have gate: "rp_process_idx port \<in> set (gate_providers gate)" "f_ge (cpl_weight a) (Fin 0)"
    using assms(3) a(2,3) by (auto simp: decision_ok_def)
  have pos: "f_gt (activity_requirement c) (Fin 0)"
  proof -
    have "f_ge (activity_requirement c) (Fin 0)" using a(5) unfolding act port_ok_def by blast
    moreover have "\<not> f_eq (Fin 0) (activity_requirement c)"
      using assms(2) by (auto simp: edge_written_def i f_eq_def)
    ultimately show ?thesis by (simp add: f_le_def)
  qed
  have opp: "f_lt (f_mul residual (rp_coefficient port)) (Fin 0)"
    using a(4,5) nonzero_residual_finite [OF assms(5)] by (intro f_not_ge_mul) (auto simp: port_ok_def)
  have fin: "is_finite (activity_requirement c)" using a(5) unfolding act port_ok_def by blast
  show ?thesis
    unfolding resolution_from_def resolution_of_def i Let_def fst_conv snd_conv compiled_balance_resolution.simps
    using assms(4-7) a(1,4) gate pos opp fin by (auto simp: flow_link_identity_of_def)
qed

lemma edges_step:
  assumes "balance_exchange flow_space port_map metas processes rule lineage batch ex = Ok batch'"
    and "edges_parallel processes batch"
    and "\<forall>r \<in> set (bb_resolutions batch). \<exists>ex \<in> X. resolution_from flow_space port_map metas lineage r ex"
    and "ex \<in> X"
  shows "edges_parallel processes batch' \<and>
    (\<forall>r \<in> set (bb_resolutions batch'). \<exists>ex \<in> X. resolution_from flow_space port_map metas lineage r ex)"
  using assms(1)
proof (cases rule: balance_exchange_Ok)
  case skipped
  with assms(2,3) show ?thesis by simp
next
  case (linked residual gate d decision n batch1)
  have base: "edges_parallel processes batch1" "bb_resolutions batch1 = bb_resolutions batch"
    using assms(2) by (simp_all add: linked(7) edges_parallel_def)
  show ?thesis
  proof (cases "lk_allocations d = []")
    case True
    then obtain u where "batch' = batch1\<lparr>bb_unresolved := bb_unresolved batch1 @ [u]\<rparr>"
      using settle_balance_unresolved linked(8) by metis
    with base assms(3) show ?thesis by (simp add: edges_parallel_def)
  next
    case False
    obtain ps items dep where s: "map_of port_map (flow_link_identity_of ex) = Some ps"
        "\<forall>i \<in> set items. item_ok residual ps (lk_allocations d) i"
        "compiled_process_for_idx processes (px_process_idx ex) = Some dep"
        "\<forall>i \<in> set items. edge_written i \<longrightarrow> compiled_process_for_idx processes (rp_process_idx (fst (fst i))) \<noteq> None"
      and b: "batch' = batch1\<lparr>
      bb_matching_stats := count_written (bb_matching_stats batch1),
      bb_technosphere_edges := bb_technosphere_edges batch1 @ map (technosphere_edge_of processes ex dep) (filter edge_written items),
      bb_release_edges := bb_release_edges batch1 @ map (\<lambda>i. release_edge_of (px_location ex) (resolution_of ex residual i)) (filter edge_written items),
      bb_resolutions := bb_resolutions batch1 @ map (resolution_of ex residual) (filter edge_written items)\<rparr>"
      using settle_balance_resolved [OF linked(8) False nonzero_residual_not_zero [OF linked(2)]] by metis
    let ?new = "filter edge_written items"
    have e: "edge_of_resolution processes (technosphere_edge_of processes ex dep i) (resolution_of ex residual i)"
      if "i \<in> set ?new" for i
      using that s(3,4) by (auto simp: edge_of_resolution_def technosphere_edge_of_def resolution_of_def Let_def)
    have "list_all2 (edge_of_resolution processes) (map (technosphere_edge_of processes ex dep) ?new) (map (resolution_of ex residual) ?new)"
      unfolding list.rel_map list_all2_same using e by blast
    moreover have "list_all2 (\<lambda>e r. \<exists>location. e = release_edge_of location r)
        (map (\<lambda>i. release_edge_of (px_location ex) (resolution_of ex residual i)) ?new) (map (resolution_of ex residual) ?new)"
      by (auto simp: list_all2_conv_all_nth)
    ultimately have "edges_parallel processes batch'"
      using base(1) by (simp add: b edges_parallel_def list_all2_appendI)
    moreover have "resolution_from flow_space port_map metas lineage (resolution_of ex residual i) ex" if "i \<in> set ?new" for i
      by (rule item_resolution [where d = d and gate = gate, OF _ _ linked(4) _ linked(2,3) s(1)])
        (use s(2) that linked(1) in auto)
    ultimately show ?thesis
      using assms(3,4) base(2) by (auto simp: b)
  qed
qed

lemma edges_compile:
  assumes "compile_signed_flow_balances exchanges flow_space port_map metas processes rule lineage = Ok batch"
  shows "edges_parallel processes batch \<and>
    (\<forall>r \<in> set (bb_resolutions batch). \<exists>ex \<in> set exchanges. resolution_from flow_space port_map metas lineage r ex)"
  using assms unfolding compile_signed_flow_balances_def
proof (rule fold_result_invariant)
  show "edges_parallel processes empty_batch \<and>
    (\<forall>r \<in> set (bb_resolutions empty_batch). \<exists>ex \<in> set exchanges. resolution_from flow_space port_map metas lineage r ex)"
    by (simp add: edges_parallel_def empty_batch_def)
qed (use edges_step in blast)

subsection \<open>Properties\<close>

text \<open>The score of a distance in years.\<close>

definition year_band :: "int \<Rightarrow> f64" where
  "year_band n = (if n \<le> 1 then Fin 1 else if n \<le> 3 then round64 (85 / 100) else if n \<le> 5 then round64 (65 / 100)
     else if n \<le> 10 then round64 (4 / 10) else round64 (2 / 10))"

text \<open>
  C9. Linking loses no exchange: the batch has exactly one decision for each technosphere exchange
  with a non-zero residual. Every one is counted once as unique, multiple or without provider,
  every multiple one once as resolved or unresolved, every resolved one is written, and the
  unresolved balances are exactly the decisions that allocate nothing.
\<close>

theorem link_statistics_balance:
  assumes "compile_signed_flow_balances exchanges flow_space port_map metas processes rule lineage = Ok batch"
  defines "s \<equiv> bb_matching_stats batch"
  shows "length (bb_decisions batch) =
      length (filter (\<lambda>ex. flow_space (flow_link_identity_of ex) = Some Technosphere \<and>
                          nonzero_residual_coefficient ex \<noteq> None) exchanges) \<and>
    input_edges_total s = int (length (bb_decisions batch)) \<and> residual_edges_total s = input_edges_total s \<and>
    input_edges_total s = matched_unique_provider s + matched_multi_provider s + unmatched_no_provider s \<and>
    matched_multi_provider s = matched_multi_resolved s + matched_multi_unresolved s \<and>
    matched_multi_fallback_equal s \<le> matched_multi_resolved s \<and>
    a_input_edges_written s = a_balance_edges_written s \<and>
    a_balance_edges_written s = matched_unique_provider s + matched_multi_resolved s \<and>
    int (length (bb_unresolved batch)) = matched_multi_unresolved s + unmatched_no_provider s"
  using stats_balanced_compile [OF assms(1)]
    decisions_count [OF assms(1) [unfolded compile_signed_flow_balances_def]]
  by (simp add: stats_balanced_def s_def Let_def empty_batch_def residual_exchange_def [abs_def])

text \<open>
  C7. Every balance the linker writes is justified: it stems from a technosphere exchange of the
  dependent process with that non-zero residual, goes to a process the lineage gate let through
  that has a reference port for exactly that flow identity, whose coefficient has the opposite
  sign, and requires a finite, positive activity with a non-negative weight.
\<close>

theorem balance_edges_sound:
  assumes "compile_signed_flow_balances exchanges flow_space port_map metas processes rule lineage = Ok batch"
    and "r \<in> set (bb_resolutions batch)"
  shows "\<exists>ex \<in> set exchanges. resolution_from flow_space port_map metas lineage r ex"
  using edges_compile [OF assms(1)] assms(2) by blast

text \<open>
  C29. The technosphere edges, the release edges and the balance resolutions of a batch are three
  parallel lists; the two ends of every edge are processes of the compiled graph and its
  partitions are theirs.
\<close>

theorem compiled_edges_well_formed:
  assumes "compile_signed_flow_balances exchanges flow_space port_map metas processes rule lineage = Ok batch"
  shows "list_all2 (edge_of_resolution processes) (bb_technosphere_edges batch) (bb_resolutions batch) \<and>
    list_all2 (\<lambda>e r. \<exists>location. e = release_edge_of location r) (bb_release_edges batch) (bb_resolutions batch)"
  using edges_compile [OF assms] unfolding edges_parallel_def by blast

text \<open>
  C28. A rule that resolves several candidates allocates to at least one provider, only to
  candidates, with non-negative weights, and exactly what the rule says: equal shares; shares of
  the annual volume over the nearest tier of the consumer's model; the best-scored candidate
  alone; or shares of the score over the candidates that reach the minimum.
\<close>

theorem multi_provider_allocations:
  assumes "resolve_multi_provider rule ex ps metas = Ok (Resolved r)"
  shows "mp_allocations r = rule_allocations rule metas ex ps \<and> mp_allocations r \<noteq> [] \<and>
    fst ` set (mp_allocations r) \<subseteq> set ps \<and> (\<forall>a \<in> set (mp_allocations r). f_ge (snd a) (Fin 0))"
  using resolve_multi_allocations(1) [OF assms] resolved_allocations_ok [OF assms] by blast

text \<open>
  Within the years the data can hold, a candidate's time score is the band of the distance in
  years, and an unknown year scores one half. The
  subtraction wraps: the extreme distance of \<open>i32::MIN\<close> to zero scores as a perfect match.
\<close>

theorem time_score_banded:
  "(\<bar>left - right\<bar> \<le> i32_max \<longrightarrow> time_score (Some left) (Some right) = year_band \<bar>left - right\<bar>) \<and>
   time_score None y = round64 (5 / 10) \<and> time_score y None = round64 (5 / 10) \<and>
   time_score (Some i32_min) (Some 0) = Fin 1"
proof -
  have w: "wrap_i32 \<bar>wrap_i32 (left - right)\<bar> = \<bar>left - right\<bar>" if "\<bar>left - right\<bar> \<le> i32_max"
  proof -
    have "i32_range (left - right)" "i32_range \<bar>left - right\<bar>" using that by (auto simp: i32_defs)
    then show ?thesis by simp
  qed
  have m: "wrap_i32 \<bar>wrap_i32 (i32_min - 0)\<bar> = i32_min" by (simp add: i32_defs wrap_i32_def)
  have "time_score (Some i32_min) (Some 0) = Fin 1"
    unfolding time_score_def option.case prod.case Let_def m by (simp add: i32_min_def)
  moreover have "time_score None y = round64 (5 / 10)" "time_score y None = round64 (5 / 10)"
    unfolding time_score_def prod.case option.case by (rule refl, cases y) (simp_all only: option.case)
  moreover have "time_score (Some left) (Some right) = year_band \<bar>left - right\<bar>" if "\<bar>left - right\<bar> \<le> i32_max"
    unfolding time_score_def option.case prod.case Let_def w [OF that] year_band_def ..
  ultimately show ?thesis by blast
qed

subsection \<open>Example\<close>

text \<open>A consumer of two units of a flow that one process supplies.\<close>

definition link_metas :: "process_meta list" where
  "link_metas = map (\<lambda>i. \<lparr>pm_process_idx = 0, pm_process_id = i, pm_process_version = ''1'', pm_process_name = None,
     pm_model_id = None, pm_model_version = None, pm_location = None, pm_reference_year = None,
     pm_annual_volume = None\<rparr>) [1, 2, 3]"

definition link_processes :: "compiled_process list" where
  "link_processes = map (\<lambda>i. \<lparr>cp_process_idx = 0, cp_process_id = i, cp_process_version = ''1'', cp_process_name = None,
     cp_model_id = None, cp_model_version = None, cp_location = None, cp_reference_year = None,
     cp_annual_volume = None, cp_partition = Public\<rparr>) [1, 2, 3]"

definition link_exchange :: parsed_exchange where
  "link_exchange = \<lparr>px_process_idx = 0, px_flow_id = 7, px_direction = Some ExInput, px_direction_label = ''Input'',
     px_internal_id = Some ''5'', px_exchange_id = ''x'', px_flow_version = ''1'', px_is_reference_exchange = False,
     px_raw_amount = Some (Fin 2), px_signed_raw_coefficient = Some (Fin (- 2)), px_amount = Some (Fin 2),
     px_allocation_state = AllocPresent, px_allocation_fraction = Fin 1, px_allocation_target_internal_id = ''0'',
     px_location = None\<rparr>"

definition link_port :: reference_port_candidate where
  "link_port = \<lparr>rp_flow_id = 7, rp_flow_version = ''1'', rp_process_idx = 1,
     rp_reference_exchange_internal_id = Some ''0'', rp_coefficient = Fin 1, rp_raw_direction = ExOutput,
     rp_raw_amount = Fin 1, rp_signed_raw_coefficient = Fin 1, rp_allocation_state = AllocMissing\<rparr>"

abbreviation no_lineage :: provider_lineage_index where
  "no_lineage \<equiv> \<lparr>model_components = [], result_models = [], component_models = [], selected_results = []\<rparr>"

abbreviation link_example :: "(linking_error, compiled_balance_batch) result" where
  "link_example \<equiv> compile_signed_flow_balances [link_exchange] (\<lambda>_. Some Technosphere)
     [(\<lparr>fl_flow_id = 7, fl_flow_version = ''1''\<rparr>, [link_port])] link_metas link_processes SplitEqual no_lineage"

lemma link_residual: "nonzero_residual_coefficient link_exchange = Some (Fin (-2))" by code_simp

lemma f_rep_2: "f_rep (Fin (- 2))"
proof -
  have "representable 2" by (rule representableI [of 0]) (auto simp: multiple_of_def exI [of _ "2 :: int"])
  then show ?thesis using representable_minus by (auto simp: f_rep_def)
qed

lemma link_gate: "apply_provider_lineage_gate [1] link_metas no_lineage = Ok \<lparr>gate_providers = [1], relationships_by_provider = [], rejection_by_provider = [], selected_model_result = None, gate_unresolved = False\<rparr>" by code_simp

lemma link_balance: "resolve_weighted_balance (Fin (- 2)) [\<lparr>wp_reference_coefficient = Fin 1, wp_routing_weight = Fin 1\<rparr>] =
   Ok \<lparr>residual_coefficient = Fin (- 2),
       contributions = [\<lparr>bc_reference_coefficient = Fin 1, bc_routing_weight = Fin 1, activity_requirement = Fin 2\<rparr>],
       closure_residual = Fin 0\<rparr>"
  using single_port_balance [OF f_rep_2] by simp

lemma link_candidates: "\<exists>cs. compiled_balance_candidates (Some [link_port]) link_metas (Fin (-2)) = Ok cs"
proof -
  have "case compiled_balance_candidates (Some [link_port]) link_metas (Fin (-2)) of Inl _ \<Rightarrow> False | Inr _ \<Rightarrow> True" by code_simp
  then show ?thesis by (auto split: sum.splits)
qed

lemma link_anchor: "supply_region_anchor_for_exchange link_exchange link_metas = Ok \<lparr>anchor_source = UnspecifiedSource, anchor_location = None\<rparr>"
  by code_simp

lemma link_lookup: "map_of [(\<lparr>fl_flow_id = 7, fl_flow_version = ''1''\<rparr>, [link_port])] (flow_link_identity_of link_exchange) = Some [link_port]"
  by code_simp

lemma link_eligible: "eligible_balancing_process_indices (Some [link_port]) (Fin (-2)) = [1]" by code_simp

lemma link_decide: "\<exists>d. decide_providers SplitEqual link_exchange link_metas \<lparr>anchor_source = UnspecifiedSource, anchor_location = None\<rparr>
    ports \<lparr>gate_providers = [1], relationships_by_provider = [], rejection_by_provider = [], selected_model_result = None, gate_unresolved = False\<rparr> stats =
   Ok (stats\<lparr>matched_unique_provider := matched_unique_provider stats + 1\<rparr>, d) \<and> lk_allocations d = [\<lparr>cpl_provider_idx = 1, cpl_weight = Fin 1\<rparr>]"
proof -
  have "\<exists>m. process_meta_for_idx link_metas 1 = Some m" by (simp add: process_meta_for_idx_def link_metas_def usize_try_from_def)
  then show ?thesis by (auto simp: decide_providers_def)
qed

lemma link_settle:
  assumes "bb_resolutions batch = []"
  shows "\<exists>b. settle_balance link_processes link_exchange (Fin (- 2)) (Some [link_port]) n
      [\<lparr>cpl_provider_idx = 1, cpl_weight = Fin 1\<rparr>] batch = Ok b \<and>
    map cbr_activity_requirement (bb_resolutions b) = [Fin 2]"
proof -
  have w: "weighted_port [link_port] \<lparr>cpl_provider_idx = 1, cpl_weight = Fin 1\<rparr> =
      Ok (link_port, \<lparr>wp_reference_coefficient = Fin 1, wp_routing_weight = Fin 1\<rparr>)"
    by (simp add: weighted_port_def link_port_def)
  have p: "\<exists>m. compiled_process_for_idx link_processes 0 = Some m" "\<exists>m. compiled_process_for_idx link_processes 1 = Some m"
    by (simp_all add: compiled_process_for_idx_def link_processes_def usize_try_from_def)
  have i: "px_process_idx link_exchange = 0" "rp_process_idx link_port = 1" by (simp_all add: link_exchange_def link_port_def)
  show ?thesis using p assms by (auto simp: settle_balance_def w link_balance map_err_def i Let_def write_edge_def f_eq_def)
qed

lemma link_count: "i32_try_from (length [x]) = Some 1"
  by (simp add: i32_try_from_def i32_max_def)

lemma link_example_runs:
  "\<exists>b. link_example = Ok b \<and> map cbr_activity_requirement (bb_resolutions b) = [Fin 2]"
proof -
  let ?stats = "matching_stats_default\<lparr>input_edges_total := input_edges_total matching_stats_default + 1,
    residual_edges_total := residual_edges_total matching_stats_default + 1\<rparr>"
  let ?gate = "\<lparr>gate_providers = [1], relationships_by_provider = [], rejection_by_provider = [],
    selected_model_result = None, gate_unresolved = False\<rparr>"
  obtain cs where cs: "compiled_balance_candidates (Some [link_port]) link_metas (Fin (-2)) = Ok cs"
    using link_candidates by blast
  obtain d where d: "decide_providers SplitEqual link_exchange link_metas \<lparr>anchor_source = UnspecifiedSource, anchor_location = None\<rparr>
      (Some [link_port]) ?gate ?stats = Ok (?stats\<lparr>matched_unique_provider := matched_unique_provider ?stats + 1\<rparr>, d)"
    and a: "lk_allocations d = [\<lparr>cpl_provider_idx = 1, cpl_weight = Fin 1\<rparr>]"
    using link_decide by blast
  have s: "bb_matching_stats empty_batch = matching_stats_default" by (simp add: empty_batch_def)
  have ret: "and_then r (\<lambda>x. Ok x) = r" for r :: "(linking_error, compiled_balance_batch) result"
    by (cases r) simp_all
  show ?thesis
    unfolding compile_signed_flow_balances_def fold_result.simps ret balance_exchange_def link_residual
      link_lookup link_eligible link_anchor link_gate Let_def s cs d link_count a and_then_simps ok_or_simps
      option.case prod.case simp_thms if_False
    by (rule link_settle) (simp add: empty_batch_def)
qed

theorem link_statistics_balance_witness:
  "\<exists>b. link_example = Ok b \<and> length (bb_decisions b) = 1 \<and> input_edges_total (bb_matching_stats b) = 1"
proof -
  obtain b where b: "link_example = Ok b" using link_example_runs by blast
  have "length (bb_decisions b) = 1"
    using link_statistics_balance [OF b, THEN conjunct1] by (simp add: link_residual)
  with link_statistics_balance [OF b] b show ?thesis by simp
qed

theorem balance_edges_sound_witness:
  "\<exists>b r. link_example = Ok b \<and> r \<in> set (bb_resolutions b) \<and> cbr_activity_requirement r = Fin 2 \<and>
     (\<exists>ex \<in> {link_exchange}. resolution_from (\<lambda>_. Some Technosphere)
        [(\<lparr>fl_flow_id = 7, fl_flow_version = ''1''\<rparr>, [link_port])] link_metas no_lineage r ex)"
proof -
  obtain b where b: "link_example = Ok b" "map cbr_activity_requirement (bb_resolutions b) = [Fin 2]"
    using link_example_runs by (elim exE conjE)
  from b(2) obtain r where r: "bb_resolutions b = [r]" "cbr_activity_requirement r = Fin 2" by auto
  from r(1) have mem: "r \<in> set (bb_resolutions b)" by simp
  from balance_edges_sound [OF b(1) mem, unfolded list.set] b(1) mem r(2) show ?thesis by blast
qed

theorem compiled_edges_well_formed_witness:
  "\<exists>b. link_example = Ok b \<and> list_all2 (edge_of_resolution link_processes) (bb_technosphere_edges b) (bb_resolutions b) \<and>
     bb_resolutions b \<noteq> []"
proof -
  obtain b where b: "link_example = Ok b" "map cbr_activity_requirement (bb_resolutions b) = [Fin 2]"
    using link_example_runs by (elim exE conjE)
  from b(2) have "bb_resolutions b \<noteq> []" by force
  with compiled_edges_well_formed [OF b(1)] b(1) show ?thesis by blast
qed

theorem multi_provider_allocations_witness:
  "\<exists>r. resolve_multi_provider SplitEqual link_exchange [1, 2] link_metas = Ok (Resolved r) \<and>
     fst ` set (mp_allocations r) \<subseteq> {1, 2}"
proof -
  have "resolve_multi_provider SplitEqual link_exchange [1, 2] link_metas = Ok (Resolved (split_equal [1, 2]))"
    by (simp add: resolve_multi_provider_def)
  with multi_provider_allocations [OF this, unfolded list.set] show ?thesis by blast
qed

theorem time_score_banded_witness:
  "time_score (Some 2020) (Some 2019) = Fin 1"
  using time_score_banded [of 2020 2019] by (simp add: i32_max_def year_band_def)

end
