(* ===== verification/Process_Selection.thy ===== *)
theory Process_Selection
  imports Process_Parsing Balance_Compilation
begin

text \<open>
  Choosing the processes of a snapshot (\<open>solver-worker/src/bin/snapshot_builder.rs\<close>): the whole
  filtered library up to a limit, or the closure of the requested roots under the links the
  provider rule makes on the tables of all candidates (the snapshot is linked later, on the
  selected processes alone). Hash sets and maps are duplicate-free lists; the digest of the scope
  description (JSON text and SHA-256) is an argument.
\<close>

subsection \<open>Data\<close>

record scope_hash_body =
  hb_schema :: string
  hb_selection_mode :: snapshot_selection_mode
  hb_all_states :: bool
  hb_process_states :: "i32 list"
  hb_include_user_id :: "uuid option"
  hb_request_roots :: "request_root_process list"
  hb_process_limit :: nat
  hb_provider_rule :: string

record resolved_request_scope_summary =
  sc_selection_mode :: snapshot_selection_mode
  sc_scope_hash :: string
  sc_roots :: "request_root_process list"
  sc_public_process_count :: int
  sc_private_process_count :: int
  sc_processes :: "resolved_scope_process list"

record resolved_process_selection =
  sel_processes :: "process_row list"
  sel_scope_summary :: resolved_request_scope_summary

datatype selection_error =
    ProcessIndexOverflow
  | RootUnreadable process_error
  | RootFlowUnresolved process_error
  | PortInvalid port_error
  | RootNotFound request_root_process
  | NegativeProcessIdx
  | MissingExchanges i32
  | MissingClosureMeta i32
  | ClosureAllocationInvalid uuid string string
  | ClosureLinking linking_error
  | SelectedOutOfBounds i32
  | PublicCountOverflow
  | PrivateCountOverflow

record closure_tables =
  ct_metas :: "process_meta list"
  ct_residuals :: "parsed_exchange list list"
  ct_ports :: reference_port_map
  ct_lookup :: "((uuid \<times> string) \<times> i32) list"

subsection \<open>Scope description\<close>

definition root_key :: "request_root_process \<Rightarrow> uuid \<times> string" where
  "root_key r = (rr_process_id r, rr_process_version r)"

definition normalize_request_roots :: "request_root_process list \<Rightarrow> request_root_process list" where
  "normalize_request_roots roots =
     remdups_adj (sort_by_key root_key (map (\<lambda>r. request_root_new (rr_process_id r) (rr_process_version r)) roots))"

definition compute_scope_hash ::
    "(scope_hash_body \<Rightarrow> string) \<Rightarrow> bool \<Rightarrow> i32 list \<Rightarrow> uuid option \<Rightarrow> request_root_process list \<Rightarrow> nat \<Rightarrow>
       provider_rule \<Rightarrow> string" where
  "compute_scope_hash digest all_states state_codes include_user_id request_roots process_limit rule =
     digest \<lparr>hb_schema = ''request-scope:v1'',
       hb_selection_mode = (if request_roots = [] then FilteredLibrary else RequestRootsClosure),
       hb_all_states = all_states, hb_process_states = state_codes, hb_include_user_id = include_user_id,
       hb_request_roots = request_roots, hb_process_limit = process_limit,
       hb_provider_rule = provider_rule_as_str rule\<rparr>"

definition classify_scope_partition :: "process_row \<Rightarrow> uuid option \<Rightarrow> scope_process_partition" where
  "classify_scope_partition row include_user_id =
     (if row_state_code row \<noteq> 100 \<and> include_user_id \<noteq> None \<and> row_user_id row = include_user_id
      then Private else Public)"

definition scope_process :: "uuid option \<Rightarrow> process_row \<Rightarrow> resolved_scope_process" where
  "scope_process include_user_id row =
     \<lparr>rs_process_id = row_id row, rs_process_version = row_version row,
      rs_partition = classify_scope_partition row include_user_id\<rparr>"

definition i64_count :: "nat \<Rightarrow> int option" where
  "i64_count n = (if n < 2 ^ 63 then Some (int n) else None)"

definition summarize_selection ::
    "snapshot_selection_mode \<Rightarrow> uuid option \<Rightarrow> request_root_process list \<Rightarrow> string \<Rightarrow> process_row list \<Rightarrow>
       (selection_error, resolved_process_selection) result" where
  "summarize_selection mode include_user_id roots hash rows =
     (let processes = map (scope_process include_user_id) rows in
      and_then (ok_or (i64_count (length (filter (\<lambda>p. rs_partition p = Public) processes))) PublicCountOverflow) (\<lambda>public.
      and_then (ok_or (i64_count (length (filter (\<lambda>p. rs_partition p = Private) processes))) PrivateCountOverflow) (\<lambda>private.
      Ok \<lparr>sel_processes = rows,
          sel_scope_summary = \<lparr>sc_selection_mode = mode, sc_scope_hash = hash, sc_roots = roots,
            sc_public_process_count = public, sc_private_process_count = private, sc_processes = processes\<rparr>\<rparr>)))"

subsection \<open>Reading the candidates\<close>

definition is_technosphere ::
    "(flow_link_identity \<Rightarrow> compiled_flow_space option) option \<Rightarrow> parsed_exchange \<Rightarrow> bool" where
  "is_technosphere spaces ex \<longleftrightarrow>
     (case spaces of None \<Rightarrow> True | Some space \<Rightarrow> space (flow_link_identity_of ex) = Some Technosphere)"

fun entry_push :: "'k \<Rightarrow> 'v \<Rightarrow> ('k \<times> 'v list) list \<Rightarrow> ('k \<times> 'v list) list" where
  "entry_push k v [] = [(k, [v])]"
| "entry_push k v ((k', vs) # m) = (if k = k' then (k', vs @ [v]) # m else (k', vs) # entry_push k v m)"

definition add_reference_port ::
    "(flow_link_identity \<Rightarrow> compiled_flow_space option) option \<Rightarrow> reference_port_map \<Rightarrow> parsed_exchange \<Rightarrow>
       (selection_error, reference_port_map) result" where
  "add_reference_port spaces ports ex =
     (if px_is_reference_exchange ex \<and> is_technosphere spaces ex
      then and_then (map_err PortInvalid (reference_port_candidate_from_exchange ex)) (\<lambda>port.
           Ok (entry_push (flow_link_identity_of ex) port ports))
      else Ok ports)"

definition skip_process :: "process_meta \<Rightarrow> closure_tables \<Rightarrow> closure_tables" where
  "skip_process meta t = t\<lparr>ct_metas := ct_metas t @ [meta], ct_residuals := ct_residuals t @ [[]]\<rparr>"

definition load_candidate ::
    "(string \<Rightarrow> uuid option) \<Rightarrow> (uuid \<Rightarrow> string) \<Rightarrow> (json_number \<Rightarrow> string) \<Rightarrow>
     (flow_link_identity \<Rightarrow> compiled_flow_space option) option \<Rightarrow> resolved_flow_metadata option \<Rightarrow>
     (uuid \<times> string) list \<Rightarrow> closure_tables \<Rightarrow> nat \<times> process_row \<Rightarrow> (selection_error, closure_tables) result" where
  "load_candidate parse_uuid show_uuid show_number spaces flow_meta requested t0 e =
     (let row = snd e; key = (row_id row, row_version row) in
      and_then (ok_or (i32_try_from (fst e)) ProcessIndexOverflow) (\<lambda>idx.
      let t = t0\<lparr>ct_lookup := AList.update key idx (ct_lookup t0)\<rparr> in
      case parse_process_chunk parse_uuid show_uuid show_number row idx of
        Inl err \<Rightarrow>
          if key \<notin> set requested then Ok (skip_process (process_meta_of_row row idx) t) else Err (RootUnreadable err)
      | Inr (meta, parsed, _, _, _) \<Rightarrow>
          (case (case flow_meta of None \<Rightarrow> Ok parsed | Some m \<Rightarrow> resolve_requested_flow_versions parsed m) of
             Inl err \<Rightarrow> if key \<in> set requested then Err (RootFlowUnresolved err) else Ok (skip_process meta t)
           | Inr exchanges \<Rightarrow>
               and_then (fold_result (add_reference_port spaces) (ct_ports t) exchanges) (\<lambda>ports.
               Ok (t\<lparr>ct_ports := ports, ct_metas := ct_metas t @ [meta],
                     ct_residuals := ct_residuals t @
                       [filter (\<lambda>ex. \<not> px_is_reference_exchange ex \<and> is_technosphere spaces ex) exchanges]\<rparr>)))))"

definition empty_tables :: closure_tables where
  "empty_tables = \<lparr>ct_metas = [], ct_residuals = [], ct_ports = [], ct_lookup = []\<rparr>"

definition load_candidates ::
    "(string \<Rightarrow> uuid option) \<Rightarrow> (uuid \<Rightarrow> string) \<Rightarrow> (json_number \<Rightarrow> string) \<Rightarrow>
     (flow_link_identity \<Rightarrow> compiled_flow_space option) option \<Rightarrow> resolved_flow_metadata option \<Rightarrow>
     (uuid \<times> string) list \<Rightarrow> process_row list \<Rightarrow> (selection_error, closure_tables) result" where
  "load_candidates parse_uuid show_uuid show_number spaces flow_meta requested rows =
     and_then (fold_result (load_candidate parse_uuid show_uuid show_number spaces flow_meta requested) empty_tables
                 (List.enumerate 0 rows)) (\<lambda>t.
     Ok (t\<lparr>ct_ports := map (\<lambda>e. (fst e, sort_reference_port_candidates (snd e) (ct_metas t))) (ct_ports t)\<rparr>))"

subsection \<open>Closure of the roots\<close>

type_synonym closure_state = "i32 list \<times> i32 list"

definition select_process :: "closure_state \<Rightarrow> i32 \<Rightarrow> closure_state" where
  "select_process st i = (if i \<in> set (fst st) then st else (i # fst st, snd st @ [i]))"

definition closure_providers ::
    "provider_rule \<Rightarrow> provider_lineage_index \<Rightarrow> closure_tables \<Rightarrow> parsed_exchange \<Rightarrow> f64 \<Rightarrow>
       (linking_error, i32 list) result" where
  "closure_providers rule lineage t ex residual =
     and_then (apply_provider_lineage_gate
                 (eligible_balancing_process_indices (map_of (ct_ports t) (flow_link_identity_of ex)) residual)
                 (ct_metas t) lineage) (\<lambda>gate.
     let providers = gate_providers gate in
     if length providers = 1 then Ok providers
     else if 1 < length providers
     then and_then (resolve_multi_provider rule ex providers (ct_metas t)) (\<lambda>decision.
          Ok (case decision of Resolved r \<Rightarrow> map fst (mp_allocations r) | Unresolved _ \<Rightarrow> []))
     else Ok [])"

definition visit_exchange ::
    "provider_rule \<Rightarrow> provider_lineage_index \<Rightarrow> closure_tables \<Rightarrow> i32 \<Rightarrow> closure_state \<Rightarrow> parsed_exchange \<Rightarrow>
       (selection_error, closure_state) result" where
  "visit_exchange rule lineage t current st ex =
     (if px_allocation_state ex = AllocInvalid
      then (case process_meta_for_idx (ct_metas t) current of
              None \<Rightarrow> Err (MissingClosureMeta current)
            | Some m \<Rightarrow> Err (ClosureAllocationInvalid (pm_process_id m) (pm_process_version m) (px_exchange_id ex)))
      else case nonzero_residual_coefficient ex of
             None \<Rightarrow> Ok st
           | Some residual \<Rightarrow>
               and_then (map_err ClosureLinking (closure_providers rule lineage t ex residual)) (\<lambda>next.
               Ok (foldl select_process st next)))"

definition visit_process ::
    "provider_rule \<Rightarrow> provider_lineage_index \<Rightarrow> closure_tables \<Rightarrow> i32 \<Rightarrow> closure_state \<Rightarrow>
       (selection_error, closure_state) result" where
  "visit_process rule lineage t current st =
     and_then (ok_or (usize_try_from current) NegativeProcessIdx) (\<lambda>k.
     if k < length (ct_residuals t)
     then fold_result (visit_exchange rule lineage t current) st (ct_residuals t ! k)
     else Err (MissingExchanges current))"

definition select_root ::
    "closure_tables \<Rightarrow> closure_state \<Rightarrow> request_root_process \<Rightarrow> (selection_error, closure_state) result" where
  "select_root t st r =
     and_then (ok_or (map_of (ct_lookup t) (root_key r)) (RootNotFound r)) (\<lambda>idx. Ok (select_process st idx))"

text \<open>
  Every provider the gate lets through has metadata, so the closure only ever selects indices of
  candidates and the work list ends.
\<close>

lemma meta_for_idx_range: "process_meta_for_idx metas i = Some m \<Longrightarrow> i \<in> {0..<int (length metas)}"
  by (cases "0 \<le> i") (auto simp: process_meta_for_idx_def usize_try_from_def Option.bind_eq_Some_conv split: if_splits)

lemma gate_providers_range:
  assumes "apply_provider_lineage_gate providers metas lineage = Ok gate"
  shows "set (gate_providers gate) \<subseteq> {0..<int (length metas)}"
proof -
  from assms obtain ids where ids: "provider_identities metas providers = Ok ids"
    unfolding apply_provider_lineage_gate_def and_then_Ok_iff by fast
  have "set providers \<subseteq> {0..<int (length metas)}"
    using ids meta_for_idx_range unfolding provider_identities_def traverse_Ok_iff
    by (fastforce simp: list_all2_conv_all_nth in_set_conv_nth and_then_Ok_iff)
  moreover have "set (gate_providers gate) \<subseteq> set providers"
  proof -
    have "set providers = fst ` set ids" using provider_identities_fst [OF ids] by (metis set_map)
    moreover have "a \<in> fst ` set ids" if "filter (\<lambda>e. snd e \<in> set (selected_results lineage)) ids = [(a, b)]" for a b
      using filter_is_subset [of "\<lambda>e. snd e \<in> set (selected_results lineage)" ids] that by force
    ultimately show ?thesis
      using assms unfolding apply_provider_lineage_gate_def ids Let_def split_beta and_then_simps
      by (auto split: if_splits list.splits)
  qed
  ultimately show ?thesis by blast
qed

lemma closure_providers_range:
  assumes "closure_providers rule lineage t ex residual = Ok ps"
  shows "set ps \<subseteq> {0..<int (length (ct_metas t))}"
proof -
  from assms obtain gate where gate: "apply_provider_lineage_gate
      (eligible_balancing_process_indices (map_of (ct_ports t) (flow_link_identity_of ex)) residual) (ct_metas t) lineage = Ok gate"
    and ps: "ps = gate_providers gate \<or> ps = [] \<or>
      (\<exists>r. resolve_multi_provider rule ex (gate_providers gate) (ct_metas t) = Ok (Resolved r) \<and> ps = map fst (mp_allocations r))"
    unfolding closure_providers_def and_then_Ok_iff Let_def
    by (auto simp: and_then_Ok_iff split: if_splits) (metis multi_provider_decision.case multi_provider_decision.exhaust)
  from ps gate_providers_range [OF gate] resolved_allocations_ok(2) show ?thesis by fastforce
qed

lemma select_process_potential:
  assumes "i \<in> V" and "finite V"
  shows "card (V - set (fst (select_process st i))) + length (snd (select_process st i)) =
    card (V - set (fst st)) + length (snd st)" and "length (snd st) \<le> length (snd (select_process st i))"
proof -
  show "card (V - set (fst (select_process st i))) + length (snd (select_process st i)) =
    card (V - set (fst st)) + length (snd st)"
  proof (cases "i \<in> set (fst st)")
    case False
    have "V - set (i # fst st) = V - set (fst st) - {i}" by auto
    moreover have "i \<in> V - set (fst st)" using assms(1) False by blast
    ultimately have "card (V - set (fst st)) = Suc (card (V - set (i # fst st)))"
      using assms(2) card_Suc_Diff1 [of "V - set (fst st)" i] by simp
    with False show ?thesis by (simp add: select_process_def)
  qed (simp add: select_process_def)
qed (simp add: select_process_def)

lemma select_all_potential:
  assumes "set is \<subseteq> V" and "finite V"
  shows "card (V - set (fst (foldl select_process st is))) + length (snd (foldl select_process st is)) =
    card (V - set (fst st)) + length (snd st) \<and> length (snd st) \<le> length (snd (foldl select_process st is))"
  using assms
proof (induction "is" arbitrary: st)
  case (Cons i "is")
  from Cons.IH [of "select_process st i"] Cons.prems select_process_potential [of i V st] show ?case by simp
qed simp

lemma visit_exchange_Ok:
  assumes "visit_exchange rule lineage t current st ex = Ok st'"
  obtains "st' = st"
  | residual ps where "nonzero_residual_coefficient ex = Some residual" "closure_providers rule lineage t ex residual = Ok ps"
      "st' = foldl select_process st ps" "set ps \<subseteq> {0..<int (length (ct_metas t))}"
proof (cases "nonzero_residual_coefficient ex")
  case None
  with assms that(1) show thesis by (simp add: visit_exchange_def split: if_splits option.splits)
next
  case (Some residual)
  with assms obtain ps where "closure_providers rule lineage t ex residual = Ok ps" "st' = foldl select_process st ps"
    by (auto simp: visit_exchange_def and_then_Ok_iff split: if_splits option.splits)
  with Some that(2) closure_providers_range show thesis by blast
qed

lemma visit_process_potential:
  assumes "visit_process rule lineage t current st = Ok st'"
  defines "V \<equiv> {0..<int (length (ct_metas t))}"
  shows "card (V - set (fst st')) + length (snd st') = card (V - set (fst st)) + length (snd st) \<and> length (snd st) \<le> length (snd st')"
proof -
  from assms(1) obtain k where "fold_result (visit_exchange rule lineage t current) st (ct_residuals t ! k) = Ok st'"
    by (auto simp: visit_process_def and_then_Ok_iff split: if_splits)
  then show ?thesis
  proof (rule fold_result_invariant)
    fix s s' ex
    assume "visit_exchange rule lineage t current s ex = Ok s'" and
      "card (V - set (fst s)) + length (snd s) = card (V - set (fst st)) + length (snd st) \<and> length (snd st) \<le> length (snd s)"
    then show "card (V - set (fst s')) + length (snd s') = card (V - set (fst st)) + length (snd st) \<and> length (snd st) \<le> length (snd s')"
      by (cases rule: visit_exchange_Ok) (use select_all_potential [of _ V s] in \<open>fastforce simp: V_def\<close>)+
  qed simp
qed

function closure_loop ::
    "provider_rule \<Rightarrow> provider_lineage_index \<Rightarrow> closure_tables \<Rightarrow> nat \<Rightarrow> closure_state \<Rightarrow>
       (selection_error, closure_state) result" where
  "closure_loop rule lineage t cursor st =
     (if cursor < length (snd st)
      then (case visit_process rule lineage t (snd st ! cursor) st of
              Inl err \<Rightarrow> Err err
            | Inr st' \<Rightarrow> closure_loop rule lineage t (Suc cursor) st')
      else Ok st)"
  by pat_completeness auto
termination
proof (relation "measure (\<lambda>(rule, lineage, t, cursor, st).
    card ({0..<int (length (ct_metas t))} - set (fst st)) + length (snd st) - cursor)")
  fix rule lineage t cursor st st'
  assume c: "cursor < length (snd (st :: closure_state))"
    and v: "visit_process rule lineage t (snd st ! cursor) st = Inr st'"
  from visit_process_potential [OF v] c
  show "((rule, lineage, t, Suc cursor, st'), rule, lineage, t, cursor, st) \<in> measure (\<lambda>(rule, lineage, t, cursor, st).
      card ({0..<int (length (ct_metas t))} - set (fst st)) + length (snd st) - cursor)"
    by simp
qed simp

declare closure_loop.simps [simp del]

definition selected_row :: "process_row list \<Rightarrow> i32 \<Rightarrow> (selection_error, process_row) result" where
  "selected_row rows idx =
     and_then (ok_or (usize_try_from idx) NegativeProcessIdx) (\<lambda>k.
     if k < length rows then Ok (rows ! k) else Err (SelectedOutOfBounds idx))"

definition resolve_process_selection_with_flow_versions ::
    "(string \<Rightarrow> uuid option) \<Rightarrow> (uuid \<Rightarrow> string) \<Rightarrow> (json_number \<Rightarrow> string) \<Rightarrow> (scope_hash_body \<Rightarrow> string) \<Rightarrow>
     process_row list \<Rightarrow> bool \<Rightarrow> i32 list \<Rightarrow> uuid option \<Rightarrow> request_root_process list \<Rightarrow> provider_rule \<Rightarrow> nat \<Rightarrow>
     (flow_link_identity \<Rightarrow> compiled_flow_space option) option \<Rightarrow> resolved_flow_metadata option \<Rightarrow>
     provider_lineage_index \<Rightarrow> (selection_error, resolved_process_selection) result" where
  "resolve_process_selection_with_flow_versions parse_uuid show_uuid show_number digest
     candidates all_states state_codes include_user_id roots rule limit spaces flow_meta lineage =
     (if roots = []
      then summarize_selection FilteredLibrary include_user_id []
             (compute_scope_hash digest all_states state_codes include_user_id roots limit rule)
             (if 0 < limit \<and> limit < length candidates then take limit candidates else candidates)
      else
        and_then (load_candidates parse_uuid show_uuid show_number spaces flow_meta (map root_key roots) candidates) (\<lambda>t.
        let normalized = normalize_request_roots roots in
        and_then (fold_result (select_root t) ([], []) normalized) (\<lambda>st0.
        and_then (closure_loop rule lineage t 0 st0) (\<lambda>st.
        and_then (traverse (selected_row candidates) (sort (fst st))) (\<lambda>rows.
        summarize_selection RequestRootsClosure include_user_id normalized
          (compute_scope_hash digest all_states state_codes include_user_id normalized 0 rule) rows)))))"

subsection \<open>The closure is reachability\<close>

definition links ::
    "provider_rule \<Rightarrow> provider_lineage_index \<Rightarrow> closure_tables \<Rightarrow> i32 \<Rightarrow> i32 \<Rightarrow> bool" where
  "links rule lineage t i j \<longleftrightarrow>
     0 \<le> i \<and> nat i < length (ct_residuals t) \<and>
     (\<exists>ex \<in> set (ct_residuals t ! nat i). \<exists>residual ps. nonzero_residual_coefficient ex = Some residual \<and>
        closure_providers rule lineage t ex residual = Ok ps \<and> j \<in> set ps)"

text \<open>The work list and the set hold the same processes, each once; the list only grows.\<close>

definition closure_state_ok :: "closure_state \<Rightarrow> bool" where
  "closure_state_ok st \<longleftrightarrow> set (fst st) = set (snd st) \<and> distinct (fst st)"

lemma select_process_ok:
  assumes "closure_state_ok st"
  shows "closure_state_ok (select_process st i)" and "set (snd (select_process st i)) = insert i (set (snd st))"
    and "\<exists>new. snd (select_process st i) = snd st @ new"
  using assms by (auto simp: closure_state_ok_def select_process_def)

lemma select_all_ok:
  assumes "closure_state_ok st"
  shows "closure_state_ok (foldl select_process st is) \<and> set (snd (foldl select_process st is)) = set (snd st) \<union> set is \<and>
    (\<exists>new. snd (foldl select_process st is) = snd st @ new)"
  using assms
proof (induction "is" arbitrary: st)
  case (Cons i "is")
  from Cons.IH [OF select_process_ok(1) [OF Cons.prems, of i]] select_process_ok(2,3) [OF Cons.prems, of i]
  show ?case by auto
qed simp

definition exchange_targets ::
    "provider_rule \<Rightarrow> provider_lineage_index \<Rightarrow> closure_tables \<Rightarrow> parsed_exchange \<Rightarrow> i32 set" where
  "exchange_targets rule lineage t ex =
     {j. \<exists>residual ps. nonzero_residual_coefficient ex = Some residual \<and>
        closure_providers rule lineage t ex residual = Ok ps \<and> j \<in> set ps}"

lemma visit_exchange_ok:
  assumes "visit_exchange rule lineage t current st ex = Ok st'" and "closure_state_ok st"
  shows "closure_state_ok st' \<and> set (snd st') = set (snd st) \<union> exchange_targets rule lineage t ex \<and>
    (\<exists>new. snd st' = snd st @ new)"
proof (cases "nonzero_residual_coefficient ex")
  case None
  with assms show ?thesis by (simp add: visit_exchange_def exchange_targets_def split: if_splits option.splits)
next
  case (Some residual)
  with assms(1) obtain ps where ps: "closure_providers rule lineage t ex residual = Ok ps" "st' = foldl select_process st ps"
    by (auto simp: visit_exchange_def and_then_Ok_iff split: if_splits option.splits)
  with Some select_all_ok [OF assms(2), of ps] show ?thesis by (simp add: exchange_targets_def)
qed

lemma visit_exchanges_ok:
  assumes "fold_result (visit_exchange rule lineage t current) st exs = Ok st'" and "closure_state_ok st"
  shows "closure_state_ok st' \<and> set (snd st') = set (snd st) \<union> (\<Union>ex \<in> set exs. exchange_targets rule lineage t ex) \<and>
    (\<exists>new. snd st' = snd st @ new)"
  using assms
proof (induction exs arbitrary: st)
  case (Cons ex exs)
  from Cons.prems(1) obtain s1 where s1: "visit_exchange rule lineage t current st ex = Ok s1"
      "fold_result (visit_exchange rule lineage t current) s1 exs = Ok st'"
    by (auto simp: and_then_Ok_iff)
  from visit_exchange_ok [OF s1(1) Cons.prems(2)] have a: "closure_state_ok s1"
      "set (snd s1) = set (snd st) \<union> exchange_targets rule lineage t ex" "\<exists>new. snd s1 = snd st @ new"
    by blast+
  from Cons.IH [OF s1(2) a(1)] a(2,3) show ?case by auto
qed simp

lemma visit_process_ok:
  assumes "visit_process rule lineage t current st = Ok st'" and "closure_state_ok st"
  shows "closure_state_ok st' \<and> set (snd st') = set (snd st) \<union> {j. links rule lineage t current j} \<and>
    (\<exists>new. snd st' = snd st @ new)"
proof -
  from assms(1) have c: "0 \<le> current" "nat current < length (ct_residuals t)"
    and f: "fold_result (visit_exchange rule lineage t current) st (ct_residuals t ! nat current) = Ok st'"
    by (auto simp: visit_process_def and_then_Ok_iff usize_try_from_def split: if_splits)
  have "{j. links rule lineage t current j} = (\<Union>ex \<in> set (ct_residuals t ! nat current). exchange_targets rule lineage t ex)"
    using c by (auto simp: links_def exchange_targets_def)
  with visit_exchanges_ok [OF f assms(2)] show ?thesis by simp
qed

lemma closure_loop_ok:
  assumes "closure_loop rule lineage t cursor st = Ok st'" and "closure_state_ok st"
    and "cursor \<le> length (snd st)"
    and "\<forall>k < cursor. \<forall>j. links rule lineage t (snd st ! k) j \<longrightarrow> j \<in> set (snd st)"
  shows "closure_state_ok st' \<and> set (snd st) \<subseteq> set (snd st') \<and>
    (\<forall>i \<in> set (snd st'). \<forall>j. links rule lineage t i j \<longrightarrow> j \<in> set (snd st')) \<and>
    (\<forall>j \<in> set (snd st'). \<exists>i \<in> set (snd st). (links rule lineage t)\<^sup>*\<^sup>* i j)"
  using assms
proof (induction rule lineage t cursor st rule: closure_loop.induct)
  case (1 rule lineage t cursor st)
  show ?case
  proof (cases "cursor < length (snd st)")
    case False
    with "1.prems" have "st' = st" "cursor = length (snd st)" by (simp_all add: closure_loop.simps)
    with "1.prems"(2,4) show ?thesis by (auto simp: in_set_conv_nth)
  next
    case True
    with "1.prems"(1) obtain s1 where v: "visit_process rule lineage t (snd st ! cursor) st = Ok s1"
      and r: "closure_loop rule lineage t (Suc cursor) s1 = Ok st'"
      by (subst (asm) closure_loop.simps) (auto split: sum.splits)
    from visit_process_ok [OF v "1.prems"(2)] obtain new where s1: "closure_state_ok s1"
        "set (snd s1) = set (snd st) \<union> {j. links rule lineage t (snd st ! cursor) j}" "snd s1 = snd st @ new"
      by blast
    have "\<forall>k < Suc cursor. \<forall>j. links rule lineage t (snd s1 ! k) j \<longrightarrow> j \<in> set (snd s1)"
    proof (intro allI impI)
      fix k j
      assume k: "k < Suc cursor" and l: "links rule lineage t (snd s1 ! k) j"
      have "snd s1 ! k = snd st ! k" using s1(3) True k by (simp add: nth_append)
      with k l "1.prems"(4) s1(2) show "j \<in> set (snd s1)" by (auto simp: less_Suc_eq)
    qed
    moreover have "Suc cursor \<le> length (snd s1)" using s1(3) True by simp
    ultimately have IH: "closure_state_ok st' \<and> set (snd s1) \<subseteq> set (snd st') \<and>
        (\<forall>i \<in> set (snd st'). \<forall>j. links rule lineage t i j \<longrightarrow> j \<in> set (snd st')) \<and>
        (\<forall>j \<in> set (snd st'). \<exists>i \<in> set (snd s1). (links rule lineage t)\<^sup>*\<^sup>* i j)"
      using "1.IH" [OF True v r s1(1)] by blast
    have reach: "\<exists>h \<in> set (snd st). (links rule lineage t)\<^sup>*\<^sup>* h i" if "i \<in> set (snd s1)" for i
    proof (cases "i \<in> set (snd st)")
      case False
      with that s1(2) have "links rule lineage t (snd st ! cursor) i" by blast
      with True show ?thesis by (meson nth_mem r_into_rtranclp)
    qed blast
    have "\<exists>h \<in> set (snd st). (links rule lineage t)\<^sup>*\<^sup>* h j" if "j \<in> set (snd st')" for j
    proof -
      from IH that obtain i where i: "i \<in> set (snd s1)" "(links rule lineage t)\<^sup>*\<^sup>* i j" by fast
      from reach [OF i(1)] obtain h where h: "h \<in> set (snd st)" "(links rule lineage t)\<^sup>*\<^sup>* h i" by fast
      from h(1) rtranclp_trans [OF h(2) i(2)] show ?thesis by fast
    qed
    moreover have "set (snd st) \<subseteq> set (snd st')" using IH s1(2) by blast
    ultimately show ?thesis using IH by blast
  qed
qed

lemma closed_contains_reachable:
  assumes "\<forall>i \<in> S. \<forall>j. R i j \<longrightarrow> j \<in> S" and "R\<^sup>*\<^sup>* i j" and "i \<in> S"
  shows "j \<in> S"
  using assms(2,3) by (induction rule: rtranclp_induct) (use assms(1) in blast)+

subsection \<open>The tables of the candidates\<close>

definition row_key :: "process_row \<Rightarrow> uuid \<times> string" where
  "row_key row = (row_id row, row_version row)"

definition tables_ok :: "process_row list \<Rightarrow> closure_tables \<Rightarrow> bool" where
  "tables_ok rows t \<longleftrightarrow>
     length (ct_metas t) = length rows \<and> length (ct_residuals t) = length rows \<and>
     (\<forall>k i. map_of (ct_lookup t) k = Some i \<longrightarrow> 0 \<le> i \<and> nat i < length rows \<and> row_key (rows ! nat i) = k) \<and>
     (\<forall>row \<in> set rows. map_of (ct_lookup t) (row_key row) \<noteq> None)"

lemma load_candidate_shape:
  assumes "load_candidate parse_uuid show_uuid show_number spaces flow_meta requested t (n, row) = Ok t'"
  shows "length (ct_metas t') = Suc (length (ct_metas t))" and "length (ct_residuals t') = Suc (length (ct_residuals t))"
    and "ct_lookup t' = AList.update (row_key row) (int n) (ct_lookup t)"
proof -
  from assms have "i32_try_from n = Some (int n)"
    by (auto simp: load_candidate_def Let_def and_then_Ok_iff i32_try_from_def split: if_splits)
  note step = assms [unfolded load_candidate_def Let_def fst_conv snd_conv this ok_or_simps and_then_simps]
  show "length (ct_metas t') = Suc (length (ct_metas t))" "length (ct_residuals t') = Suc (length (ct_residuals t))"
      "ct_lookup t' = AList.update (row_key row) (int n) (ct_lookup t)"
    using step by (auto simp: skip_process_def row_key_def and_then_Ok_iff split: sum.splits if_splits)
qed

lemma load_candidate_tables:
  assumes "load_candidate parse_uuid show_uuid show_number spaces flow_meta requested t (length rows, row) = Ok t'"
    and "tables_ok rows t"
  shows "tables_ok (rows @ [row]) t'"
  using load_candidate_shape [OF assms(1)] assms(2)
  by (auto simp: tables_ok_def update_conv nth_append less_SucI split: if_splits)

lemma load_candidates_tables:
  assumes "load_candidates parse_uuid show_uuid show_number spaces flow_meta requested rows = Ok t"
  shows "tables_ok rows t"
proof -
  have "tables_ok (before @ after) t'" if "tables_ok before t0"
    and "fold_result (load_candidate parse_uuid show_uuid show_number spaces flow_meta requested) t0
           (List.enumerate (length before) after) = Ok t'" for before after t0 t'
    using that
  proof (induction after arbitrary: before t0)
    case (Cons row after)
    from Cons.prems(2) obtain t1 where t1: "load_candidate parse_uuid show_uuid show_number spaces flow_meta requested t0
          (length before, row) = Ok t1"
        "fold_result (load_candidate parse_uuid show_uuid show_number spaces flow_meta requested) t1
           (List.enumerate (length (before @ [row])) after) = Ok t'"
      by (auto simp: and_then_Ok_iff)
    from Cons.IH [OF load_candidate_tables [OF t1(1) Cons.prems(1)] t1(2)] show ?case by simp
  qed simp
  from this [of "[]" empty_tables rows] assms show ?thesis
    by (auto simp: load_candidates_def and_then_Ok_iff tables_ok_def empty_tables_def)
qed

lemma select_roots_ok:
  assumes "fold_result (select_root t) st roots = Ok st'" and "closure_state_ok st"
  shows "closure_state_ok st' \<and> set (snd st') = set (snd st) \<union> {i. \<exists>r \<in> set roots. map_of (ct_lookup t) (root_key r) = Some i} \<and>
    (\<forall>r \<in> set roots. map_of (ct_lookup t) (root_key r) \<noteq> None)"
  using assms
proof (induction roots arbitrary: st)
  case (Cons r roots)
  from Cons.prems(1) obtain i where i: "map_of (ct_lookup t) (root_key r) = Some i"
      "fold_result (select_root t) (select_process st i) roots = Ok st'"
    by (auto simp: and_then_Ok_iff select_root_def [of t st])
  from Cons.IH [OF i(2) select_process_ok(1) [OF Cons.prems(2)]] select_process_ok(2) [OF Cons.prems(2), of i] i(1)
  show ?case by auto
qed simp

lemma sort_filter_upt:
  assumes "distinct xs" and "set xs = {i. 0 \<le> i \<and> nat i < n \<and> P i}"
  shows "sort xs = map int (filter (\<lambda>k. P (int k)) [0..<n])"
proof (rule sorted_distinct_set_unique)
  show "sorted (map int (filter (\<lambda>k. P (int k)) [0..<n]))"
    by (simp add: sorted_map sorted_wrt_filter)
  show "distinct (map int (filter (\<lambda>k. P (int k)) [0..<n]))" by (simp add: distinct_map)
  show "set (sort xs) = set (map int (filter (\<lambda>k. P (int k)) [0..<n]))"
    unfolding set_sort assms(2) by (auto simp: image_def)
qed (use assms in simp_all)

lemma selected_rows_Ok:
  assumes "traverse (selected_row rows) (map int ks) = Ok out"
  shows "out = map (\<lambda>k. rows ! k) ks"
  using assms by (induction ks arbitrary: out) (auto simp: selected_row_def usize_try_from_def and_then_Ok_iff split: if_splits)

lemma resolved_versions_state:
  assumes "resolve_requested_flow_versions parsed m = Ok exchanges" and "\<forall>px \<in> set parsed. px_allocation_state px \<noteq> AllocInvalid"
  shows "\<forall>px \<in> set exchanges. px_allocation_state px \<noteq> AllocInvalid"
proof -
  have "px_allocation_state y = px_allocation_state x" if "resolve_flow_version m [] x = Ok y" for x y
    using that by (auto simp: resolve_flow_version_def and_then_Ok_iff split: if_splits)
  with assms show ?thesis
    unfolding resolve_requested_flow_versions_def resolve_requested_flow_versions_with_available_def traverse_Ok_iff
    by (fastforce simp: list_all2_conv_all_nth in_set_conv_nth)
qed

definition residuals_valid :: "closure_tables \<Rightarrow> bool" where
  "residuals_valid t \<longleftrightarrow> (\<forall>exs \<in> set (ct_residuals t). \<forall>ex \<in> set exs. px_allocation_state ex \<noteq> AllocInvalid)"

lemma load_candidate_valid:
  assumes "load_candidate parse_uuid show_uuid show_number spaces flow_meta requested t (n, row) = Ok t'"
    and "residuals_valid t"
  shows "residuals_valid t'"
proof -
  let ?t = "\<lambda>idx. t\<lparr>ct_lookup := AList.update (row_id row, row_version row) idx (ct_lookup t)\<rparr>"
  have skip: "residuals_valid (skip_process meta (?t idx))" for meta idx
    using assms(2) by (auto simp: residuals_valid_def skip_process_def)
  from assms(1) obtain idx where step: "(case parse_process_chunk parse_uuid show_uuid show_number row idx of
        Inl err \<Rightarrow> if (row_id row, row_version row) \<notin> set requested then Ok (skip_process (process_meta_of_row row idx) (?t idx))
          else Err (RootUnreadable err)
      | Inr (meta, parsed, _, _, _) \<Rightarrow>
          (case (case flow_meta of None \<Rightarrow> Ok parsed | Some m \<Rightarrow> resolve_requested_flow_versions parsed m) of
             Inl err \<Rightarrow> if (row_id row, row_version row) \<in> set requested then Err (RootFlowUnresolved err)
               else Ok (skip_process meta (?t idx))
           | Inr exchanges \<Rightarrow>
               and_then (fold_result (add_reference_port spaces) (ct_ports (?t idx)) exchanges) (\<lambda>ports.
               Ok ((?t idx)\<lparr>ct_ports := ports, ct_metas := ct_metas (?t idx) @ [meta],
                     ct_residuals := ct_residuals (?t idx) @
                       [filter (\<lambda>ex. \<not> px_is_reference_exchange ex \<and> is_technosphere spaces ex) exchanges]\<rparr>)))) = Ok t'"
    unfolding load_candidate_def Let_def and_then_Ok_iff fst_conv snd_conv by fast
  show ?thesis
  proof (cases "parse_process_chunk parse_uuid show_uuid show_number row idx")
    case (Inl err)
    with step skip show ?thesis by (auto split: if_splits)
  next
    case (Inr out)
    obtain meta parsed flows rs as where out: "out = (meta, parsed, flows, rs, as)" by (cases out)
    have valid: "\<forall>px \<in> set parsed. px_allocation_state px \<noteq> AllocInvalid"
      using parsed_process_facts [OF Inr [unfolded out]] by (auto simp: exchange_ok_def)
    show ?thesis
    proof (cases "case flow_meta of None \<Rightarrow> Ok parsed | Some m \<Rightarrow> resolve_requested_flow_versions parsed m")
      case (Inl err)
      with step skip Inr out show ?thesis by (auto split: if_splits)
    next
      case r: (Inr exchanges)
      then have "\<forall>px \<in> set exchanges. px_allocation_state px \<noteq> AllocInvalid"
        using valid resolved_versions_state [OF _ valid] by (auto split: option.splits)
      with step Inr out r assms(2) show ?thesis by (auto simp: residuals_valid_def and_then_Ok_iff)
    qed
  qed
qed

lemma load_candidates_valid:
  assumes "load_candidates parse_uuid show_uuid show_number spaces flow_meta requested rows = Ok t"
  shows "residuals_valid t"
proof -
  from assms obtain t0 where t0: "fold_result (load_candidate parse_uuid show_uuid show_number spaces flow_meta requested)
      empty_tables (List.enumerate 0 rows) = Ok t0" and t: "ct_residuals t = ct_residuals t0"
    by (auto simp: load_candidates_def and_then_Ok_iff)
  have "residuals_valid empty_tables" by (simp add: residuals_valid_def empty_tables_def)
  with t0 have "residuals_valid t0"
    by (rule fold_result_invariant) (auto intro: load_candidate_valid)
  with t show ?thesis by (simp add: residuals_valid_def)
qed

subsection \<open>Results of a selection\<close>

definition root_index :: "closure_tables \<Rightarrow> request_root_process list \<Rightarrow> i32 \<Rightarrow> bool" where
  "root_index t roots i \<longleftrightarrow>
     (\<exists>r \<in> set roots. map_of (ct_lookup t) (rr_process_id r, trim (rr_process_version r)) = Some i)"

lemma normalized_root_keys:
  "root_key ` set (normalize_request_roots roots) = (\<lambda>r. (rr_process_id r, trim (rr_process_version r))) ` set roots"
  by (simp add: normalize_request_roots_def sort_by_key_def root_key_def request_root_new_def image_image)

lemma root_index_normalized:
  "root_index t roots i \<longleftrightarrow> (\<exists>r \<in> set (normalize_request_roots roots). map_of (ct_lookup t) (root_key r) = Some i)"
proof -
  have "root_index t roots i \<longleftrightarrow> (\<exists>k \<in> root_key ` set (normalize_request_roots roots). map_of (ct_lookup t) k = Some i)"
    unfolding normalized_root_keys by (auto simp: root_index_def)
  then show ?thesis by auto
qed

lemma summarize_selection_Ok:
  assumes "summarize_selection mode user roots hash rows = Ok sel"
  shows "sel_processes sel = rows" and "sc_selection_mode (sel_scope_summary sel) = mode" and "sc_roots (sel_scope_summary sel) = roots"
    and "sc_processes (sel_scope_summary sel) = map (scope_process user) rows"
    and "sc_public_process_count (sel_scope_summary sel) + sc_private_process_count (sel_scope_summary sel) = int (length rows)"
proof -
  have "length (filter (\<lambda>p. rs_partition p = Public) ps) + length (filter (\<lambda>p. rs_partition p = Private) ps) = length ps" for ps
    by (induction ps) (auto, metis scope_process_partition.exhaust)
  from this [of "map (scope_process user) rows"] assms
  show "sel_processes sel = rows" "sc_selection_mode (sel_scope_summary sel) = mode" "sc_roots (sel_scope_summary sel) = roots"
      "sc_processes (sel_scope_summary sel) = map (scope_process user) rows"
      "sc_public_process_count (sel_scope_summary sel) + sc_private_process_count (sel_scope_summary sel) = int (length rows)"
    by (auto simp: summarize_selection_def Let_def and_then_Ok_iff i64_count_def split: if_splits)
qed

lemma closure_result:
  assumes tables: "tables_ok rows t"
    and roots: "fold_result (select_root t) ([], []) (normalize_request_roots roots) = Ok st0"
    and loop: "closure_loop rule lineage t 0 st0 = Ok st"
  shows "sort (fst st) = map int (filter (\<lambda>k. \<exists>i. root_index t roots i \<and> (links rule lineage t)\<^sup>*\<^sup>* i (int k)) [0..<length rows])"
    and "\<forall>i. root_index t roots i \<longrightarrow> i \<in> set (fst st)"
proof -
  from select_roots_ok [OF roots] have st0: "closure_state_ok st0" "set (snd st0) = {i. root_index t roots i}"
    by (auto simp: closure_state_ok_def root_index_normalized)
  from closure_loop_ok [OF loop st0(1)] have st: "closure_state_ok st" "set (snd st0) \<subseteq> set (snd st)"
      "\<forall>i \<in> set (snd st). \<forall>j. links rule lineage t i j \<longrightarrow> j \<in> set (snd st)"
      "\<forall>j \<in> set (snd st). \<exists>i \<in> set (snd st0). (links rule lineage t)\<^sup>*\<^sup>* i j"
    by simp_all
  have mem: "j \<in> set (fst st) \<longleftrightarrow> (\<exists>i. root_index t roots i \<and> (links rule lineage t)\<^sup>*\<^sup>* i j)" for j
  proof -
    have "set (fst st) = set (snd st)" using st(1) by (simp add: closure_state_ok_def)
    moreover have "j \<in> set (snd st)" if "root_index t roots i" "(links rule lineage t)\<^sup>*\<^sup>* i j" for i
      using closed_contains_reachable [OF st(3) that(2)] that(1) st(2) st0(2) by fast
    moreover have "\<exists>i. root_index t roots i \<and> (links rule lineage t)\<^sup>*\<^sup>* i j" if "j \<in> set (snd st)"
      using st(4) that st0(2) by fast
    ultimately show ?thesis by fast
  qed
  have range: "0 \<le> j \<and> nat j < length rows" if "(links rule lineage t)\<^sup>*\<^sup>* i j" "root_index t roots i" for i j
    using that
  proof (induction rule: rtranclp_induct)
    case base
    with tables show ?case by (auto simp: tables_ok_def root_index_def)
  next
    case (step j k)
    from step.hyps(2) obtain ex residual ps where "closure_providers rule lineage t ex residual = Ok ps" "k \<in> set ps"
      by (auto simp: links_def)
    with closure_providers_range have "k \<in> {0..<int (length (ct_metas t))}" by blast
    with tables show ?case by (simp add: tables_ok_def nat_less_iff)
  qed
  show "sort (fst st) = map int (filter (\<lambda>k. \<exists>i. root_index t roots i \<and> (links rule lineage t)\<^sup>*\<^sup>* i (int k)) [0..<length rows])"
  proof (rule sort_filter_upt)
    show "distinct (fst st)" using st(1) by (simp add: closure_state_ok_def)
    show "set (fst st) = {j. 0 \<le> j \<and> nat j < length rows \<and> (\<exists>i. root_index t roots i \<and> (links rule lineage t)\<^sup>*\<^sup>* i j)}"
      using mem range by fast
  qed
  show "\<forall>i. root_index t roots i \<longrightarrow> i \<in> set (fst st)" using mem by blast
qed

lemma visit_process_total:
  assumes "tables_ok rows t" and "residuals_valid t" and "0 \<le> i" and "nat i < length rows"
    and "\<forall>exs \<in> set (ct_residuals t). \<forall>ex \<in> set exs. \<forall>c. nonzero_residual_coefficient ex = Some c \<longrightarrow>
           (\<exists>ps. closure_providers rule lineage t ex c = Ok ps)"
  shows "\<exists>st'. visit_process rule lineage t i st = Ok st'"
proof -
  let ?exs = "ct_residuals t ! nat i"
  have exs: "?exs \<in> set (ct_residuals t)" using assms(1,4) by (simp add: tables_ok_def)
  have "\<exists>s'. visit_exchange rule lineage t i s ex = Ok s' \<and> True" if ex: "ex \<in> set ?exs" for s ex
  proof (cases "nonzero_residual_coefficient ex")
    case None
    with ex exs assms(2) show ?thesis by (auto simp: visit_exchange_def residuals_valid_def)
  next
    case (Some c)
    with ex exs assms(5) obtain ps where "closure_providers rule lineage t ex c = Ok ps" by fast
    with Some ex exs assms(2) show ?thesis by (auto simp: visit_exchange_def residuals_valid_def map_err_def)
  qed
  then have "\<exists>s'. fold_result (visit_exchange rule lineage t i) st ?exs = Ok s' \<and> True"
    by (intro fold_result_total) auto
  with assms(1,3,4) show ?thesis by (simp add: visit_process_def usize_try_from_def tables_ok_def)
qed

lemma closure_loop_total:
  assumes "tables_ok rows t" and "residuals_valid t"
    and "\<forall>exs \<in> set (ct_residuals t). \<forall>ex \<in> set exs. \<forall>c. nonzero_residual_coefficient ex = Some c \<longrightarrow>
           (\<exists>ps. closure_providers rule lineage t ex c = Ok ps)"
    and "closure_state_ok st" and "set (snd st) \<subseteq> {0..<int (length rows)}"
  shows "\<exists>st'. closure_loop rule lineage t cursor st = Ok st'"
  using assms
proof (induction rule lineage t cursor st rule: closure_loop.induct)
  case (1 rule lineage t cursor st)
  show ?case
  proof (cases "cursor < length (snd st)")
    case True
    then have "snd st ! cursor \<in> {0..<int (length rows)}" using "1.prems"(5) nth_mem by blast
    then have i: "0 \<le> snd st ! cursor" "nat (snd st ! cursor) < length rows" by (simp_all add: nat_less_iff)
    from visit_process_total [OF "1.prems"(1,2) i "1.prems"(3)] obtain s1
      where v: "visit_process rule lineage t (snd st ! cursor) st = Ok s1" by blast
    from visit_process_ok [OF v "1.prems"(4)] have s1: "closure_state_ok s1"
        "set (snd s1) = set (snd st) \<union> {j. links rule lineage t (snd st ! cursor) j}" by blast+
    have "{j. links rule lineage t (snd st ! cursor) j} \<subseteq> {0..<int (length rows)}"
      using closure_providers_range [of rule lineage t] "1.prems"(1) unfolding links_def tables_ok_def by fastforce
    with s1(2) "1.prems"(5) have "set (snd s1) \<subseteq> {0..<int (length rows)}" by blast
    from "1.IH" [OF True v "1.prems"(1-3) s1(1) this] v True show ?thesis by (subst closure_loop.simps) simp
  qed (simp add: closure_loop.simps)
qed

lemma select_roots_total:
  assumes "\<forall>r \<in> set roots. map_of (ct_lookup t) (root_key r) \<noteq> None"
  shows "\<exists>st'. fold_result (select_root t) st roots = Ok st'"
  using assms
proof (induction roots arbitrary: st)
  case (Cons r roots)
  then obtain i where "map_of (ct_lookup t) (root_key r) = Some i" by auto
  with Cons.IH [of "select_process st i"] Cons.prems show ?case by (simp add: select_root_def [of t st])
qed simp

lemma selected_rows_total:
  assumes "\<forall>k \<in> set ks. k < length rows"
  shows "traverse (selected_row rows) (map int ks) = Ok (map (\<lambda>k. rows ! k) ks)"
  using assms by (induction ks) (auto simp: selected_row_def usize_try_from_def)

lemma summarize_selection_total:
  assumes "length rows < 2 ^ 63"
  shows "\<exists>sel. summarize_selection mode user roots hash rows = Ok sel"
proof -
  have "length (filter P (map (scope_process user) rows)) < 2 ^ 63" for P
    by (rule le_less_trans [OF length_filter_le]) (simp only: length_map assms)
  then show ?thesis by (simp add: summarize_selection_def Let_def i64_count_def)
qed

subsection \<open>Example selections\<close>

text \<open>A library of one process, requested with a blank before its version, and one link.\<close>

definition unit_root :: request_root_process where
  "unit_root = \<lparr>rr_process_id = 1, rr_process_version = '' 1''\<rparr>"

definition unit_tables :: closure_tables where
  "unit_tables = \<lparr>ct_metas = [process_meta_of_row unit_process 0], ct_residuals = [[]], ct_ports = [],
     ct_lookup = [((1, ''1''), 0)]\<rparr>"

lemma unit_row: "row_id unit_process = 1" "row_version unit_process = ''1''" by (simp_all add: unit_process_def)

lemma unit_load:
  "load_candidates (\<lambda>_. Some 7) (\<lambda>_. ''1'') (\<lambda>_. ''0'') (Some (\<lambda>_. None)) None (map root_key [unit_root]) [unit_process] = Ok unit_tables"
proof -
  obtain px flows rs as where "parse_process_chunk (\<lambda>_. Some 7) (\<lambda>_. ''1'') (\<lambda>_. ''0'') unit_process 0 =
      Ok (process_meta_of_row unit_process 0, [px], flows, rs, as)"
    using unit_chunk by blast
  then show ?thesis
    by (simp add: load_candidates_def load_candidate_def Let_def i32_try_from_def i32_defs unit_row add_reference_port_def is_technosphere_def
       empty_tables_def unit_tables_def)
qed

lemma unit_trim: "trim '' 1'' = ''1''" by code_simp

abbreviation unit_selection :: "(selection_error, resolved_process_selection) result" where
  "unit_selection \<equiv> resolve_process_selection_with_flow_versions (\<lambda>_. Some 7) (\<lambda>_. ''1'') (\<lambda>_. ''0'') (\<lambda>_. ''h'')
     [unit_process] True [] None [unit_root] SplitEqual 0 (Some (\<lambda>_. None)) None no_lineage"

lemma unit_selection_runs: "\<exists>sel. unit_selection = Ok sel"
  unfolding resolve_process_selection_with_flow_versions_def unit_load
  by (simp add: normalize_request_roots_def sort_by_key_def request_root_new_def unit_root_def unit_trim root_key_def select_root_def select_process_def unit_tables_def
     closure_loop.simps visit_process_def usize_try_from_def selected_row_def summarize_selection_def Let_def i64_count_def scope_process_def)

definition link_tables :: closure_tables where
  "link_tables = \<lparr>ct_metas = link_metas, ct_residuals = [[link_exchange], [], []],
     ct_ports = [(\<lparr>fl_flow_id = 7, fl_flow_version = ''1''\<rparr>, [link_port])], ct_lookup = []\<rparr>"

subsection \<open>Properties\<close>

text \<open>
  C8. With requested roots, the selected processes are exactly the candidates that can be
  reached from the roots along the links of the provider rule, in the order of the candidates.
  Every requested root is among them, whatever white space surrounds its version, and the public
  and private processes of the summary add up to all of them.
\<close>

theorem closure_selection_is_reachability:
  assumes "roots \<noteq> []"
    and "load_candidates parse_uuid show_uuid show_number spaces flow_meta (map root_key roots) candidates = Ok t"
    and "resolve_process_selection_with_flow_versions parse_uuid show_uuid show_number digest
           candidates all_states state_codes user roots rule limit spaces flow_meta lineage = Ok sel"
  shows "sel_processes sel = map (\<lambda>k. candidates ! k)
      (filter (\<lambda>k. \<exists>i. root_index t roots i \<and> (links rule lineage t)\<^sup>*\<^sup>* i (int k)) [0..<length candidates]) \<and>
    (\<forall>r \<in> set roots. \<exists>row \<in> set (sel_processes sel). row_key row = (rr_process_id r, trim (rr_process_version r))) \<and>
    sc_public_process_count (sel_scope_summary sel) + sc_private_process_count (sel_scope_summary sel) =
      int (length (sel_processes sel))"
proof -
  from assms(1,3) obtain st0 st rows where roots: "fold_result (select_root t) ([], []) (normalize_request_roots roots) = Ok st0"
      and loop: "closure_loop rule lineage t 0 st0 = Ok st"
      and rows: "traverse (selected_row candidates) (sort (fst st)) = Ok rows"
      and sel: "summarize_selection RequestRootsClosure user (normalize_request_roots roots)
          (compute_scope_hash digest all_states state_codes user (normalize_request_roots roots) 0 rule) rows = Ok sel"
    unfolding resolve_process_selection_with_flow_versions_def assms(2) Let_def and_then_Ok_iff and_then_simps if_not_P [OF assms(1)]
    by fast
  note tables = load_candidates_tables [OF assms(2)]
  note result = closure_result [OF tables roots loop]
  let ?ks = "filter (\<lambda>k. \<exists>i. root_index t roots i \<and> (links rule lineage t)\<^sup>*\<^sup>* i (int k)) [0..<length candidates]"
  have out: "sel_processes sel = map (\<lambda>k. candidates ! k) ?ks"
    using selected_rows_Ok [OF rows [unfolded result(1)]] summarize_selection_Ok(1) [OF sel] by simp
  have "\<exists>row \<in> set (sel_processes sel). row_key row = (rr_process_id r, trim (rr_process_version r))" if r: "r \<in> set roots" for r
  proof -
    have "\<forall>k \<in> root_key ` set (normalize_request_roots roots). map_of (ct_lookup t) k \<noteq> None"
      using select_roots_ok [OF roots] by (simp add: closure_state_ok_def)
    with r obtain i where i: "map_of (ct_lookup t) (rr_process_id r, trim (rr_process_version r)) = Some i"
      unfolding normalized_root_keys by blast
    with tables have row: "0 \<le> i" "nat i < length candidates" "row_key (candidates ! nat i) = (rr_process_id r, trim (rr_process_version r))"
      by (simp_all add: tables_ok_def)
    have "root_index t roots i" using i r by (auto simp: root_index_def)
    with row(1,2) have "nat i \<in> set ?ks" by auto
    then have "candidates ! nat i \<in> set (sel_processes sel)" unfolding out set_map by (rule imageI)
    with row(3) show ?thesis by (rule bexI)
  qed
  with out summarize_selection_Ok(1,5) [OF sel] show ?thesis by simp
qed

theorem closure_selection_is_reachability_witness:
  "\<exists>sel. unit_selection = Ok sel \<and> (\<exists>row \<in> set (sel_processes sel). row_key row = (1, ''1''))"
proof -
  obtain sel where sel: "unit_selection = Ok sel" using unit_selection_runs by blast
  have "\<forall>r \<in> set [unit_root]. \<exists>row \<in> set (sel_processes sel). row_key row = (rr_process_id r, trim (rr_process_version r))"
    using closure_selection_is_reachability [OF _ unit_load sel] by blast
  with sel show ?thesis by (simp add: unit_root_def unit_trim)
qed

text \<open>
  C35. When the candidates can be read and the provider rule fails on none of their exchanges,
  resolving a selection with roots succeeds exactly when every requested root is one of the
  candidates; the work list always ends.
\<close>

theorem closure_selection_succeeds:
  assumes "roots \<noteq> []" and "length candidates < 2 ^ 63"
    and "load_candidates parse_uuid show_uuid show_number spaces flow_meta (map root_key roots) candidates = Ok t"
    and "\<forall>exs \<in> set (ct_residuals t). \<forall>ex \<in> set exs. \<forall>c. nonzero_residual_coefficient ex = Some c \<longrightarrow>
           (\<exists>ps. closure_providers rule lineage t ex c = Ok ps)"
  shows "(\<exists>sel. resolve_process_selection_with_flow_versions parse_uuid show_uuid show_number digest
            candidates all_states state_codes user roots rule limit spaces flow_meta lineage = Ok sel) \<longleftrightarrow>
    (\<forall>r \<in> set roots. \<exists>row \<in> set candidates. row_key row = (rr_process_id r, trim (rr_process_version r)))"
    (is "(\<exists>sel. ?run = Ok sel) \<longleftrightarrow> ?found")
proof -
  note tables = load_candidates_tables [OF assms(3)]
  have run: "?run = and_then (fold_result (select_root t) ([], []) (normalize_request_roots roots)) (\<lambda>st0.
        and_then (closure_loop rule lineage t 0 st0) (\<lambda>st.
        and_then (traverse (selected_row candidates) (sort (fst st))) (\<lambda>rows.
        summarize_selection RequestRootsClosure user (normalize_request_roots roots)
          (compute_scope_hash digest all_states state_codes user (normalize_request_roots roots) 0 rule) rows)))"
    unfolding resolve_process_selection_with_flow_versions_def assms(3) Let_def and_then_simps if_not_P [OF assms(1)] ..
  have "?found \<longleftrightarrow> (\<forall>k \<in> root_key ` set (normalize_request_roots roots). map_of (ct_lookup t) k \<noteq> None)"
    unfolding normalized_root_keys ball_simps
  proof (intro ball_cong refl iffI)
    fix r
    assume "\<exists>row \<in> set candidates. row_key row = (rr_process_id r, trim (rr_process_version r))"
    with tables show "map_of (ct_lookup t) (rr_process_id r, trim (rr_process_version r)) \<noteq> None"
      unfolding tables_ok_def by metis
  next
    fix r
    assume "map_of (ct_lookup t) (rr_process_id r, trim (rr_process_version r)) \<noteq> None"
    then obtain i where "map_of (ct_lookup t) (rr_process_id r, trim (rr_process_version r)) = Some i" by blast
    with tables have "nat i < length candidates" "row_key (candidates ! nat i) = (rr_process_id r, trim (rr_process_version r))"
      unfolding tables_ok_def by blast+
    then show "\<exists>row \<in> set candidates. row_key row = (rr_process_id r, trim (rr_process_version r))" by (meson nth_mem)
  qed
  then have found: "?found \<longleftrightarrow> (\<forall>r \<in> set (normalize_request_roots roots). map_of (ct_lookup t) (root_key r) \<noteq> None)" by simp
  show ?thesis
  proof
    assume "\<exists>sel. ?run = Ok sel"
    then obtain st0 where "fold_result (select_root t) ([], []) (normalize_request_roots roots) = Ok st0"
      unfolding run and_then_Ok_iff by fast
    from select_roots_ok [OF this] show ?found unfolding found by (simp add: closure_state_ok_def)
  next
    assume ?found
    with select_roots_total found obtain st0 where st0: "fold_result (select_root t) ([], []) (normalize_request_roots roots) = Ok st0"
      by blast
    from select_roots_ok [OF st0] have ok: "closure_state_ok st0" and idx: "set (snd st0) = {i. root_index t roots i}"
      by (auto simp: closure_state_ok_def root_index_normalized)
    have "set (snd st0) \<subseteq> {0..<int (length candidates)}"
      unfolding idx using tables by (force simp: tables_ok_def root_index_def nat_less_iff)
    from closure_loop_total [OF tables load_candidates_valid [OF assms(3)] assms(4) ok this]
    obtain st where st: "closure_loop rule lineage t 0 st0 = Ok st" by blast
    let ?ks = "filter (\<lambda>k. \<exists>i. root_index t roots i \<and> (links rule lineage t)\<^sup>*\<^sup>* i (int k)) [0..<length candidates]"
    have rows: "traverse (selected_row candidates) (sort (fst st)) = Ok (map (\<lambda>k. candidates ! k) ?ks)"
      unfolding closure_result(1) [OF tables st0 st] by (rule selected_rows_total) simp
    have "length (map (\<lambda>k. candidates ! k) ?ks) < 2 ^ 63"
      unfolding length_map by (rule le_less_trans [OF length_filter_le]) (simp only: length_upt diff_zero assms(2))
    from summarize_selection_total [OF this] show "\<exists>sel. ?run = Ok sel"
      unfolding run st0 and_then_simps st rows by blast
  qed
qed

theorem closure_selection_succeeds_witness: "\<exists>sel. unit_selection = Ok sel"
proof -
  have "\<forall>exs \<in> set (ct_residuals unit_tables). \<forall>ex \<in> set exs. \<forall>c. nonzero_residual_coefficient ex = Some c \<longrightarrow>
      (\<exists>ps. closure_providers SplitEqual no_lineage unit_tables ex c = Ok ps)"
    by (simp add: unit_tables_def)
  from closure_selection_succeeds [OF _ _ unit_load this] show ?thesis
    by (simp add: unit_root_def unit_trim row_key_def unit_row)
qed

subsection \<open>The closure and the linker\<close>

text \<open>
  \<open>decided_link rule lineage t anchor stats i j\<close>: run on the tables \<open>t\<close>, the linker decides
  for some non-reference exchange of process \<open>i\<close> to allocate it to process \<open>j\<close>.
\<close>

definition decided_link ::
    "provider_rule \<Rightarrow> provider_lineage_index \<Rightarrow> closure_tables \<Rightarrow> supply_region_anchor \<Rightarrow> compiled_matching_stats \<Rightarrow>
       i32 \<Rightarrow> i32 \<Rightarrow> bool" where
  "decided_link rule lineage t anchor stats i j \<longleftrightarrow>
     0 \<le> i \<and> nat i < length (ct_residuals t) \<and>
     (\<exists>ex \<in> set (ct_residuals t ! nat i). \<exists>residual gate stats' d.
        nonzero_residual_coefficient ex = Some residual \<and>
        apply_provider_lineage_gate
          (eligible_balancing_process_indices (map_of (ct_ports t) (flow_link_identity_of ex)) residual)
          (ct_metas t) lineage = Ok gate \<and>
        decide_providers rule ex (ct_metas t) anchor (map_of (ct_ports t) (flow_link_identity_of ex)) gate stats =
          Ok (stats', d) \<and>
        j \<in> cpl_provider_idx ` set (lk_allocations d))"

lemma closure_follows_linker:
  assumes "apply_provider_lineage_gate
      (eligible_balancing_process_indices (map_of (ct_ports t) (flow_link_identity_of ex)) residual) (ct_metas t) lineage = Ok gate"
    and "decide_providers rule ex (ct_metas t) anchor ports gate stats = Ok (stats', d)"
  shows "closure_providers rule lineage t ex residual = Ok (map cpl_provider_idx (lk_allocations d))"
proof -
  have none: "gate_providers gate = []" if "gate_unresolved gate"
    using assms(1) that unfolding apply_provider_lineage_gate_def and_then_Ok_iff Let_def split_beta
    by (auto split: if_splits list.splits)
  consider (unresolved) "gate_unresolved gate" | (none) "\<not> gate_unresolved gate" "gate_providers gate = []"
    | (one) p where "\<not> gate_unresolved gate" "gate_providers gate = [p]"
    | (many) p q ps where "\<not> gate_unresolved gate" "gate_providers gate = p # q # ps"
    by (cases "gate_providers gate" rule: remdups_adj.cases) blast+
  then show ?thesis
  proof cases
    case many
    with assms(2) obtain decision where dec: "resolve_multi_provider rule ex (gate_providers gate) (ct_metas t) = Ok decision"
      by (auto simp: decide_providers_def Let_def and_then_Ok_iff)
    have "(case decision of Resolved r \<Rightarrow> map fst (mp_allocations r) | Unresolved _ \<Rightarrow> []) = map cpl_provider_idx (lk_allocations d)"
      using assms(2) many dec
      by (auto simp: decide_providers_def Let_def and_then_Ok_iff unresolved_decision_def comp_def split: multi_provider_decision.splits)
    with many dec show ?thesis by (simp add: closure_providers_def assms(1) Let_def)
  qed (use assms none in \<open>auto simp: closure_providers_def decide_providers_def Let_def and_then_Ok_iff unresolved_decision_def\<close>)
qed

lemma meta_for_idx_total: "i \<in> {0..<int (length metas)} \<Longrightarrow> \<exists>m. process_meta_for_idx metas i = Some m"
  by (simp add: process_meta_for_idx_def usize_try_from_def nat_less_iff)

lemma best_tier_total:
  assumes "fst ` set allocations \<subseteq> {0..<int (length metas)}"
  shows "\<exists>tier. best_geography_tier_for_allocations region allocations metas = Ok tier"
proof -
  have "\<exists>s'. tier_step region metas s a = Ok s' \<and> True" if "a \<in> set allocations" for s a
  proof -
    have "fst a \<in> {0..<int (length metas)}" using that assms by blast
    from meta_for_idx_total [OF this] show ?thesis by (auto simp: tier_step_def Let_def)
  qed
  then have "\<exists>tier. fold_result (tier_step region metas) None allocations = Ok tier \<and> True"
    by (intro fold_result_total) auto
  then show ?thesis by (simp add: best_geography_tier_for_allocations_def)
qed

text \<open>Conversely, whenever the closure finds the providers of an exchange, the linker decides it.\<close>

lemma linker_follows_closure:
  assumes "closure_providers rule lineage t ex residual = Ok ps"
  shows "\<exists>gate stats' d. apply_provider_lineage_gate
      (eligible_balancing_process_indices (map_of (ct_ports t) (flow_link_identity_of ex)) residual) (ct_metas t) lineage = Ok gate \<and>
    decide_providers rule ex (ct_metas t) anchor ports gate stats = Ok (stats', d)"
proof -
  from assms obtain gate where gate: "apply_provider_lineage_gate
      (eligible_balancing_process_indices (map_of (ct_ports t) (flow_link_identity_of ex)) residual) (ct_metas t) lineage = Ok gate"
    unfolding closure_providers_def and_then_Ok_iff by blast
  note range = gate_providers_range [OF gate]
  consider (unresolved) "gate_unresolved gate" | (none) "\<not> gate_unresolved gate" "gate_providers gate = []"
    | (one) p where "\<not> gate_unresolved gate" "gate_providers gate = [p]"
    | (many) p q qs where "\<not> gate_unresolved gate" "gate_providers gate = p # q # qs"
    by (cases "gate_providers gate" rule: remdups_adj.cases) blast+
  then have "\<exists>stats' d. decide_providers rule ex (ct_metas t) anchor ports gate stats = Ok (stats', d)"
  proof cases
    case (one p)
    with range meta_for_idx_total [of p "ct_metas t"] show ?thesis by (auto simp: decide_providers_def)
  next
    case (many p q qs)
    with assms gate obtain decision where dec: "resolve_multi_provider rule ex (gate_providers gate) (ct_metas t) = Ok decision"
      by (auto simp: closure_providers_def and_then_Ok_iff)
    show ?thesis
    proof (cases decision)
      case (Resolved r)
      have "fst ` set (mp_allocations r) \<subseteq> {0..<int (length (ct_metas t))}"
        using resolved_allocations_ok(2) [OF dec [unfolded Resolved]] range by blast
      from best_tier_total [OF this, of "anchor_location anchor"] many dec Resolved show ?thesis
        by (cases "mp_geography_tier r") (auto simp: decide_providers_def Let_def)
    qed (use many dec in \<open>simp add: decide_providers_def Let_def\<close>)
  qed (auto simp: decide_providers_def)
  with gate show ?thesis by blast
qed

lemma links_decided: "links rule lineage t i j \<longleftrightarrow> decided_link rule lineage t anchor stats i j"
proof
  assume "links rule lineage t i j"
  then obtain ex residual ps where i: "0 \<le> i" "nat i < length (ct_residuals t)" and ex: "ex \<in> set (ct_residuals t ! nat i)"
      "nonzero_residual_coefficient ex = Some residual" and ps: "closure_providers rule lineage t ex residual = Ok ps" "j \<in> set ps"
    by (auto simp: links_def)
  let ?ports = "map_of (ct_ports t) (flow_link_identity_of ex)"
  from linker_follows_closure [OF ps(1), of anchor ?ports stats] obtain gate stats' d where
      gate: "apply_provider_lineage_gate (eligible_balancing_process_indices ?ports residual) (ct_metas t) lineage = Ok gate"
      and d: "decide_providers rule ex (ct_metas t) anchor ?ports gate stats = Ok (stats', d)"
    by blast
  have "j \<in> cpl_provider_idx ` set (lk_allocations d)"
    using closure_follows_linker [OF gate d] ps by simp
  with i ex gate d show "decided_link rule lineage t anchor stats i j" unfolding decided_link_def by blast
next
  assume "decided_link rule lineage t anchor stats i j"
  then show "links rule lineage t i j"
    unfolding decided_link_def links_def using closure_follows_linker by fastforce
qed

text \<open>A link of this kind: the one exchange of the first process of the link example is allocated to the second.\<close>

lemma link_example_decided:
  "decided_link SplitEqual no_lineage link_tables \<lparr>anchor_source = UnspecifiedSource, anchor_location = None\<rparr> matching_stats_default 0 1"
proof -
  let ?gate = "\<lparr>gate_providers = [1], relationships_by_provider = [], rejection_by_provider = [],
    selected_model_result = None, gate_unresolved = False\<rparr>"
  obtain d where d: "decide_providers SplitEqual link_exchange link_metas \<lparr>anchor_source = UnspecifiedSource, anchor_location = None\<rparr>
      (Some [link_port]) ?gate matching_stats_default =
      Ok (matching_stats_default\<lparr>matched_unique_provider := matched_unique_provider matching_stats_default + 1\<rparr>, d)"
    "lk_allocations d = [\<lparr>cpl_provider_idx = 1, cpl_weight = Fin 1\<rparr>]"
    using link_decide by blast
  have "flow_link_identity_of link_exchange = \<lparr>fl_flow_id = 7, fl_flow_version = ''1''\<rparr>" by code_simp
  with d link_residual show ?thesis by (auto simp: decided_link_def link_tables_def link_eligible link_gate)
qed

text \<open>
  C36. With requested roots, the selection is the least set of candidates that contains the roots
  and is closed under the decisions the linker takes on the tables of all candidates: the
  lineage gate and the choice of providers. The supply region and the counters the linker
  carries play no part. This speaks of the decisions on all candidates, which is what the work
  list reads; the snapshot is later linked on the selected processes alone, where a rival
  provider may be missing, so that a rule comparing providers can decide differently there.
\<close>

theorem selection_least_linker_closed:
  assumes "roots \<noteq> []"
    and "load_candidates parse_uuid show_uuid show_number spaces flow_meta (map root_key roots) candidates = Ok t"
    and "resolve_process_selection_with_flow_versions parse_uuid show_uuid show_number digest
           candidates all_states state_codes user roots rule limit spaces flow_meta lineage = Ok sel"
  shows "\<exists>ks. sel_processes sel = map (\<lambda>k. candidates ! k) ks \<and> sorted ks \<and> distinct ks \<and> set ks \<subseteq> {..<length candidates} \<and>
    (\<forall>i. root_index t roots i \<longrightarrow> i \<in> int ` set ks) \<and>
    (\<forall>k \<in> set ks. \<forall>j. decided_link rule lineage t anchor stats (int k) j \<longrightarrow> j \<in> int ` set ks) \<and>
    (\<forall>K. (\<forall>i. root_index t roots i \<longrightarrow> i \<in> K) \<and>
         (\<forall>i \<in> K. \<forall>j. decided_link rule lineage t anchor stats i j \<longrightarrow> j \<in> K) \<longrightarrow> int ` set ks \<subseteq> K)"
proof -
  from assms(1,3) obtain st0 st rows where roots: "fold_result (select_root t) ([], []) (normalize_request_roots roots) = Ok st0"
      and loop: "closure_loop rule lineage t 0 st0 = Ok st"
      and rows: "traverse (selected_row candidates) (sort (fst st)) = Ok rows"
      and sel: "summarize_selection RequestRootsClosure user (normalize_request_roots roots)
          (compute_scope_hash digest all_states state_codes user (normalize_request_roots roots) 0 rule) rows = Ok sel"
    unfolding resolve_process_selection_with_flow_versions_def assms(2) Let_def and_then_Ok_iff and_then_simps if_not_P [OF assms(1)]
    by fast
  note result = closure_result [OF load_candidates_tables [OF assms(2)] roots loop]
  let ?R = "links rule lineage t"
  let ?ks = "filter (\<lambda>k. \<exists>i. root_index t roots i \<and> ?R\<^sup>*\<^sup>* i (int k)) [0..<length candidates]"
  have out: "sel_processes sel = map (\<lambda>k. candidates ! k) ?ks"
    using selected_rows_Ok [OF rows [unfolded result(1)]] summarize_selection_Ok(1) [OF sel] by simp
  have idx: "int ` set ?ks = set (fst st)" using arg_cong [OF result(1), of set] by simp
  from select_roots_ok [OF roots] have st0: "closure_state_ok st0" by (auto simp: closure_state_ok_def)
  from closure_loop_ok [OF loop st0] have closed: "\<forall>i \<in> set (fst st). \<forall>j. ?R i j \<longrightarrow> j \<in> set (fst st)"
    by (simp add: closure_state_ok_def)
  have least: "int ` set ?ks \<subseteq> K" if "\<forall>i. root_index t roots i \<longrightarrow> i \<in> K" "\<forall>i \<in> K. \<forall>j. ?R i j \<longrightarrow> j \<in> K" for K
    using closed_contains_reachable [OF that(2)] that(1) by auto
  show ?thesis
    unfolding links_decided [symmetric]
  proof (intro exI conjI)
    show "sel_processes sel = map (\<lambda>k. candidates ! k) ?ks" by (rule out)
    show "sorted ?ks" by (simp add: sorted_wrt_filter)
    show "\<forall>i. root_index t roots i \<longrightarrow> i \<in> int ` set ?ks" unfolding idx by (rule result(2))
    show "\<forall>k \<in> set ?ks. \<forall>j. ?R (int k) j \<longrightarrow> j \<in> int ` set ?ks"
    proof (intro ballI allI impI)
      fix k j
      assume "k \<in> set ?ks" and r: "?R (int k) j"
      then have "int k \<in> set (fst st)" unfolding idx [symmetric] by (intro imageI)
      with closed r show "j \<in> int ` set ?ks" unfolding idx by blast
    qed
    show "\<forall>K. (\<forall>i. root_index t roots i \<longrightarrow> i \<in> K) \<and> (\<forall>i \<in> K. \<forall>j. ?R i j \<longrightarrow> j \<in> K) \<longrightarrow> int ` set ?ks \<subseteq> K"
      using least by blast
  qed auto
qed

theorem selection_least_linker_closed_witness:
  "\<exists>sel ks. unit_selection = Ok sel \<and> sel_processes sel = map (\<lambda>k. [unit_process] ! k) ks \<and> 0 \<in> set ks"
proof -
  obtain sel where sel: "unit_selection = Ok sel" using unit_selection_runs by blast
  from selection_least_linker_closed [where anchor = "\<lparr>anchor_source = UnspecifiedSource, anchor_location = None\<rparr>"
      and stats = matching_stats_default, OF list.distinct(2) unit_load sel]
  obtain ks where ks: "sel_processes sel = map (\<lambda>k. [unit_process] ! k) ks"
      "\<forall>i. root_index unit_tables [unit_root] i \<longrightarrow> i \<in> int ` set ks"
    by (elim exE conjE) (rule that)
  have "root_index unit_tables [unit_root] 0"
    by (simp add: root_index_def unit_root_def unit_tables_def unit_trim)
  with ks(2) have "0 \<in> set ks" by auto
  with sel ks(1) show ?thesis by blast
qed

end
