(* ===== verification/Contribution_Path.thy ===== *)
theory Contribution_Path
  imports Solver_Service
begin

text \<open>
  Contribution path analysis (\<open>solver-worker/src/contribution_path.rs\<close>) over the snapshot index
  (\<open>snapshot_index.rs\<close>). The upstream walk recurses with a growing depth below the
  configured maximum, which is its termination measure. Hash sets and maps
  are duplicate-free lists; the one place where their iteration order reaches a
  floating-point sum takes that order as an argument. The UUID printer and the time stamp are
  arguments.
\<close>

subsection \<open>Snapshot index\<close>

record snapshot_process_map_entry =
  spm_process_id :: uuid
  spm_process_index :: i32
  spm_process_version :: string
  spm_process_name :: "string option"
  spm_location :: "string option"

record snapshot_impact_map_entry =
  sim_impact_id :: uuid
  sim_impact_index :: i32
  sim_impact_version :: "string option"
  sim_impact_key :: string
  sim_impact_name :: string
  sim_unit :: string

record 'e snapshot_index_document =
  six_version :: nat
  six_snapshot_id :: uuid
  six_process_count :: i32
  six_impact_count :: i32
  six_process_map :: "snapshot_process_map_entry list"
  six_impact_map :: "snapshot_impact_map_entry list"
  six_calculation_evidence :: "'e option"

definition derive_snapshot_index_url :: "string \<Rightarrow> string" where
  "derive_snapshot_index_url url =
     (if CHR ''/'' \<in> set url
      then rev (dropWhile (\<lambda>c. c \<noteq> CHR ''/'') (rev url)) @ ''snapshot-index-v1.json''
      else url @ ''/snapshot-index-v1.json'')"

subsection \<open>Options\<close>

record contribution_path_options =
  max_depth :: usize
  top_k_children :: usize
  cutoff_share :: f64
  max_nodes :: usize

definition default_max_depth :: usize where "default_max_depth = 4"
definition default_top_k_children :: usize where "default_top_k_children = 5"
definition default_cutoff_share :: f64 where "default_cutoff_share = round64 (1 / 100)"
definition default_max_nodes :: usize where "default_max_nodes = 200"

definition path_options_default :: contribution_path_options where
  "path_options_default =
     \<lparr>max_depth = default_max_depth, top_k_children = default_top_k_children,
      cutoff_share = default_cutoff_share, max_nodes = default_max_nodes\<rparr>"

definition clamp_nat :: "nat \<Rightarrow> nat \<Rightarrow> nat \<Rightarrow> nat" where
  "clamp_nat lo hi n = (if n < lo then lo else if hi < n then hi else n)"

definition normalized :: "contribution_path_options \<Rightarrow> contribution_path_options" where
  "normalized self =
     \<lparr>max_depth = clamp_nat 1 8 (max_depth self),
      top_k_children = clamp_nat 1 20 (top_k_children self),
      cutoff_share =
        (if is_finite (cutoff_share self) \<and> f_ge (cutoff_share self) (Fin 0)
         then f_min (cutoff_share self) (Fin 1) else default_cutoff_share),
      max_nodes = clamp_nat 10 2000 (max_nodes self)\<rparr>"

subsection \<open>Artifact\<close>

record contribution_path_summary =
  total_impact :: f64
  sum_unit :: string
  coverage_ratio :: f64
  expanded_node_count :: usize
  sum_truncated_node_count :: usize
  computed_at :: string

record contribution_path_root =
  root_process_id :: uuid
  root_label :: string

record contribution_path_impact =
  imp_impact_id :: uuid
  imp_label :: string
  imp_unit :: string

record contribution_path_process_contribution =
  pc_process_id :: uuid
  pc_process_index :: i32
  pc_label :: string
  pc_location :: "string option"
  pc_direct_impact :: f64
  pc_share_of_total :: f64
  pc_is_root :: bool
  pc_depth_min :: "usize option"

record contribution_path_branch =
  rank :: usize
  path_process_ids :: "uuid list"
  path_labels :: "string list"
  path_score :: f64
  terminal_reason :: string

record contribution_path_link =
  source_process_id :: uuid
  target_process_id :: uuid
  depth_from_root :: usize
  cycle_cut :: bool
  lk_direct_impact :: f64
  lk_share_of_total :: f64

record contribution_path_meta =
  meta_source :: string
  snapshot_index_version :: nat

record contribution_path_artifact =
  cpa_version :: nat
  cpa_format :: string
  cpa_snapshot_id :: uuid
  cpa_job_id :: uuid
  cpa_process_id :: uuid
  cpa_impact_id :: uuid
  cpa_amount :: f64
  cpa_options :: contribution_path_options
  cpa_summary :: contribution_path_summary
  cpa_root :: contribution_path_root
  cpa_impact :: contribution_path_impact
  process_contributions :: "contribution_path_process_contribution list"
  cpa_branches :: "contribution_path_branch list"
  cpa_links :: "contribution_path_link list"
  cpa_meta :: contribution_path_meta

datatype path_error =
    MissingX
  | MissingH
  | ProcessIndexOverflow i32
  | ImpactIndexOverflow i32
  | ProcessCountOverflow i32
  | XLengthMismatch usize i32
  | ImpactIndexOutOfBounds i32 usize
  | ProcessIndexOutOfBounds i32 usize
  | RootProcessMissing
  | ImpactMissing
  | FlowIndexOverflow i32
  | BiosphereFlowIndexOverflow i32
  | BiosphereProcessIndexOverflow i32
  | BiosphereProcessIndexOutOfRange usize usize
  | ProviderIndexOverflow i32
  | ConsumerIndexOverflow i32
  | TechnosphereIndexOutOfBounds usize usize usize
  | CurrentProcessIndexOverflow i32
  | CurrentProcessIndexMissing
  | ProviderMissing i32
  | ProcessIndexMissing i32

subsection \<open>Adjacency\<close>

type_synonym provider_adjacency = "i32 list list"

definition adjacency_step ::
    "usize \<Rightarrow> provider_adjacency \<Rightarrow> sparse_triplet \<Rightarrow> (path_error, provider_adjacency) result" where
  "adjacency_step n adj t =
     and_then (ok_or (usize_try_from (st_row t)) (ProviderIndexOverflow (st_row t))) (\<lambda>provider_idx.
     and_then (ok_or (usize_try_from (st_col t)) (ConsumerIndexOverflow (st_col t))) (\<lambda>consumer_idx.
     and_then (ensure (\<not> (n \<le> provider_idx \<or> n \<le> consumer_idx))
        (TechnosphereIndexOutOfBounds provider_idx consumer_idx n)) (\<lambda>_.
     Ok (adj[consumer_idx := adj ! consumer_idx @ [st_row t]]))))"

definition build_provider_adjacency ::
    "model_sparse_data \<Rightarrow> (path_error, provider_adjacency) result" where
  "build_provider_adjacency data =
     and_then (ok_or (usize_try_from (process_count data)) (ProcessCountOverflow (process_count data))) (\<lambda>n.
     and_then (fold_result (adjacency_step n) (replicate n []) (technosphere_entries data)) (\<lambda>adj.
     Ok (map (\<lambda>ps. remdups_adj (sort ps)) adj)))"

subsection \<open>Traversal\<close>

record traversal_env =
  te_adjacency :: provider_adjacency
  te_direct :: "f64 list"
  te_total_abs :: f64
  te_meta :: "i32 \<Rightarrow> snapshot_process_map_entry option"
  te_options :: contribution_path_options
  te_show_uuid :: "uuid \<Rightarrow> string"

record traversal_state =
  expanded_nodes :: "i32 list"
  min_depth :: "(i32 \<times> usize) list"
  truncated_node_count :: usize
  branches :: "contribution_path_branch list"
  links :: "contribution_path_link list"

definition process_id_for_index :: "traversal_env \<Rightarrow> i32 \<Rightarrow> (path_error, uuid) result" where
  "process_id_for_index env i =
     ok_or (map_option spm_process_id (te_meta env i)) (ProcessIndexMissing i)"

definition entry_label :: "(uuid \<Rightarrow> string) \<Rightarrow> snapshot_process_map_entry \<Rightarrow> string" where
  "entry_label show_uuid e = unwrap_or (spm_process_name e) (show_uuid (spm_process_id e))"

definition label_for_index :: "traversal_env \<Rightarrow> i32 \<Rightarrow> (path_error, string) result" where
  "label_for_index env i =
     and_then (ok_or (te_meta env i) (ProcessIndexMissing i)) (\<lambda>e. Ok (entry_label (te_show_uuid env) e))"

definition get_idx :: "'a list \<Rightarrow> nat \<Rightarrow> 'a option" where
  "get_idx xs i = (if i < length xs then Some (xs ! i) else None)"

definition record_branch ::
    "traversal_env \<Rightarrow> traversal_state \<Rightarrow> i32 list \<Rightarrow> string \<Rightarrow> (path_error, traversal_state) result" where
  "record_branch env st path reason =
     and_then (traverse (process_id_for_index env) path) (\<lambda>ids.
     and_then (traverse (label_for_index env) path) (\<lambda>labels.
     let score = f_sum (map f_abs (List.map_filter (get_idx (te_direct env))
                   (List.map_filter usize_try_from (drop 1 path))))
     in Ok (st\<lparr>branches := branches st @
          [\<lparr>rank = 0, path_process_ids = ids, path_labels = labels, path_score = score,
            terminal_reason = reason\<rparr>]\<rparr>)))"

definition ranked_le :: "i32 \<times> f64 \<times> f64 \<Rightarrow> i32 \<times> f64 \<times> f64 \<Rightarrow> bool" where
  "ranked_le l r \<longleftrightarrow>
     f_abs (fst (snd r)) < f_abs (fst (snd l)) \<or>
     f_abs (fst (snd r)) = f_abs (fst (snd l)) \<and> fst l \<le> fst r"

definition ranked_providers :: "traversal_env \<Rightarrow> i32 list \<Rightarrow> (i32 \<times> f64 \<times> f64) list" where
  "ranked_providers env providers =
     filter (\<lambda>(_, _, share). f_ge share (cutoff_share (te_options env)))
       (List.map_filter (\<lambda>p. Option.bind (usize_try_from p) (\<lambda>idx.
            Option.bind (get_idx (te_direct env) idx) (\<lambda>direct.
            Some (p, direct, f_div (f_abs direct) (te_total_abs env))))) providers)"

definition note_depth :: "i32 \<Rightarrow> usize \<Rightarrow> (i32 \<times> usize) list \<Rightarrow> (i32 \<times> usize) list" where
  "note_depth i d m =
     (case map_of m i of
        None \<Rightarrow> m @ [(i, d)]
      | Some _ \<Rightarrow> map (\<lambda>(j, e). if j = i then (j, min e d) else (j, e)) m)"

definition push_link ::
    "traversal_env \<Rightarrow> i32 \<Rightarrow> snapshot_process_map_entry \<Rightarrow> usize \<Rightarrow> bool \<Rightarrow> f64 \<Rightarrow> f64 \<Rightarrow> traversal_state \<Rightarrow>
       (path_error, traversal_state) result" where
  "push_link env current target depth is_cut direct share st =
     and_then (process_id_for_index env current) (\<lambda>src.
     Ok (st\<lparr>links := links st @
       [\<lparr>source_process_id = src, target_process_id = spm_process_id target,
         depth_from_root = depth, cycle_cut = is_cut, lk_direct_impact = direct,
         lk_share_of_total = share\<rparr>]\<rparr>))"

text \<open>
  The body of the loop over the ranked providers; \<open>descend\<close> is the recursive call.
\<close>

definition child_step ::
    "traversal_env \<Rightarrow> (traversal_state \<Rightarrow> i32 \<Rightarrow> i32 list \<Rightarrow> (path_error, traversal_state) result) \<Rightarrow>
       i32 \<Rightarrow> usize \<Rightarrow> i32 list \<Rightarrow> traversal_state \<times> bool \<Rightarrow> nat \<times> i32 \<times> f64 \<times> f64 \<Rightarrow>
       (path_error, traversal_state \<times> bool) result" where
  "child_step env descend current depth path acc item =
     (case (acc, item) of ((st, expanded_any), (position, p, direct, share)) \<Rightarrow>
     if top_k_children (te_options env) \<le> position
     then Ok (st\<lparr>truncated_node_count := truncated_node_count st + 1\<rparr>, expanded_any)
     else
       and_then (ok_or (te_meta env p) (ProviderMissing p)) (\<lambda>target.
       if p \<in> set path
       then and_then (push_link env current target (depth + 1) True direct share st) (\<lambda>st1.
            and_then (record_branch env
               (st1\<lparr>truncated_node_count := truncated_node_count st1 + 1\<rparr>) (path @ [p]) ''cycle_cut'') (\<lambda>st2.
            Ok (st2, True)))
       else if p \<notin> set (expanded_nodes st) \<and> max_nodes (te_options env) \<le> length (expanded_nodes st)
       then and_then (record_branch env
               (st\<lparr>truncated_node_count := truncated_node_count st + 1\<rparr>) (path @ [p]) ''max_nodes'') (\<lambda>st2.
            Ok (st2, True))
       else
         let st1 = st\<lparr>expanded_nodes := List.insert p (expanded_nodes st),
                      min_depth := note_depth p (depth + 1) (min_depth st)\<rparr>
         in and_then (push_link env current target (depth + 1) False direct share st1) (\<lambda>st2.
            and_then (descend st2 p (path @ [p])) (\<lambda>st3. Ok (st3, True)))))"

function walk ::
    "traversal_env \<Rightarrow> traversal_state \<Rightarrow> i32 \<Rightarrow> usize \<Rightarrow> i32 list \<Rightarrow>
       (path_error, traversal_state) result" where
  "walk env st current depth path =
     (if max_depth (te_options env) \<le> depth
      then record_branch env (st\<lparr>truncated_node_count := truncated_node_count st + 1\<rparr>) path ''max_depth''
      else
        and_then (ok_or (usize_try_from current) (CurrentProcessIndexOverflow current)) (\<lambda>idx.
        and_then (ok_or (get_idx (te_adjacency env) idx) CurrentProcessIndexMissing) (\<lambda>providers.
        if providers = [] then record_branch env st path ''leaf''
        else
          let ranked = ranked_providers env providers
          in if ranked = []
             then record_branch env
                    (st\<lparr>truncated_node_count := truncated_node_count st + length providers\<rparr>) path ''cutoff''
             else and_then (fold_result
                    (child_step env (\<lambda>st1 p path1. walk env st1 p (depth + 1) path1) current depth path)
                    (st, False) (List.enumerate 0 (sort_by ranked_le ranked))) (\<lambda>(st1, expanded_any).
                  if expanded_any then Ok st1 else record_branch env st1 path ''top_k''))))"
  by pat_completeness auto
termination
  by (relation "measure (\<lambda>(env, st, current, depth, path). max_depth (te_options env) - depth)") auto

declare walk.simps [simp del]

definition branch_le :: "contribution_path_branch \<Rightarrow> contribution_path_branch \<Rightarrow> bool" where
  "branch_le l r \<longleftrightarrow>
     path_score r < path_score l \<or>
     path_score r = path_score l \<and> join '' > '' (path_labels l) \<le> join '' > '' (path_labels r)"

definition number_branches :: "contribution_path_branch list \<Rightarrow> contribution_path_branch list" where
  "number_branches bs = map (\<lambda>(i, b). b\<lparr>rank := i + 1\<rparr>) (List.enumerate 0 bs)"

definition traverse_upstream ::
    "traversal_env \<Rightarrow> i32 \<Rightarrow> (path_error, traversal_state) result" where
  "traverse_upstream env root_index =
     and_then (walk env
        \<lparr>expanded_nodes = [root_index], min_depth = [(root_index, 0)], truncated_node_count = 0, branches = [],
         links = []\<rparr> root_index 0 [root_index]) (\<lambda>st.
     Ok (st\<lparr>branches := number_branches (sort_by branch_le (branches st))\<rparr>))"

subsection \<open>Analysis\<close>

definition direct_epsilon :: f64 where
  "direct_epsilon = round64 (1 / 10 ^ 12)"

definition cf_step :: "i32 \<Rightarrow> (nat \<times> f64) list \<Rightarrow> sparse_triplet \<Rightarrow> (path_error, (nat \<times> f64) list) result" where
  "cf_step impact_index m cf =
     (if st_row cf = impact_index
      then and_then (ok_or (usize_try_from (st_col cf)) (FlowIndexOverflow (st_col cf))) (\<lambda>flow_idx.
           Ok (acc_add flow_idx (st_value cf) m))
      else Ok m)"

definition intensity_step ::
    "(nat \<times> f64) list \<Rightarrow> f64 list \<Rightarrow> sparse_triplet \<Rightarrow> (path_error, f64 list) result" where
  "intensity_step cf_by_flow acc t =
     and_then (ok_or (usize_try_from (st_row t)) (BiosphereFlowIndexOverflow (st_row t))) (\<lambda>flow_idx.
     case map_of cf_by_flow flow_idx of
       None \<Rightarrow> Ok acc
     | Some cf \<Rightarrow>
         and_then (ok_or (usize_try_from (st_col t)) (BiosphereProcessIndexOverflow (st_col t))) (\<lambda>p.
         and_then (ensure (p < length acc) (BiosphereProcessIndexOutOfRange p (length acc))) (\<lambda>_.
         Ok (acc[p := f_add (acc ! p) (f_mul cf (st_value t))]))))"

definition contribution_le ::
    "contribution_path_process_contribution \<Rightarrow> contribution_path_process_contribution \<Rightarrow> bool" where
  "contribution_le l r \<longleftrightarrow>
     f_abs (pc_direct_impact r) < f_abs (pc_direct_impact l) \<or>
     f_abs (pc_direct_impact r) = f_abs (pc_direct_impact l) \<and> pc_label l \<le> pc_label r"

definition process_contribution ::
    "(uuid \<Rightarrow> string) \<Rightarrow> f64 list \<Rightarrow> f64 \<Rightarrow> (i32 \<times> usize) list \<Rightarrow> i32 \<Rightarrow> snapshot_process_map_entry \<Rightarrow>
       contribution_path_process_contribution option" where
  "process_contribution show_uuid direct total_abs depths process_index e =
     Option.bind (usize_try_from (spm_process_index e)) (\<lambda>idx.
     Option.bind (get_idx direct idx) (\<lambda>d.
     if f_le (f_abs d) direct_epsilon \<and> spm_process_index e \<noteq> process_index then None
     else Some \<lparr>pc_process_id = spm_process_id e, pc_process_index = spm_process_index e,
                pc_label = entry_label show_uuid e, pc_location = spm_location e,
                pc_direct_impact = d, pc_share_of_total = f_div (f_abs d) total_abs,
                pc_is_root = (spm_process_index e = process_index),
                pc_depth_min = map_of depths (spm_process_index e)\<rparr>))"

text \<open>The state \<open>traverse_upstream\<close> is called with, for one snapshot index.\<close>

definition analysis_env ::
    "(uuid \<Rightarrow> string) \<Rightarrow> 'e snapshot_index_document \<Rightarrow> contribution_path_options \<Rightarrow> provider_adjacency \<Rightarrow>
       f64 list \<Rightarrow> f64 \<Rightarrow> traversal_env" where
  "analysis_env show_uuid snapshot_index opts adjacency direct total_abs =
     \<lparr>te_adjacency = adjacency, te_direct = direct, te_total_abs = total_abs,
      te_meta = map_of (rev (map (\<lambda>e. (spm_process_index e, e)) (six_process_map snapshot_index))),
      te_options = opts, te_show_uuid = show_uuid\<rparr>"

definition analyze_contribution_path ::
    "(uuid \<Rightarrow> string) \<Rightarrow> (i32 list \<Rightarrow> i32 list) \<Rightarrow> string \<Rightarrow> uuid \<Rightarrow> uuid \<Rightarrow> uuid \<Rightarrow> uuid \<Rightarrow> i32 \<Rightarrow> i32 \<Rightarrow> f64 \<Rightarrow>
       contribution_path_options \<Rightarrow> 'e snapshot_index_document \<Rightarrow> model_sparse_data \<Rightarrow> solve_result \<Rightarrow>
       (path_error, contribution_path_artifact) result" where
  "analyze_contribution_path show_uuid set_order now snapshot_id job_id process_id impact_id
      process_index impact_index amount options snapshot_index data solved =
     (let opts = normalized options in
      and_then (ok_or (sr_x solved) MissingX) (\<lambda>x.
      and_then (ok_or (sr_h solved) MissingH) (\<lambda>h.
      and_then (ok_or (usize_try_from process_index) (ProcessIndexOverflow process_index)) (\<lambda>root_idx.
      and_then (ok_or (usize_try_from impact_index) (ImpactIndexOverflow impact_index)) (\<lambda>impact_idx.
      and_then (ok_or (usize_try_from (process_count data)) (ProcessCountOverflow (process_count data))) (\<lambda>n.
      and_then (ensure (length x = n) (XLengthMismatch (length x) (process_count data))) (\<lambda>_.
      and_then (ensure (\<not> length h \<le> impact_idx) (ImpactIndexOutOfBounds impact_index (length h))) (\<lambda>_.
      and_then (ensure (\<not> length x \<le> root_idx) (ProcessIndexOutOfBounds process_index (length x))) (\<lambda>_.
      and_then (ok_or (find (\<lambda>e. spm_process_index e = process_index) (six_process_map snapshot_index))
                  RootProcessMissing) (\<lambda>root.
      and_then (ok_or (find (\<lambda>e. sim_impact_index e = impact_index) (six_impact_map snapshot_index))
                  ImpactMissing) (\<lambda>impact.
      and_then (fold_result (cf_step impact_index) [] (characterization_factors data)) (\<lambda>cf_by_flow.
      and_then (fold_result (intensity_step cf_by_flow) (replicate (length x) (Fin 0))
                  (biosphere_entries data)) (\<lambda>intensity.
      let direct = map2 f_mul x intensity;
          total_abs = f_max (f_sum (map f_abs direct)) direct_epsilon
      in
      and_then (build_provider_adjacency data) (\<lambda>adjacency.
      and_then (traverse_upstream
         (analysis_env show_uuid snapshot_index opts adjacency direct total_abs) process_index) (\<lambda>traversal.
      let contribs = sort_by contribution_le
            (List.map_filter (process_contribution show_uuid direct total_abs (min_depth traversal) process_index)
               (six_process_map snapshot_index));
          covered_abs = f_sum (map f_abs (List.map_filter (get_idx direct)
               (List.map_filter usize_try_from (set_order (expanded_nodes traversal)))))
      in Ok \<lparr>cpa_version = 1, cpa_format = ''contribution-path:v1'', cpa_snapshot_id = snapshot_id,
             cpa_job_id = job_id, cpa_process_id = process_id, cpa_impact_id = impact_id,
             cpa_amount = amount, cpa_options = opts,
             cpa_summary =
               \<lparr>total_impact = h ! impact_idx, sum_unit = sim_unit impact,
                coverage_ratio = f_clamp (f_div covered_abs total_abs) (Fin 0) (Fin 1),
                expanded_node_count = length (expanded_nodes traversal),
                sum_truncated_node_count = truncated_node_count traversal, computed_at = now\<rparr>,
             cpa_root = \<lparr>root_process_id = spm_process_id root, root_label = entry_label show_uuid root\<rparr>,
             cpa_impact = \<lparr>imp_impact_id = sim_impact_id impact, imp_label = sim_impact_name impact,
                           imp_unit = sim_unit impact\<rparr>,
             process_contributions = contribs, cpa_branches = branches traversal,
             cpa_links = links traversal,
             cpa_meta = \<lparr>meta_source = ''solve_one_path_analysis'',
                         snapshot_index_version = six_version snapshot_index\<rparr>\<rparr>)))))))))))))))"

subsection \<open>Paths in the provider graph\<close>

text \<open>
  \<open>provider_edge env c p\<close>: process \<open>p\<close> supplies process \<open>c\<close> in the adjacency.
\<close>

definition provider_edge :: "traversal_env \<Rightarrow> i32 \<Rightarrow> i32 \<Rightarrow> bool" where
  "provider_edge env c p \<longleftrightarrow>
     0 \<le> c \<and> nat c < length (te_adjacency env) \<and> p \<in> set (te_adjacency env ! nat c)"

fun supply_chain :: "traversal_env \<Rightarrow> i32 list \<Rightarrow> bool" where
  "supply_chain env (c # p # ps) = (provider_edge env c p \<and> supply_chain env (p # ps))"
| "supply_chain env _ = True"

lemma supply_chain_snoc:
  "xs \<noteq> [] \<Longrightarrow> supply_chain env (xs @ [p]) \<longleftrightarrow> supply_chain env xs \<and> provider_edge env (last xs) p"
  by (induction xs rule: induct_list012) auto

text \<open>The path under the current node: a duplicate-free chain from the root.\<close>

definition open_path :: "traversal_env \<Rightarrow> i32 \<Rightarrow> i32 \<Rightarrow> usize \<Rightarrow> i32 list \<Rightarrow> bool" where
  "open_path env root_index current depth path \<longleftrightarrow>
     path \<noteq> [] \<and> hd path = root_index \<and> last path = current \<and> length path = depth + 1 \<and>
     depth \<le> max_depth (te_options env) \<and> distinct path \<and> supply_chain env path"

definition branch_ok :: "traversal_env \<Rightarrow> i32 \<Rightarrow> contribution_path_branch \<Rightarrow> bool" where
  "branch_ok env root_index b \<longleftrightarrow>
     (\<exists>path. path \<noteq> [] \<and> hd path = root_index \<and> length path \<le> max_depth (te_options env) + 1 \<and>
        supply_chain env path \<and> distinct (butlast path) \<and>
        (terminal_reason b = ''cycle_cut'' \<longleftrightarrow> \<not> distinct path) \<and>
        map (\<lambda>i. map_option spm_process_id (te_meta env i)) path = map Some (path_process_ids b) \<and>
        map (\<lambda>i. map_option (entry_label (te_show_uuid env)) (te_meta env i)) path = map Some (path_labels b))"

definition link_ok :: "traversal_env \<Rightarrow> contribution_path_link \<Rightarrow> bool" where
  "link_ok env l \<longleftrightarrow> 1 \<le> depth_from_root l \<and> depth_from_root l \<le> max_depth (te_options env) \<and>
     (\<exists>c p s t. provider_edge env c p \<and> te_meta env c = Some s \<and> te_meta env p = Some t \<and>
        source_process_id l = spm_process_id s \<and> target_process_id l = spm_process_id t)"

definition traversal_ok :: "traversal_env \<Rightarrow> i32 \<Rightarrow> traversal_state \<Rightarrow> bool" where
  "traversal_ok env root_index st \<longleftrightarrow>
     (\<forall>b \<in> set (branches st). branch_ok env root_index b) \<and>
     (\<forall>l \<in> set (links st). link_ok env l) \<and>
     distinct (expanded_nodes st) \<and> length (expanded_nodes st) \<le> max_nodes (te_options env) \<and>
     fst ` set (min_depth st) = set (expanded_nodes st) \<and>
     (\<forall>(i, d) \<in> set (min_depth st). d \<le> max_depth (te_options env))"

lemma traversal_ok_count [simp]:
  "traversal_ok env r (st\<lparr>truncated_node_count := k\<rparr>) = traversal_ok env r st"
  by (simp add: traversal_ok_def)

lemma traverse_map_option:
  assumes "traverse f xs = Ok ys" and "\<And>x y. f x = Ok y \<Longrightarrow> g x = Some y"
  shows "map g xs = map Some ys"
  using assms by (auto simp: traverse_Ok_iff list_eq_iff_nth_eq list_all2_conv_all_nth)

lemma label_for_index_Ok:
  "label_for_index env i = Ok l \<Longrightarrow> map_option (entry_label (te_show_uuid env)) (te_meta env i) = Some l"
  by (auto simp: label_for_index_def and_then_Ok_iff)

lemma process_id_for_index_Ok:
  "process_id_for_index env i = Ok u \<Longrightarrow> map_option spm_process_id (te_meta env i) = Some u"
  by (auto simp: process_id_for_index_def)

lemma record_branch_ok:
  assumes "record_branch env st path reason = Ok st'" and "traversal_ok env r st"
    and "path \<noteq> []" "hd path = r" "length path \<le> max_depth (te_options env) + 1"
    and "supply_chain env path" "distinct (butlast path)"
    and "reason = ''cycle_cut'' \<longleftrightarrow> \<not> distinct path"
  shows "traversal_ok env r st'"
proof -
  from assms(1) obtain ids labels where
      ids: "traverse (process_id_for_index env) path = Ok ids" and
      labels: "traverse (label_for_index env) path = Ok labels" and
      st': "st' = st\<lparr>branches := branches st @
          [\<lparr>rank = 0, path_process_ids = ids, path_labels = labels,
            path_score = f_sum (map f_abs (List.map_filter (get_idx (te_direct env))
                   (List.map_filter usize_try_from (drop 1 path)))),
            terminal_reason = reason\<rparr>]\<rparr>"
    by (auto simp: record_branch_def and_then_Ok_iff)
  have "branch_ok env r (last (branches st'))"
    unfolding branch_ok_def st'
    using assms(3-) traverse_map_option [OF ids process_id_for_index_Ok]
      traverse_map_option [OF labels label_for_index_Ok]
    by (intro exI [of _ path]) simp
  with assms(2) show ?thesis by (auto simp: traversal_ok_def st')
qed

lemma push_link_ok:
  assumes "push_link env current target (depth + 1) is_cut direct share st = Ok st'"
    and "traversal_ok env r st" and "te_meta env p = Some target"
    and "provider_edge env current p" and "depth < max_depth (te_options env)"
  shows "traversal_ok env r st'"
proof -
  from assms(1) obtain src where src: "te_meta env current = Some src" and
    st': "st' = st\<lparr>links := links st @
       [\<lparr>source_process_id = spm_process_id src, target_process_id = spm_process_id target,
         depth_from_root = depth + 1, cycle_cut = is_cut, lk_direct_impact = direct,
         lk_share_of_total = share\<rparr>]\<rparr>"
    by (auto simp: push_link_def process_id_for_index_def and_then_Ok_iff)
  have "link_ok env (last (links st'))"
    using assms(3-5) src unfolding link_ok_def st' by simp blast
  with assms(2) show ?thesis by (auto simp: traversal_ok_def st')
qed

lemma note_depth_keys [simp]: "fst ` set (note_depth p d m) = insert p (fst ` set m)"
proof (cases "map_of m p")
  case None
  then show ?thesis by (auto simp: note_depth_def)
next
  case (Some e)
  then have "p \<in> fst ` set m" by (metis map_of_eq_None_iff option.distinct(1))
  moreover have "map fst (note_depth p d m) = map fst m"
    using Some by (auto simp: note_depth_def)
  ultimately show ?thesis by (metis insert_absorb set_map)
qed

lemma note_depth_bound:
  assumes "\<forall>(i, e) \<in> set m. e \<le> k" and "d \<le> k"
  shows "\<forall>(i, e) \<in> set (note_depth p d m). e \<le> k"
proof (cases "map_of m p")
  case None
  with assms show ?thesis by (auto simp: note_depth_def)
next
  case (Some e)
  with assms show ?thesis by (auto simp: note_depth_def min.coboundedI2 split: if_splits)
qed

lemma visit_ok:
  assumes "traversal_ok env r st" and "depth < max_depth (te_options env)"
    and "\<not> (p \<notin> set (expanded_nodes st) \<and> max_nodes (te_options env) \<le> length (expanded_nodes st))"
  shows "traversal_ok env r (st\<lparr>expanded_nodes := List.insert p (expanded_nodes st),
                      min_depth := note_depth p (depth + 1) (min_depth st)\<rparr>)"
proof -
  let ?d = "note_depth p (depth + 1) (min_depth st)"
  have "\<forall>(i, e) \<in> set ?d. e \<le> max_depth (te_options env)"
    by (rule note_depth_bound) (use assms(1,2) in \<open>auto simp: traversal_ok_def\<close>)
  then show ?thesis using assms by (auto simp: traversal_ok_def List.insert_def)
qed

lemma child_step_ok:
  assumes step: "child_step env descend current depth path (st, b) (pos, p, direct, share) = Ok (st', b')"
    and I: "traversal_ok env r st" and path: "open_path env r current depth path"
    and depth: "depth < max_depth (te_options env)" and edge: "provider_edge env current p"
    and descend: "\<And>st1 p path1 st2. open_path env r p (depth + 1) path1 \<Longrightarrow> traversal_ok env r st1 \<Longrightarrow>
                    descend st1 p path1 = Ok st2 \<Longrightarrow> traversal_ok env r st2"
  shows "traversal_ok env r st'"
proof (cases "top_k_children (te_options env) \<le> pos")
  case True
  with step I show ?thesis by (auto simp: child_step_def)
next
  case False
  let ?st1 = "st\<lparr>expanded_nodes := List.insert p (expanded_nodes st),
                 min_depth := note_depth p (depth + 1) (min_depth st)\<rparr>"
  have ext: "path @ [p] \<noteq> []" "hd (path @ [p]) = r" "length (path @ [p]) \<le> max_depth (te_options env) + 1"
    "supply_chain env (path @ [p])" "distinct (butlast (path @ [p]))"
    using path depth edge by (auto simp: open_path_def supply_chain_snoc)
  from step False obtain target where target: "te_meta env p = Some target"
    by (auto simp: child_step_def and_then_Ok_iff)
  note step' = step [unfolded child_step_def Let_def, simplified, simplified target False, simplified]
  show ?thesis
  proof (cases "p \<in> set path")
    case True
    with step' obtain st1 where
      "push_link env current target (depth + 1) True direct share st = Ok st1"
      "record_branch env (st1\<lparr>truncated_node_count := truncated_node_count st1 + 1\<rparr>) (path @ [p]) ''cycle_cut'' = Ok st'"
      by (auto simp: and_then_Ok_iff)
    then show ?thesis
      using record_branch_ok [OF _ _ ext] push_link_ok [OF _ I target edge depth] True by fastforce
  next
    case fresh: False
    show ?thesis
    proof (cases "p \<notin> set (expanded_nodes st) \<and> max_nodes (te_options env) \<le> length (expanded_nodes st)")
      case True
      with step' fresh have "record_branch env
          (st\<lparr>truncated_node_count := truncated_node_count st + 1\<rparr>) (path @ [p]) ''max_nodes'' = Ok st'"
        by (auto simp: and_then_Ok_iff)
      moreover have "distinct (path @ [p])" using fresh path by (simp add: open_path_def)
      ultimately show ?thesis using record_branch_ok [OF _ _ ext] I by simp
    next
      case False
      with step' fresh obtain st2 where
        "push_link env current target (depth + 1) False direct share ?st1 = Ok st2"
        "descend st2 p (path @ [p]) = Ok st'"
        by (auto simp: and_then_Ok_iff)
      moreover have "open_path env r p (depth + 1) (path @ [p])"
        using path depth edge fresh by (auto simp: open_path_def supply_chain_snoc)
      ultimately show ?thesis
        using push_link_ok [OF _ visit_ok [OF I depth False] target edge depth] descend by blast
    qed
  qed
qed

lemma ranked_providers_mem:
  "(p, direct, share) \<in> set (ranked_providers env ps) \<Longrightarrow> p \<in> set ps"
  by (auto simp: ranked_providers_def List.map_filter_def split: bind_splits)

lemma enumerate_sorted_mem:
  "(pos, p, direct, share) \<in> set (List.enumerate k (sort_by ranked_le (ranked_providers env ps))) \<Longrightarrow> p \<in> set ps"
  by (metis image_eqI map_snd_enumerate ranked_providers_mem set_map set_sort_by snd_conv)

subsection \<open>The walk, one level at a time\<close>

definition visit_children ::
    "traversal_env \<Rightarrow> i32 \<Rightarrow> usize \<Rightarrow> i32 list \<Rightarrow> traversal_state \<Rightarrow> i32 list \<Rightarrow>
       (path_error, traversal_state \<times> bool) result" where
  "visit_children env current depth path st ps =
     fold_result (child_step env (\<lambda>st1 p path1. walk env st1 p (depth + 1) path1) current depth path)
       (st, False) (List.enumerate 0 (sort_by ranked_le (ranked_providers env ps)))"

lemma walk_stop:
  "max_depth (te_options env) \<le> depth \<Longrightarrow> walk env st current depth path =
     record_branch env (st\<lparr>truncated_node_count := truncated_node_count st + 1\<rparr>) path ''max_depth''"
  by (subst walk.simps) simp

lemma walk_step:
  assumes "depth < max_depth (te_options env)" and "0 \<le> current"
    and "nat current < length (te_adjacency env)" and "ps = te_adjacency env ! nat current"
  shows "walk env st current depth path =
       (if ps = [] then record_branch env st path ''leaf''
        else if ranked_providers env ps = [] then record_branch env
               (st\<lparr>truncated_node_count := truncated_node_count st + length ps\<rparr>) path ''cutoff''
        else and_then (visit_children env current depth path st ps) (\<lambda>(st1, expanded_any).
             if expanded_any then Ok st1 else record_branch env st1 path ''top_k''))"
  using assms by (subst walk.simps) (simp add: usize_try_from_def get_idx_def Let_def visit_children_def)

lemma walk_Ok_in_range:
  assumes "walk env st current depth path = Ok st'" and "depth < max_depth (te_options env)"
  shows "0 \<le> current \<and> nat current < length (te_adjacency env)"
  using assms by (subst (asm) walk.simps) (auto simp: and_then_Ok_iff get_idx_def split: if_splits)

text \<open>The four ways in which the walk of a node can end well.\<close>

lemma walk_OkE:
  assumes "walk env st current depth path = Ok st'"
  obtains (recorded) k reason where "reason \<noteq> ''cycle_cut''" and
      "record_branch env (st\<lparr>truncated_node_count := k\<rparr>) path reason = Ok st'"
    | (children) st1 expanded_any where "depth < max_depth (te_options env)" and "0 \<le> current" and
      "nat current < length (te_adjacency env)" and
      "visit_children env current depth path st (te_adjacency env ! nat current) = Ok (st1, expanded_any)" and
      "ranked_providers env (te_adjacency env ! nat current) \<noteq> []" and
      "if expanded_any then st' = st1 else record_branch env st1 path ''top_k'' = Ok st'"
proof (cases "max_depth (te_options env) \<le> depth")
  case True
  with assms walk_stop [OF True] show ?thesis by (intro recorded [of "''max_depth''"]) simp_all
next
  case False
  let ?ps = "te_adjacency env ! nat current"
  from False have d: "depth < max_depth (te_options env)" by simp
  note range = walk_Ok_in_range [OF assms d]
  show ?thesis
  proof (cases "?ps = [] \<or> ranked_providers env ?ps = []")
    case True
    then consider "record_branch env (st\<lparr>truncated_node_count := truncated_node_count st\<rparr>) path ''leaf'' = Ok st'"
      | "record_branch env (st\<lparr>truncated_node_count := truncated_node_count st + length ?ps\<rparr>) path ''cutoff'' = Ok st'"
      using assms walk_step [OF d, of current ?ps st path] range by (auto split: if_splits)
    then show ?thesis by cases (erule recorded [rotated], simp)+
  next
    case False
    with assms walk_step [OF d, of current ?ps st path] range show ?thesis
      by (auto simp: and_then_Ok_iff split: if_splits intro!: children [OF d])
  qed
qed

lemma walk_ok:
  assumes "walk env st current depth path = Ok st'" and "traversal_ok env r st"
    and "open_path env r current depth path"
  shows "traversal_ok env r st'"
  using assms
proof (induction "max_depth (te_options env) - depth" arbitrary: st current depth path st' rule: less_induct)
  case less
  have closed: "path \<noteq> []" "hd path = r" "length path \<le> max_depth (te_options env) + 1"
    "supply_chain env path" "distinct (butlast path)" "distinct path"
    using less.prems(3) by (auto simp: open_path_def distinct_butlast)
  have rec: "record_branch env s path reason = Ok st' \<Longrightarrow> reason \<noteq> ''cycle_cut'' \<Longrightarrow>
      traversal_ok env r s \<Longrightarrow> traversal_ok env r st'" for s reason
    using record_branch_ok [OF _ _ closed(1-5)] closed(6) by blast
  from less.prems(1) show ?case
  proof (cases rule: walk_OkE)
    case (recorded k reason)
    with rec less.prems(2) show ?thesis by simp
  next
    case (children st1 b)
    have "traversal_ok env r (fst (st1, b))"
    proof (rule fold_result_invariant [OF children(4) [unfolded visit_children_def],
          where P = "\<lambda>s. traversal_ok env r (fst s)"])
      fix s x s'
      assume x: "x \<in> set (List.enumerate 0 (sort_by ranked_le (ranked_providers env (te_adjacency env ! nat current))))"
        and s: "traversal_ok env r (fst s)"
        and step: "child_step env (\<lambda>st1 p path1. walk env st1 p (depth + 1) path1) current depth path s x = Ok s'"
      obtain st0 b0 pos p d sh st0' b0' where sx: "s = (st0, b0)" "x = (pos, p, d, sh)" "s' = (st0', b0')"
        by (metis prod.exhaust)
      have edge: "provider_edge env current p"
        using x children(2,3) unfolding sx provider_edge_def by (blast dest: enumerate_sorted_mem)
      have "traversal_ok env r st0'"
        by (rule child_step_ok [OF step [unfolded sx] _ less.prems(3) children(1) edge])
          (use s children(1) less.hyps [of "depth + 1"] in \<open>auto simp: sx\<close>)
      then show "traversal_ok env r (fst s')" by (simp add: sx)
    qed (simp add: less.prems(2))
    then show ?thesis using children(6) rec [of st1 "''top_k''"] by (simp split: if_splits)
  qed
qed

subsection \<open>How many branches, and that the walk succeeds\<close>

lemma record_branch_count:
  "record_branch env st path reason = Ok st' \<Longrightarrow> length (branches st') = Suc (length (branches st))"
  by (auto simp: record_branch_def and_then_Ok_iff)

lemma push_link_branches [simp]:
  "push_link env c t d k x s st = Ok st' \<Longrightarrow> branches st' = branches st"
  by (auto simp: push_link_def and_then_Ok_iff)

lemma child_step_count:
  assumes step: "child_step env descend current depth path (st, b) (pos, p, direct, share) = Ok (st', b')"
    and descend: "\<And>st1 p path1 st2. descend st1 p path1 = Ok st2 \<Longrightarrow>
                    length (branches st2) \<le> length (branches st1) + B" and "1 \<le> B"
  shows "length (branches st') \<le> length (branches st) + (if pos < top_k_children (te_options env) then B else 0)
         \<and> (b' \<longleftrightarrow> b \<or> pos < top_k_children (te_options env))"
proof (cases "top_k_children (te_options env) \<le> pos")
  case True
  with step show ?thesis by (auto simp: child_step_def)
next
  case False
  show ?thesis
    using step False \<open>1 \<le> B\<close>
    by (auto simp: child_step_def Let_def and_then_Ok_iff dest!: record_branch_count descend split: if_splits)
qed

lemma children_count:
  assumes "fold_result (child_step env descend current depth path) (st, b) (List.enumerate k xs) = Ok (st', b')"
    and "\<And>st1 p path1 st2. descend st1 p path1 = Ok st2 \<Longrightarrow>
           length (branches st2) \<le> length (branches st1) + B" and "1 \<le> B"
  shows "length (branches st') \<le> length (branches st) + (top_k_children (te_options env) - k) * B \<and>
         (b' \<longleftrightarrow> b \<or> xs \<noteq> [] \<and> k < top_k_children (te_options env))"
  using assms(1)
proof (induction xs arbitrary: k st b)
  case Nil
  then show ?case by simp
next
  case (Cons x xs)
  obtain p d s where x: "x = (p, d, s)" by (cases x) auto
  let ?K = "top_k_children (te_options env)"
  from Cons.prems obtain st1 b1 where
    one: "child_step env descend current depth path (st, b) (k, p, d, s) = Ok (st1, b1)" and
    rest: "fold_result (child_step env descend current depth path) (st1, b1) (List.enumerate (Suc k) xs) = Ok (st', b')"
    by (auto simp: and_then_Ok_iff x)
  have "(?K - Suc k) * B + (if k < ?K then B else 0) \<le> (?K - k) * B"
    by (cases "k < ?K") (simp_all add: Suc_diff_Suc [symmetric])
  moreover have first: "length (branches st1) \<le> length (branches st) + (if k < ?K then B else 0) \<and>
      (b1 \<longleftrightarrow> b \<or> k < ?K)"
    by (rule child_step_count [OF one _ assms(3)]) (rule assms(2))
  moreover note Cons.IH [OF rest]
  ultimately have "length (branches st') \<le> length (branches st) + (?K - k) * B" by linarith
  moreover have "b' \<longleftrightarrow> b \<or> k < ?K"
    using first [THEN conjunct2] Cons.IH [OF rest, THEN conjunct2] by (meson Suc_lessD)
  ultimately show ?case by simp
qed

lemma walk_count:
  assumes "walk env st current depth path = Ok st'" and "1 \<le> top_k_children (te_options env)"
  shows "length (branches st') \<le> length (branches st) + top_k_children (te_options env) ^ (max_depth (te_options env) - depth)"
  using assms(1)
proof (induction "max_depth (te_options env) - depth" arbitrary: st current depth path st' rule: less_induct)
  case less
  let ?K = "top_k_children (te_options env)"
  let ?B = "?K ^ (max_depth (te_options env) - (depth + 1))"
  have one: "1 \<le> ?K ^ n" for n using assms(2) by simp
  from less.prems show ?case
  proof (cases rule: walk_OkE)
    case (recorded k reason)
    with one show ?thesis by (auto dest!: record_branch_count)
  next
    case (children st1 b)
    have "length (branches st1) \<le> length (branches st) + (?K - 0) * ?B \<and>
         (b \<longleftrightarrow> False \<or> sort_by ranked_le (ranked_providers env (te_adjacency env ! nat current)) \<noteq> [] \<and> 0 < ?K)"
      by (rule children_count [OF children(4) [unfolded visit_children_def] _ one])
        (use less.hyps [of "depth + 1"] children(1) in auto)
    moreover have "?K * ?B = ?K ^ (max_depth (te_options env) - depth)"
      using children(1) by (simp flip: power_Suc add: Suc_diff_Suc)
    ultimately show ?thesis using children(5,6) assms(2) by simp
  qed
qed

definition closed_env :: "traversal_env \<Rightarrow> bool" where
  "closed_env env \<longleftrightarrow> (\<forall>ps \<in> set (te_adjacency env). \<forall>p \<in> set ps.
     0 \<le> p \<and> nat p < length (te_adjacency env) \<and> te_meta env p \<noteq> None)"

lemma record_branch_total:
  assumes "\<forall>i \<in> set path. te_meta env i \<noteq> None"
  shows "\<exists>st'. record_branch env st path reason = Ok st'"
proof -
  have "traverse (process_id_for_index env) path = Ok (map (\<lambda>i. spm_process_id (the (te_meta env i))) path)"
    by (rule traverse_total) (use assms in \<open>auto simp: process_id_for_index_def\<close>)
  moreover have "traverse (label_for_index env) path = Ok (map (\<lambda>i. entry_label (te_show_uuid env) (the (te_meta env i))) path)"
    by (rule traverse_total) (use assms in \<open>auto simp: label_for_index_def\<close>)
  ultimately show ?thesis by (simp add: record_branch_def Let_def)
qed

lemma push_link_total:
  "te_meta env c \<noteq> None \<Longrightarrow> \<exists>st'. push_link env c t d k x s st = Ok st'"
  by (auto simp: push_link_def process_id_for_index_def)

lemma child_step_total:
  assumes meta: "\<forall>i \<in> set (p # current # path). te_meta env i \<noteq> None"
    and descend: "\<And>st1. \<exists>st2. descend st1 p (path @ [p]) = Ok st2"
  shows "\<exists>s'. child_step env descend current depth path s (pos, p, direct, share) = Ok s'"
proof -
  obtain st b where s: "s = (st, b)" by (cases s)
  obtain target where t: "te_meta env p = Some target" using meta by auto
  have r: "\<exists>st'. record_branch env st (path @ [p]) reason = Ok st'" for st reason
    by (rule record_branch_total) (use meta in auto)
  have l: "\<exists>st'. push_link env current target (Suc depth) k direct share st = Ok st'" for k st
    by (rule push_link_total) (use meta in simp)
  have cyc: "\<exists>s'. and_then (push_link env current target (Suc depth) True direct share st) (\<lambda>st1.
      and_then (record_branch env (st1\<lparr>truncated_node_count := Suc (truncated_node_count st1)\<rparr>) (path @ [p]) ''cycle_cut'')
        (\<lambda>st2. Ok (st2, True))) = Ok s'"
    by (auto simp: and_then_Ok_iff) (use l r in blast)
  have lim: "\<exists>s'. and_then (record_branch env st1 (path @ [p]) ''max_nodes'') (\<lambda>st2. Ok (st2, True)) = Ok s'" for st1
    by (auto simp: and_then_Ok_iff) (use r in blast)
  have deep: "\<exists>s'. and_then (push_link env current target (Suc depth) False direct share st1) (\<lambda>st2.
      and_then (descend st2 p (path @ [p])) (\<lambda>st3. Ok (st3, True))) = Ok s'" for st1
    by (auto simp: and_then_Ok_iff) (use l descend in blast)
  show ?thesis using t cyc lim deep by (auto simp: child_step_def s Let_def)
qed

lemma walk_total:
  assumes "closed_env env" and "0 \<le> current" and "nat current < length (te_adjacency env)"
    and "\<forall>i \<in> set (current # path). te_meta env i \<noteq> None"
  shows "\<exists>st'. walk env st current depth path = Ok st'"
  using assms(2-)
proof (induction "max_depth (te_options env) - depth" arbitrary: st current depth path rule: less_induct)
  case less
  have r: "\<exists>st'. record_branch env s path reason = Ok st'" for s reason
    by (rule record_branch_total) (use less.prems in auto)
  show ?case
  proof (cases "max_depth (te_options env) \<le> depth")
    case True
    with r show ?thesis by (simp add: walk_stop)
  next
    case False
    let ?ps = "te_adjacency env ! nat current"
    have "\<exists>t. visit_children env current depth path st ?ps = Ok t \<and> True"
      unfolding visit_children_def
    proof (rule fold_result_total)
      fix s x
      assume x: "x \<in> set (List.enumerate 0 (sort_by ranked_le (ranked_providers env ?ps)))"
      obtain pos p d sh where x': "x = (pos, p, d, sh)" by (metis prod.exhaust)
      have "p \<in> set ?ps" using x unfolding x' by (rule enumerate_sorted_mem)
      with assms(1) less.prems(2) have p: "0 \<le> p" "nat p < length (te_adjacency env)" "te_meta env p \<noteq> None"
        unfolding closed_env_def by (auto dest: nth_mem)
      have "\<exists>s'. child_step env (\<lambda>st1 p path1. walk env st1 p (depth + 1) path1) current depth path s x = Ok s'"
        unfolding x' by (rule child_step_total) (use less.prems p False less.hyps [of "depth + 1" p "path @ [p]"] in auto)
      then show "\<exists>s'. child_step env (\<lambda>st1 p path1. walk env st1 p (depth + 1) path1) current depth path s x = Ok s' \<and> True"
        by simp
    qed simp
    then obtain st1 b where "visit_children env current depth path st ?ps = Ok (st1, b)" by auto
    then show ?thesis using r False walk_step [of depth env current ?ps st path] less.prems by auto
  qed
qed

subsection \<open>Adjacency\<close>

definition supplies :: "model_sparse_data \<Rightarrow> i32 \<Rightarrow> i32 \<Rightarrow> bool" where
  "supplies data c p \<longleftrightarrow> (\<exists>t \<in> set (technosphere_entries data). st_row t = p \<and> st_col t = c)"

lemma distinct_remdups_adj_sorted: "sorted xs \<Longrightarrow> distinct (remdups_adj xs)"
  by (induction xs rule: remdups_adj.induct) auto

lemma adjacency_step_Ok:
  "adjacency_step n adj t = Ok adj' \<longleftrightarrow>
     0 \<le> st_row t \<and> nat (st_row t) < n \<and> 0 \<le> st_col t \<and> nat (st_col t) < n \<and>
     adj' = adj[nat (st_col t) := adj ! nat (st_col t) @ [st_row t]]"
  by (auto simp: adjacency_step_def and_then_Ok_iff)

lemma adjacency_fold:
  assumes "fold_result (adjacency_step n) adj ts = Ok adj'" and "length adj = n"
  shows "length adj' = n \<and> (\<forall>c < n. set (adj' ! c) = set (adj ! c) \<union> {st_row t |t. t \<in> set ts \<and> st_col t = int c})
    \<and> (\<forall>t \<in> set ts. 0 \<le> st_row t \<and> nat (st_row t) < n \<and> 0 \<le> st_col t \<and> nat (st_col t) < n)"
  using assms
proof (induction ts arbitrary: adj)
  case Nil
  then show ?case by simp
next
  case (Cons t ts)
  let ?c = "nat (st_col t)"
  let ?adj = "adj[?c := adj ! ?c @ [st_row t]]"
  from Cons.prems(1) have t: "0 \<le> st_row t" "nat (st_row t) < n" "0 \<le> st_col t" "?c < n"
    and rest: "fold_result (adjacency_step n) ?adj ts = Ok adj'"
    by (auto simp: adjacency_step_Ok and_then_Ok_iff)
  have "set (?adj ! c) = set (adj ! c) \<union> (if st_col t = int c then {st_row t} else {})" if "c < n" for c
    using that t Cons.prems(2) by (auto simp: nth_list_update)
  with Cons.IH [OF rest] Cons.prems(2) t show ?case by (auto split: if_splits)
qed

lemma adjacency_fold_total:
  assumes "\<forall>t \<in> set ts. 0 \<le> st_row t \<and> nat (st_row t) < n \<and> 0 \<le> st_col t \<and> nat (st_col t) < n"
  shows "\<exists>adj'. fold_result (adjacency_step n) adj ts = Ok adj'"
proof -
  have "\<exists>adj'. fold_result (adjacency_step n) adj ts = Ok adj' \<and> True"
    by (rule fold_result_total) (use assms in \<open>auto simp: adjacency_step_Ok\<close>)
  then show ?thesis by simp
qed

lemma build_provider_adjacency_Ok:
  assumes "build_provider_adjacency data = Ok adj"
  shows "int (length adj) = process_count data" and "\<forall>ps \<in> set adj. sorted ps \<and> distinct ps"
    and "0 \<le> c \<Longrightarrow> nat c < length adj \<Longrightarrow> p \<in> set (adj ! nat c) \<longleftrightarrow> supplies data c p"
    and "supplies data c p \<Longrightarrow> 0 \<le> p \<and> nat p < length adj \<and> 0 \<le> c \<and> nat c < length adj"
proof -
  let ?n = "nat (process_count data)"
  from assms obtain adj0 where n: "process_count data = int ?n" and
    fold: "fold_result (adjacency_step ?n) (replicate ?n []) (technosphere_entries data) = Ok adj0" and
    adj: "adj = map (\<lambda>ps. remdups_adj (sort ps)) adj0"
    by (auto simp: build_provider_adjacency_def and_then_Ok_iff)
  note f = adjacency_fold [OF fold, simplified]
  show "int (length adj) = process_count data" using f n by (simp add: adj)
  show "\<forall>ps \<in> set adj. sorted ps \<and> distinct ps"
    by (auto simp: adj sorted_remdups_adj distinct_remdups_adj_sorted)
  show "p \<in> set (adj ! nat c) \<longleftrightarrow> supplies data c p" if "0 \<le> c" "nat c < length adj"
    using f that by (auto simp: adj supplies_def)
  show "0 \<le> p \<and> nat p < length adj \<and> 0 \<le> c \<and> nat c < length adj" if "supplies data c p"
    using f that by (auto simp: adj supplies_def)
qed

interpretation branch_order: total_preorder branch_le
  by unfold_locales (auto simp: branch_le_def)

interpretation contribution_order: total_preorder contribution_le
  by unfold_locales (auto simp: contribution_le_def)

interpretation ranked_order: total_preorder ranked_le
  by unfold_locales (auto simp: ranked_le_def)

lemma number_branches_rank: "map rank (number_branches bs) = [1..<length bs + 1]"
  by (rule nth_equalityI) (auto simp: number_branches_def nth_enumerate_eq simp del: upt_Suc)

lemma branch_le_score: "branch_le l r \<Longrightarrow> path_score r \<le> path_score l"
  by (auto simp: branch_le_def)

lemma number_branches_sorted:
  "sorted_wrt (\<lambda>l r. path_score r \<le> path_score l) (number_branches (sort_by branch_le bs))"
  using branch_order.sorted_sort_by [of bs]
  by (auto simp: number_branches_def sorted_wrt_iff_nth_less nth_enumerate_eq intro: branch_le_score)

lemma branch_ok_rank [simp]: "branch_ok env r (b\<lparr>rank := k\<rparr>) = branch_ok env r b"
  by (simp add: branch_ok_def)

lemma number_branches_ok:
  "(\<forall>b \<in> set (number_branches bs). branch_ok env r b) \<longleftrightarrow> (\<forall>b \<in> set bs. branch_ok env r b)"
  unfolding number_branches_def list_all_iff [symmetric] list_all_length
  by (simp add: nth_enumerate_eq)

lemma traverse_upstream_ok:
  assumes "traverse_upstream env r = Ok st" and "1 \<le> max_nodes (te_options env)"
  shows "traversal_ok env r st" and "map rank (branches st) = [1..<length (branches st) + 1]"
    and "sorted_wrt (\<lambda>l r. path_score r \<le> path_score l) (branches st)"
    and "1 \<le> top_k_children (te_options env) \<Longrightarrow>
         length (branches st) \<le> top_k_children (te_options env) ^ max_depth (te_options env)"
proof -
  let ?st0 = "\<lparr>expanded_nodes = [r], min_depth = [(r, 0)], truncated_node_count = 0, branches = [], links = []\<rparr>"
  from assms(1) obtain st1 where w: "walk env ?st0 r 0 [r] = Ok st1" and
    st: "st = st1\<lparr>branches := number_branches (sort_by branch_le (branches st1))\<rparr>"
    by (auto simp: traverse_upstream_def and_then_Ok_iff)
  have "traversal_ok env r st1"
    by (rule walk_ok [OF w]) (use assms(2) in \<open>simp_all add: traversal_ok_def open_path_def\<close>)
  then show "traversal_ok env r st" by (simp add: traversal_ok_def st number_branches_ok)
  show "map rank (branches st) = [1..<length (branches st) + 1]"
    by (simp add: st number_branches_rank) (simp add: number_branches_def)
  show "sorted_wrt (\<lambda>l r. path_score r \<le> path_score l) (branches st)"
    by (simp add: st number_branches_sorted)
  show "length (branches st) \<le> top_k_children (te_options env) ^ max_depth (te_options env)"
    if "1 \<le> top_k_children (te_options env)"
    using walk_count [OF w that] by (simp add: st number_branches_def)
qed

subsection \<open>Direct impacts\<close>

text \<open>
  What the accumulation loops are meant to compute: a flow's factor is the sum of the factors
  given for it under the impact; a process's direct impact is its activity times the sum of
  factor times amount over its characterised biosphere entries.
\<close>

definition factors_of :: "model_sparse_data \<Rightarrow> i32 \<Rightarrow> i32 \<Rightarrow> f64 list" where
  "factors_of data impact_index flow =
     map st_value (filter (\<lambda>cf. st_row cf = impact_index \<and> st_col cf = flow) (characterization_factors data))"

definition direct_impact_of :: "model_sparse_data \<Rightarrow> i32 \<Rightarrow> f64 list \<Rightarrow> nat \<Rightarrow> f64" where
  "direct_impact_of data impact_index x p =
     f_mul (x ! p) (foldl f_add (Fin 0)
       (map (\<lambda>t. f_mul (foldl f_add (Fin 0) (factors_of data impact_index (st_row t))) (st_value t))
          (filter (\<lambda>t. st_col t = int p \<and> factors_of data impact_index (st_row t) \<noteq> [])
             (biosphere_entries data))))"

lemma cf_fold:
  assumes "fold_result (cf_step k) m cfs = Ok m'"
  shows "map_of m' f =
    (let vs = map st_value (filter (\<lambda>cf. st_row cf = k \<and> st_col cf = int f) cfs)
     in if vs = [] then map_of m f else Some (foldl f_add (unwrap_or (map_of m f) (Fin 0)) vs))"
  using assms
proof (induction cfs arbitrary: m)
  case Nil
  then show ?case by simp
next
  case (Cons cf cfs)
  from Cons.prems obtain m1 where m1: "cf_step k m cf = Ok m1" and
    rest: "fold_result (cf_step k) m1 cfs = Ok m'" by (auto simp: and_then_Ok_iff)
  show ?case
    using m1 Cons.IH [OF rest]
    by (cases "st_row cf = k \<and> st_col cf = int f")
      (auto simp: cf_step_def and_then_Ok_iff map_of_acc_add Let_def unwrap_or_def split: if_splits option.splits)
qed

lemma intensity_fold:
  assumes "fold_result (intensity_step cfs) acc ts = Ok acc'"
  shows "length acc' = length acc \<and> (\<forall>p < length acc. acc' ! p = foldl f_add (acc ! p)
     (map (\<lambda>t. f_mul (the (map_of cfs (nat (st_row t)))) (st_value t))
       (filter (\<lambda>t. st_col t = int p \<and> map_of cfs (nat (st_row t)) \<noteq> None) ts)))
     \<and> (\<forall>t \<in> set ts. 0 \<le> st_row t)"
  using assms
proof (induction ts arbitrary: acc)
  case Nil
  then show ?case by simp
next
  case (Cons t ts)
  from Cons.prems obtain acc1 where one: "intensity_step cfs acc t = Ok acc1" and
    rest: "fold_result (intensity_step cfs) acc1 ts = Ok acc'" by (auto simp: and_then_Ok_iff)
  then have "0 \<le> st_row t" by (auto simp: intensity_step_def and_then_Ok_iff)
  show ?case
  proof (cases "map_of cfs (nat (st_row t))")
    case None
    then have "acc1 = acc" using one by (auto simp: intensity_step_def and_then_Ok_iff)
    with Cons.IH [OF rest] None \<open>0 \<le> st_row t\<close> show ?thesis by simp
  next
    case (Some cf)
    let ?p = "nat (st_col t)"
    have p: "0 \<le> st_col t" "?p < length acc" "acc1 = acc[?p := f_add (acc ! ?p) (f_mul cf (st_value t))]"
      using one Some by (auto simp: intensity_step_def and_then_Ok_iff)
    from Cons.IH [OF rest] p Some \<open>0 \<le> st_row t\<close> show ?thesis by (auto simp: nth_list_update)
  qed
qed

lemma direct_impacts_exact:
  assumes cf: "fold_result (cf_step k) [] (characterization_factors data) = Ok cfs"
    and int: "fold_result (intensity_step cfs) (replicate (length x) (Fin 0)) (biosphere_entries data) = Ok intensity"
    and p: "p < length x"
  shows "map2 f_mul x intensity ! p = direct_impact_of data k x p" and "length (map2 f_mul x intensity) = length x"
proof -
  note i = intensity_fold [OF int, simplified]
  have fac: "map_of cfs (nat f) = (if factors_of data k f = [] then None
      else Some (foldl f_add (Fin 0) (factors_of data k f)))" if "0 \<le> f" for f
    using cf_fold [OF cf, of "nat f"] that by (simp add: factors_of_def Let_def)
  let ?flt = "filter (\<lambda>t. st_col t = int p \<and> factors_of data k (st_row t) \<noteq> []) (biosphere_entries data)"
  have "filter (\<lambda>t. st_col t = int p \<and> map_of cfs (nat (st_row t)) \<noteq> None) (biosphere_entries data) = ?flt"
    by (rule filter_cong) (use i fac in auto)
  moreover have "map (\<lambda>t. f_mul (the (map_of cfs (nat (st_row t)))) (st_value t)) ?flt =
      map (\<lambda>t. f_mul (foldl f_add (Fin 0) (factors_of data k (st_row t))) (st_value t)) ?flt"
    by (rule map_cong) (use i fac in auto)
  moreover have "intensity ! p = foldl f_add (Fin 0)
      (map (\<lambda>t. f_mul (the (map_of cfs (nat (st_row t)))) (st_value t))
        (filter (\<lambda>t. st_col t = int p \<and> map_of cfs (nat (st_row t)) \<noteq> None) (biosphere_entries data)))"
    using intensity_fold [OF int] p by (simp only: length_replicate nth_replicate)
  ultimately have "intensity ! p = foldl f_add (Fin 0)
      (map (\<lambda>t. f_mul (foldl f_add (Fin 0) (factors_of data k (st_row t))) (st_value t)) ?flt)"
    by (simp only:)
  then show "map2 f_mul x intensity ! p = direct_impact_of data k x p"
    using i p by (simp add: direct_impact_of_def)
  show "length (map2 f_mul x intensity) = length x" using i by simp
qed

lemma cf_fold_total:
  assumes "\<forall>cf \<in> set cfs. st_row cf = k \<longrightarrow> 0 \<le> st_col cf"
  shows "\<exists>m'. fold_result (cf_step k) m cfs = Ok m'"
  using fold_result_total [of "\<lambda>_. True" m cfs "cf_step k"] assms
  by (auto simp: cf_step_def usize_try_from_def)

lemma intensity_fold_total:
  assumes "\<forall>t \<in> set ts. 0 \<le> st_row t \<and> 0 \<le> st_col t \<and> nat (st_col t) < n"
  shows "\<exists>acc'. fold_result (intensity_step cfs) (replicate n (Fin 0)) ts = Ok acc'"
proof -
  have "\<exists>acc'. fold_result (intensity_step cfs) (replicate n (Fin 0)) ts = Ok acc' \<and> length acc' = n"
    by (rule fold_result_total)
      (use assms in \<open>auto simp: intensity_step_def usize_try_from_def ensure_def split: option.splits\<close>)
  then show ?thesis by blast
qed

subsection \<open>The whole analysis\<close>

text \<open>What a successful analysis went through.\<close>

lemma analyze_OkE:
  assumes "analyze_contribution_path show_uuid set_order now snapshot_id job_id process_id impact_id
      process_index impact_index amount options index data solved = Ok art"
  obtains x h intensity cfs adjacency traversal where
    "sr_x solved = Some x" and "sr_h solved = Some h" and "0 \<le> process_index" and "nat process_index < length x"
    and "process_count data = int (length x)"
    and "fold_result (cf_step impact_index) [] (characterization_factors data) = Ok cfs"
    and "fold_result (intensity_step cfs) (replicate (length x) (Fin 0)) (biosphere_entries data) = Ok intensity"
    and "build_provider_adjacency data = Ok adjacency"
    and "traverse_upstream (analysis_env show_uuid index (normalized options) adjacency (map2 f_mul x intensity)
           (f_max (f_sum (map f_abs (map2 f_mul x intensity))) direct_epsilon)) process_index = Ok traversal"
    and "cpa_options art = normalized options" and "cpa_branches art = branches traversal"
    and "cpa_links art = links traversal"
    and "expanded_node_count (cpa_summary art) = length (expanded_nodes traversal)"
    and "process_contributions art = sort_by contribution_le
            (List.map_filter (process_contribution show_uuid (map2 f_mul x intensity)
                (f_max (f_sum (map f_abs (map2 f_mul x intensity))) direct_epsilon)
                (min_depth traversal) process_index) (six_process_map index))"
  using assms unfolding analyze_contribution_path_def Let_def and_then_Ok_iff ok_or_Ok_iff ensure_Ok_iff
    usize_try_from_simps sum.inject
  apply (elim exE conjE)
  apply hypsubst
  apply (rule that)
               apply assumption
              apply assumption
             apply assumption
            apply (simp (no_asm_simp) only: not_le)
           apply (simp (no_asm_simp))
          apply assumption
         apply assumption
        apply assumption
       apply assumption
  by simp_all

lemma normalized_bounds:
  "1 \<le> max_depth (normalized opts)" "max_depth (normalized opts) \<le> 8"
  "1 \<le> top_k_children (normalized opts)" "top_k_children (normalized opts) \<le> 20"
  "10 \<le> max_nodes (normalized opts)" "max_nodes (normalized opts) \<le> 2000"
  by (auto simp: normalized_def clamp_nat_def)

lemma default_cutoff_in_unit:
  "f_le (Fin 0) default_cutoff_share \<and> f_le default_cutoff_share (Fin 1) \<and> is_finite default_cutoff_share"
proof -
  have "\<exists>r. default_cutoff_share = Fin r \<and> 0 \<le> r \<and> r \<le> 1"
    unfolding default_cutoff_share_def by (rule round64_unit_interval) simp_all
  then obtain r where r: "default_cutoff_share = Fin r" "0 \<le> r" "r \<le> 1" by blast
  show ?thesis unfolding r(1) using r(2,3) by (auto simp: f_le_def f_lt_def f_eq_def)
qed

lemma normalized_cutoff:
  "f_le (Fin 0) (cutoff_share (normalized opts)) \<and> f_le (cutoff_share (normalized opts)) (Fin 1)"
  using default_cutoff_in_unit
  by (cases "cutoff_share opts") (auto simp: normalized_def f_min_def f_le_def f_lt_def f_eq_def)

lemma analysis_env_simps [simp]:
  "te_adjacency (analysis_env sh ix opts adj direct tot) = adj"
  "te_options (analysis_env sh ix opts adj direct tot) = opts"
  "te_show_uuid (analysis_env sh ix opts adj direct tot) = sh"
  by (simp_all add: analysis_env_def)

lemma analysis_env_meta:
  "te_meta (analysis_env sh ix opts adj direct tot) i = Some e \<Longrightarrow> e \<in> set (six_process_map ix) \<and> spm_process_index e = i"
  by (auto simp: analysis_env_def dest!: map_of_SomeD)

lemma analysis_env_meta_None:
  "te_meta (analysis_env sh ix opts adj direct tot) i \<noteq> None \<longleftrightarrow> (\<exists>e \<in> set (six_process_map ix). spm_process_index e = i)"
  unfolding analysis_env_def by (force simp: map_of_eq_None_iff simp del: not_None_eq)

text \<open>
  Whatever options a caller asks for, a finished analysis stays within the run-time
  bounds: the options it reports are in range and a fixed point of the normalisation, at most
  \<open>max_nodes\<close> processes are expanded, every branch has between one and \<open>max_depth + 1\<close>
  processes and as many labels, there are at most \<open>top_k_children ^ max_depth\<close> branches, and
  every link has a depth between one and \<open>max_depth\<close>.
\<close>

theorem contribution_analysis_bounded:
  assumes "analyze_contribution_path show_uuid set_order now snapshot_id job_id process_id impact_id
      process_index impact_index amount options index data solved = Ok art"
  shows "1 \<le> max_depth (cpa_options art) \<and> max_depth (cpa_options art) \<le> 8 \<and>
    1 \<le> top_k_children (cpa_options art) \<and> top_k_children (cpa_options art) \<le> 20 \<and>
    f_le (Fin 0) (cutoff_share (cpa_options art)) \<and> f_le (cutoff_share (cpa_options art)) (Fin 1) \<and>
    10 \<le> max_nodes (cpa_options art) \<and> max_nodes (cpa_options art) \<le> 2000 \<and>
    expanded_node_count (cpa_summary art) \<le> max_nodes (cpa_options art) \<and>
    length (cpa_branches art) \<le> top_k_children (cpa_options art) ^ max_depth (cpa_options art) \<and>
    (\<forall>b \<in> set (cpa_branches art). 1 \<le> length (path_process_ids b) \<and>
       length (path_process_ids b) \<le> max_depth (cpa_options art) + 1 \<and>
       length (path_labels b) = length (path_process_ids b)) \<and>
    (\<forall>l \<in> set (cpa_links art). 1 \<le> depth_from_root l \<and> depth_from_root l \<le> max_depth (cpa_options art))"
  using assms
proof (cases rule: analyze_OkE)
  case (1 x h intensity cfs adjacency traversal)
  let ?env = "analysis_env show_uuid index (normalized options) adjacency (map2 f_mul x intensity)
      (f_max (f_sum (map f_abs (map2 f_mul x intensity))) direct_epsilon)"
  have nodes: "1 \<le> max_nodes (te_options ?env)" and top: "1 \<le> top_k_children (te_options ?env)"
    using normalized_bounds(3,5) [of options] by simp_all
  note ok = traverse_upstream_ok [OF 1(9) nodes]
  have "1 \<le> length (path_process_ids b) \<and> length (path_process_ids b) \<le> max_depth (normalized options) + 1 \<and>
       length (path_labels b) = length (path_process_ids b)" if "b \<in> set (branches traversal)" for b
  proof -
    from ok(1) that have "branch_ok ?env process_index b" by (simp add: traversal_ok_def)
    then obtain path where "path \<noteq> []" "length path \<le> max_depth (normalized options) + 1"
      and "map (\<lambda>i. map_option spm_process_id (te_meta ?env i)) path = map Some (path_process_ids b)"
      and "map (\<lambda>i. map_option (entry_label show_uuid) (te_meta ?env i)) path = map Some (path_labels b)"
      unfolding branch_ok_def by auto
    then show ?thesis by (metis length_map length_greater_0_conv less_eq_Suc_le One_nat_def)
  qed
  moreover have "\<forall>l \<in> set (links traversal). 1 \<le> depth_from_root l \<and> depth_from_root l \<le> max_depth (normalized options)"
    and "length (expanded_nodes traversal) \<le> max_nodes (normalized options)"
    using ok(1) by (auto simp: traversal_ok_def link_ok_def)
  moreover note ok(4) [OF top] normalized_bounds normalized_cutoff
  ultimately show ?thesis unfolding 1(10-13) by simp
qed

lemma analysis_env_adjacency_edge:
  assumes "build_provider_adjacency data = Ok adj"
  shows "provider_edge (analysis_env sh ix opts adj direct tot) c p \<longleftrightarrow> supplies data c p"
  using build_provider_adjacency_Ok(3,4) [OF assms] unfolding provider_edge_def analysis_env_simps by blast

lemma supply_chain_nth:
  "supply_chain env path \<longleftrightarrow> (\<forall>i. Suc i < length path \<longrightarrow> provider_edge env (path ! i) (path ! Suc i))"
  by (induction env path rule: supply_chain.induct) (auto simp: nth_Cons split: nat.splits)

text \<open>
  C24. Every branch of a finished analysis is a real supply chain: it starts at the analysed
  process, each further process supplies the one before it in the technosphere data, no
  process repeats except possibly the last one, which happens exactly in the branches marked
  \<open>cycle_cut\<close>, and the identifiers and labels are those of the snapshot index. The branches
  are ranked from one, by falling score.
\<close>

theorem contribution_branches_are_supply_chains:
  assumes "analyze_contribution_path show_uuid set_order now snapshot_id job_id process_id impact_id
      process_index impact_index amount options index data solved = Ok art"
  shows "map rank (cpa_branches art) = [1..<length (cpa_branches art) + 1] \<and>
    sorted_wrt (\<lambda>l r. path_score r \<le> path_score l) (cpa_branches art) \<and>
    (\<forall>b \<in> set (cpa_branches art). \<exists>path. path \<noteq> [] \<and> hd path = process_index \<and>
       length (path_process_ids b) = length path \<and> length (path_labels b) = length path \<and>
       (\<forall>i. Suc i < length path \<longrightarrow> supplies data (path ! i) (path ! Suc i)) \<and>
       distinct (butlast path) \<and> (terminal_reason b = ''cycle_cut'' \<longleftrightarrow> \<not> distinct path) \<and>
       (\<forall>i < length path. \<exists>e \<in> set (six_process_map index). spm_process_index e = path ! i \<and>
          path_process_ids b ! i = spm_process_id e \<and> path_labels b ! i = entry_label show_uuid e))"
  using assms
proof (cases rule: analyze_OkE)
  case (1 x h intensity cfs adjacency traversal)
  let ?env = "analysis_env show_uuid index (normalized options) adjacency (map2 f_mul x intensity)
      (f_max (f_sum (map f_abs (map2 f_mul x intensity))) direct_epsilon)"
  have nodes: "1 \<le> max_nodes (te_options ?env)" using normalized_bounds(5) [of options] by simp
  note ok = traverse_upstream_ok [OF 1(9) nodes]
  have "\<exists>path. path \<noteq> [] \<and> hd path = process_index \<and>
       length (path_process_ids b) = length path \<and> length (path_labels b) = length path \<and>
       (\<forall>i. Suc i < length path \<longrightarrow> supplies data (path ! i) (path ! Suc i)) \<and>
       distinct (butlast path) \<and> (terminal_reason b = ''cycle_cut'' \<longleftrightarrow> \<not> distinct path) \<and>
       (\<forall>i < length path. \<exists>e \<in> set (six_process_map index). spm_process_index e = path ! i \<and>
          path_process_ids b ! i = spm_process_id e \<and> path_labels b ! i = entry_label show_uuid e)"
    if "b \<in> set (branches traversal)" for b
  proof -
    from ok(1) that have "branch_ok ?env process_index b" by (simp add: traversal_ok_def)
    then obtain path where path: "path \<noteq> []" "hd path = process_index" "supply_chain ?env path"
        "distinct (butlast path)" "terminal_reason b = ''cycle_cut'' \<longleftrightarrow> \<not> distinct path"
      and ids: "map (\<lambda>i. map_option spm_process_id (te_meta ?env i)) path = map Some (path_process_ids b)"
      and labels: "map (\<lambda>i. map_option (entry_label show_uuid) (te_meta ?env i)) path = map Some (path_labels b)"
      unfolding branch_ok_def by auto
    have len: "length (path_process_ids b) = length path" "length (path_labels b) = length path"
      using ids labels by (metis length_map)+
    have "\<exists>e \<in> set (six_process_map index). spm_process_index e = path ! i \<and>
          path_process_ids b ! i = spm_process_id e \<and> path_labels b ! i = entry_label show_uuid e"
      if i: "i < length path" for i
    proof -
      from ids labels i len have
        "map_option spm_process_id (te_meta ?env (path ! i)) = Some (path_process_ids b ! i)"
        "map_option (entry_label show_uuid) (te_meta ?env (path ! i)) = Some (path_labels b ! i)"
        by (metis nth_map)+
      moreover from this obtain e where e: "te_meta ?env (path ! i) = Some e" by blast
      ultimately show ?thesis using analysis_env_meta [OF e] by (intro bexI [of _ e]) auto
    qed
    with path len show ?thesis
      by (intro exI [of _ path]) (simp add: supply_chain_nth analysis_env_adjacency_edge [OF 1(8)])
  qed
  with ok(2,3) show ?thesis unfolding 1(11) by blast
qed

lemma traverse_upstream_total:
  assumes "closed_env env" and "0 \<le> r" and "nat r < length (te_adjacency env)" and "te_meta env r \<noteq> None"
  shows "\<exists>st. traverse_upstream env r = Ok st"
proof -
  obtain st where "walk env
     \<lparr>expanded_nodes = [r], min_depth = [(r, 0)], truncated_node_count = 0, branches = [], links = []\<rparr> r 0 [r] = Ok st"
    using walk_total [OF assms(1-3), of "[r]"] assms(4) by fastforce
  then show ?thesis by (simp add: traverse_upstream_def)
qed

lemma find_total: "\<exists>e \<in> set xs. P e \<Longrightarrow> \<exists>y. find P xs = Some y"
  by (induction xs) auto

lemma analyze_total:
  assumes x: "sr_x solved = Some x" "process_count data = int (length x)"
    and h: "sr_h solved = Some h" "0 \<le> impact_index" "nat impact_index < length h"
    and root: "0 \<le> process_index" "nat process_index < length x"
    and procs: "\<forall>p < length x. \<exists>e \<in> set (six_process_map index). spm_process_index e = int p"
    and impact: "\<exists>e \<in> set (six_impact_map index). sim_impact_index e = impact_index"
    and tech: "\<forall>t \<in> set (technosphere_entries data).
      0 \<le> st_row t \<and> nat (st_row t) < length x \<and> 0 \<le> st_col t \<and> nat (st_col t) < length x"
    and bio: "\<forall>t \<in> set (biosphere_entries data). 0 \<le> st_row t \<and> 0 \<le> st_col t \<and> nat (st_col t) < length x"
    and cf: "\<forall>cf \<in> set (characterization_factors data). st_row cf = impact_index \<longrightarrow> 0 \<le> st_col cf"
  shows "\<exists>art. analyze_contribution_path show_uuid set_order now snapshot_id job_id process_id impact_id
      process_index impact_index amount options index data solved = Ok art"
proof -
  obtain cfs where cfs: "fold_result (cf_step impact_index) [] (characterization_factors data) = Ok cfs"
    using cf_fold_total [OF cf] by blast
  obtain intensity where intensity:
    "fold_result (intensity_step cfs) (replicate (length x) (Fin 0)) (biosphere_entries data) = Ok intensity"
    using intensity_fold_total [OF bio] by blast
  obtain adj where adj: "build_provider_adjacency data = Ok adj"
    using adjacency_fold_total [OF tech, of "replicate (length x) []"] x(2)
    by (auto simp: build_provider_adjacency_def)
  have "\<exists>e \<in> set (six_process_map index). spm_process_index e = process_index"
    using procs [rule_format, OF root(2)] root(1) by simp
  from find_total [OF this] obtain re where
    re: "find (\<lambda>e. spm_process_index e = process_index) (six_process_map index) = Some re" ..
  from find_total [OF impact] obtain ie where
    ie: "find (\<lambda>e. sim_impact_index e = impact_index) (six_impact_map index) = Some ie" ..
  let ?env = "analysis_env show_uuid index (normalized options) adj (map2 f_mul x intensity)
      (f_max (f_sum (map f_abs (map2 f_mul x intensity))) direct_epsilon)"
  have len: "length adj = length x" using build_provider_adjacency_Ok(1) [OF adj] x(2) by simp
  have meta: "te_meta ?env p \<noteq> None" if "0 \<le> p" "nat p < length x" for p
    using procs [rule_format, OF that(2)] that(1) unfolding analysis_env_meta_None by simp
  have "closed_env ?env"
    unfolding closed_env_def analysis_env_simps
  proof (intro ballI)
    fix ps p
    assume "ps \<in> set adj" and "p \<in> set ps"
    then obtain c where "c < length adj" "p \<in> set (adj ! c)" by (auto simp: in_set_conv_nth)
    then have "supplies data (int c) p" using build_provider_adjacency_Ok(3) [OF adj, of "int c"] by simp
    from build_provider_adjacency_Ok(4) [OF adj this] have "0 \<le> p" "nat p < length adj" by simp_all
    then show "0 \<le> p \<and> nat p < length adj \<and> te_meta ?env p \<noteq> None"
      using meta [of p] len by simp
  qed
  with traverse_upstream_total [of ?env process_index] root len meta obtain st where
    "traverse_upstream ?env process_index = Ok st" by auto
  then show ?thesis
    using x h root cfs intensity adj re ie
    by (simp add: analyze_contribution_path_def Let_def usize_try_from_def ensure_def)
qed

text \<open>
  C25. The analysis ends and succeeds on every consistent input: when the solver returned
  activities and impacts, the indices are in range and the snapshot index knows every process
  and the impact, an artifact is produced, whatever the options and the cycles of the data.
\<close>

theorem contribution_analysis_succeeds:
  assumes "sr_x solved = Some x" and "process_count data = int (length x)"
    and "sr_h solved = Some h" and "0 \<le> impact_index" and "nat impact_index < length h"
    and "0 \<le> process_index" and "nat process_index < length x"
    and "\<forall>p < length x. \<exists>e \<in> set (six_process_map index). spm_process_index e = int p"
    and "\<exists>e \<in> set (six_impact_map index). sim_impact_index e = impact_index"
    and "\<forall>t \<in> set (technosphere_entries data).
      0 \<le> st_row t \<and> nat (st_row t) < length x \<and> 0 \<le> st_col t \<and> nat (st_col t) < length x"
    and "\<forall>t \<in> set (biosphere_entries data). 0 \<le> st_row t \<and> 0 \<le> st_col t \<and> nat (st_col t) < length x"
    and "\<forall>cf \<in> set (characterization_factors data). st_row cf = impact_index \<longrightarrow> 0 \<le> st_col cf"
  shows "\<exists>art. analyze_contribution_path show_uuid set_order now snapshot_id job_id process_id impact_id
      process_index impact_index amount options index data solved = Ok art"
  by (rule analyze_total [OF assms])

text \<open>Two processes that supply each other, of which the second one emits.\<close>

definition loop_data :: model_sparse_data where
  "loop_data = \<lparr>model_version = 1, process_count = 2, flow_count = 1, impact_count = 1,
     technosphere_entries = [\<lparr>st_row = 1, st_col = 0, st_value = Fin (1 / 2)\<rparr>, \<lparr>st_row = 0, st_col = 1, st_value = Fin (1 / 4)\<rparr>],
     biosphere_entries = [\<lparr>st_row = 0, st_col = 1, st_value = Fin 2\<rparr>],
     characterization_factors = [\<lparr>st_row = 0, st_col = 0, st_value = Fin 3\<rparr>]\<rparr>"

definition loop_index :: "unit snapshot_index_document" where
  "loop_index = \<lparr>six_version = 1, six_snapshot_id = 1, six_process_count = 2, six_impact_count = 1,
     six_process_map =
       [\<lparr>spm_process_id = 10, spm_process_index = 0, spm_process_version = ''1'', spm_process_name = Some ''Root'', spm_location = None\<rparr>,
        \<lparr>spm_process_id = 11, spm_process_index = 1, spm_process_version = ''1'', spm_process_name = None, spm_location = None\<rparr>],
     six_impact_map = [\<lparr>sim_impact_id = 20, sim_impact_index = 0, sim_impact_version = None, sim_impact_key = ''GWP'',
        sim_impact_name = ''Global warming'', sim_unit = ''kg''\<rparr>],
     six_calculation_evidence = None\<rparr>"

definition loop_solved :: solve_result where
  "loop_solved = \<lparr>sr_x = Some [Fin 1, Fin (1 / 2)], sr_g = None, sr_h = Some [Fin 3], sr_factorization_state = Ready\<rparr>"

definition loop_analysis :: "(path_error, contribution_path_artifact) result" where
  "loop_analysis = analyze_contribution_path (\<lambda>_. ''id'') rev ''now'' 1 2 10 20 0 0 (Fin 1) path_options_default
     loop_index loop_data loop_solved"

lemmas loop_defs = loop_data_def loop_index_def loop_solved_def

lemma loop_covered: "p < 2 \<Longrightarrow> \<exists>e \<in> set (six_process_map loop_index). spm_process_index e = int p"
  by (auto simp: loop_index_def less_2_cases_iff)

lemma loop_analysis_total: "\<exists>art. loop_analysis = Ok art"
  unfolding loop_analysis_def
  by (rule analyze_total [where x = "[Fin 1, Fin (1 / 2)]" and h = "[Fin 3]"])
    (simp_all add: loop_covered, simp_all add: loop_defs)

theorem contribution_analysis_succeeds_witness:
  "\<exists>art. analyze_contribution_path (\<lambda>_. ''id'') rev ''now'' 1 2 11 20 1 0 (Fin 1) path_options_default
     loop_index loop_data loop_solved = Ok art"
  by (rule contribution_analysis_succeeds [where x = "[Fin 1, Fin (1 / 2)]" and h = "[Fin 3]"])
    (simp_all add: loop_covered, simp_all add: loop_defs)

theorem contribution_analysis_bounded_witness:
  "\<exists>art. loop_analysis = Ok art \<and> max_depth (cpa_options art) \<le> 8 \<and>
     expanded_node_count (cpa_summary art) \<le> max_nodes (cpa_options art)"
proof -
  obtain art where "loop_analysis = Ok art" using loop_analysis_total by blast
  with contribution_analysis_bounded [OF this [unfolded loop_analysis_def]] show ?thesis by blast
qed

theorem contribution_branches_are_supply_chains_witness:
  "\<exists>art. loop_analysis = Ok art \<and> map rank (cpa_branches art) = [1..<length (cpa_branches art) + 1]"
proof -
  obtain art where "loop_analysis = Ok art" using loop_analysis_total by blast
  with contribution_branches_are_supply_chains [OF this [unfolded loop_analysis_def]] show ?thesis by blast
qed

text \<open>A process is listed when it is the root or its direct impact is above the threshold.\<close>

definition listed_process :: "model_sparse_data \<Rightarrow> i32 \<Rightarrow> f64 list \<Rightarrow> i32 \<Rightarrow> i32 \<Rightarrow> bool" where
  "listed_process data impact_index x process_index i \<longleftrightarrow>
     0 \<le> i \<and> nat i < length x \<and>
     (i = process_index \<or> \<not> f_le (f_abs (direct_impact_of data impact_index x (nat i))) direct_epsilon)"

lemma process_contribution_listed:
  assumes "length direct = length x" and "\<And>p. p < length x \<Longrightarrow> direct ! p = direct_impact_of data k x p"
  shows "process_contribution sh direct tot depths r e =
    (if listed_process data k x r (spm_process_index e)
     then Some \<lparr>pc_process_id = spm_process_id e, pc_process_index = spm_process_index e,
                pc_label = entry_label sh e, pc_location = spm_location e,
                pc_direct_impact = direct_impact_of data k x (nat (spm_process_index e)),
                pc_share_of_total = f_div (f_abs (direct_impact_of data k x (nat (spm_process_index e)))) tot,
                pc_is_root = (spm_process_index e = r),
                pc_depth_min = map_of depths (spm_process_index e)\<rparr>
     else None)"
  using assms
  by (auto simp: process_contribution_def listed_process_def get_idx_def usize_try_from_def)

lemma contribution_le_abs: "contribution_le l r \<Longrightarrow> f_abs (pc_direct_impact r) \<le> f_abs (pc_direct_impact l)"
  by (auto simp: contribution_le_def)

text \<open>
  C26. The process contributions of a finished analysis are complete and exact: they list,
  by falling magnitude, exactly the index entries of the root and of the processes whose direct
  impact exceeds the threshold, each with the direct impact that the reference formula gives it.
\<close>

theorem process_contributions_exact:
  assumes "analyze_contribution_path show_uuid set_order now snapshot_id job_id process_id impact_id
      process_index impact_index amount options index data solved = Ok art"
    and "sr_x solved = Some x"
  shows "sorted_wrt (\<lambda>l r. f_abs (pc_direct_impact r) \<le> f_abs (pc_direct_impact l)) (process_contributions art) \<and>
    mset (map (\<lambda>c. (pc_process_id c, pc_process_index c, pc_direct_impact c, pc_is_root c)) (process_contributions art)) =
    mset (map (\<lambda>e. (spm_process_id e, spm_process_index e,
                    direct_impact_of data impact_index x (nat (spm_process_index e)),
                    spm_process_index e = process_index))
           (filter (\<lambda>e. listed_process data impact_index x process_index (spm_process_index e)) (six_process_map index)))"
  using assms(1)
proof (cases rule: analyze_OkE)
  case (1 x' h intensity cfs adjacency traversal)
  with assms(2) have [simp]: "x' = x" by simp
  let ?direct = "map2 f_mul x intensity"
  let ?pc = "process_contribution show_uuid ?direct (f_max (f_sum (map f_abs ?direct)) direct_epsilon)
                (min_depth traversal) process_index"
  let ?listed = "\<lambda>e. listed_process data impact_index x process_index (spm_process_index e)"
  have len: "length ?direct = length x" and exact: "\<And>p. p < length x \<Longrightarrow> ?direct ! p = direct_impact_of data impact_index x p"
    using direct_impacts_exact [OF 1(6) 1(7) [unfolded \<open>x' = x\<close>]] 1(4) by auto
  note pc = process_contribution_listed [OF len exact]
  have listed: "List.map_filter ?pc es = map (\<lambda>e. the (?pc e)) (filter ?listed es)" for es
    unfolding List.map_filter_def by (rule map_cong [OF filter_cong]) (auto simp: pc)
  have sorted: "sorted_wrt (\<lambda>l r. f_abs (pc_direct_impact r) \<le> f_abs (pc_direct_impact l)) (process_contributions art)"
    unfolding 1(14) by (rule sorted_wrt_mono_rel [OF _ contribution_order.sorted_sort_by]) (rule contribution_le_abs)
  have fields: "map (\<lambda>c. (pc_process_id c, pc_process_index c, pc_direct_impact c, pc_is_root c))
      (map (\<lambda>e. the (?pc e)) (filter ?listed es)) =
    map (\<lambda>e. (spm_process_id e, spm_process_index e,
                    direct_impact_of data impact_index x (nat (spm_process_index e)),
                    spm_process_index e = process_index)) (filter ?listed es)" for es
    unfolding map_map by (rule map_cong) (auto simp: pc)
  show ?thesis
    using sorted unfolding 1(14) \<open>x' = x\<close> mset_map mset_sort_by listed
    by (simp only: fields mset_map [symmetric] simp_thms)
qed

lemma direct_epsilon_below: "1 < q \<Longrightarrow> \<not> f_le (Fin q) direct_epsilon"
proof -
  assume q: "1 < q"
  have "\<exists>r. direct_epsilon = Fin r \<and> 0 \<le> r \<and> r \<le> 1"
    unfolding direct_epsilon_def by (rule round64_unit_interval) simp_all
  then obtain r where r: "direct_epsilon = Fin r" "r \<le> 1" by blast
  show ?thesis unfolding r(1) using r(2) q by (simp add: f_le_def f_lt_def f_eq_def)
qed

theorem process_contributions_exact_witness:
  "\<exists>art. loop_analysis = Ok art \<and>
     image_mset pc_process_id (mset (process_contributions art)) = {#10, 11#}"
proof -
  obtain art where art: "loop_analysis = Ok art" using loop_analysis_total by blast
  have x: "sr_x loop_solved = Some [Fin 1, Fin (1 / 2)]" by (simp add: loop_solved_def)
  have listed: "listed_process loop_data 0 [Fin 1, Fin (1 / 2)] 0 0" "listed_process loop_data 0 [Fin 1, Fin (1 / 2)] 0 1"
    by (simp_all add: listed_process_def direct_impact_of_def factors_of_def loop_data_def
        direct_epsilon_below f_add_def f_mul_def)
  from process_contributions_exact [OF art [unfolded loop_analysis_def] x]
  have "image_mset fst (mset (map (\<lambda>c. (pc_process_id c, pc_process_index c, pc_direct_impact c, pc_is_root c))
         (process_contributions art))) = {#10, 11#}"
    by (simp add: loop_index_def listed)
  then have "image_mset pc_process_id (mset (process_contributions art)) = {#10, 11#}"
    by (simp add: image_mset.compositionality comp_def)
  with art show ?thesis by blast
qed

end
