(* ===== verification/Snapshot_Coverage.thy ===== *)
theory Snapshot_Coverage
  imports Balance_Compilation
begin

text \<open>
  The compiled graph as a whole (\<open>solver-worker/src/compiled_graph.rs\<close>), the coverage report of a
  snapshot (\<open>solver-worker/src/snapshot_artifacts.rs\<close>) and the summary of the provider decisions
  it carries (\<open>summarize_matching_diagnostics\<close> in \<open>solver-worker/src/bin/snapshot_builder.rs\<close>).
  A \<open>BTreeMap\<close> is an association list in key order; \<open>entry_update\<close> is its entry interface.
  Counters of list elements are integers. The release evidence of a graph has no part in the report.
\<close>

subsection \<open>The compiled graph\<close>

record compiled_reference_stats =
  missing_reference :: int
  invalid_reference :: int
  normalized_processes :: int

record compiled_allocation_stats =
  ca_exchange_total :: int
  ca_fraction_present_count :: int
  ca_fraction_missing_count :: int
  ca_fraction_invalid_count :: int
  ca_legacy_empty_allocation_as_undeclared_count :: int
  ca_legacy_single_output_target_inferred_count :: int
  ca_legacy_single_reference_target_inferred_count :: int

record compiled_graph =
  cg_processes :: "compiled_process list"
  cg_flows :: "compiled_flow list"
  cg_reference_ports :: "compiled_reference_port list"
  cg_balance_resolutions :: "compiled_balance_resolution list"
  cg_unresolved_balances :: "compiled_unresolved_balance list"
  cg_provider_outputs :: "compiled_provider_output list"
  cg_provider_decisions :: "compiled_provider_decision list"
  cg_technosphere_edges :: "compiled_technosphere_edge list"
  cg_biosphere_edges :: "compiled_biosphere_edge list"
  cg_reference_stats :: compiled_reference_stats
  cg_allocation_stats :: compiled_allocation_stats
  cg_matching_stats :: compiled_matching_stats

subsection \<open>The coverage report\<close>

type_synonym count_map = "(string \<times> int) list"

record snapshot_provider_decision_diagnostics =
  resolved_strategy_counts :: count_map
  unresolved_reason_counts :: count_map
  candidate_eligibility_counts :: count_map
  rejected_non_reference_output_count :: int
  dd_volume_fallback_to_one_count :: int
  geography_tier_counts :: count_map
  dd_supply_region_source_counts :: count_map

record snapshot_candidate_summary =
  candidate_count_histogram :: count_map

record snapshot_resolution_summary =
  rsum_resolved_strategy_counts :: count_map
  rsum_unresolved_reason_counts :: count_map

record snapshot_geography_summary =
  tier_counts :: count_map
  tier_counts_by_strategy :: "(string \<times> count_map) list"
  supply_region_source_counts :: count_map
  supply_region_source_counts_by_strategy :: "(string \<times> count_map) list"
  exchange_location_present_count :: int
  exchange_location_present_count_by_strategy :: count_map
  requested_location_granularity_counts :: count_map
  requested_location_granularity_counts_by_strategy :: "(string \<times> count_map) list"

record snapshot_volume_weight_summary =
  candidate_total :: int
  valid_volume_count :: int
  fallback_to_one_count :: int
  decisions_total :: int
  decisions_all_valid_count :: int
  decisions_partial_missing_count :: int
  decisions_all_missing_count :: int

record snapshot_unmatched_flow_entry =
  uf_flow_id :: uuid
  uf_flow_name :: "string option"
  uf_count :: int

record snapshot_process_gap_entry =
  pg_process_id :: uuid
  pg_process_name :: "string option"
  pg_input_edges_total :: int
  pg_unmatched_no_provider :: int
  pg_a_write_pct :: f64

record snapshot_gap_summary =
  unmatched_top_flows :: "snapshot_unmatched_flow_entry list"
  process_gap_top :: "snapshot_process_gap_entry list"

record matching_diagnostics_summary =
  provider_decision_diagnostics :: snapshot_provider_decision_diagnostics
  candidate_summary :: snapshot_candidate_summary
  resolution_summary :: snapshot_resolution_summary
  geography_summary :: snapshot_geography_summary
  volume_weight_summary :: snapshot_volume_weight_summary
  gap_summary :: snapshot_gap_summary

text \<open>The ten counters the coverage copies from the graph are one field, the graph's own record.\<close>

record snapshot_matching_coverage =
  smc_stats :: compiled_matching_stats
  a_write_pct :: f64
  provider_present_resolved_pct :: f64
  unique_provider_match_pct :: f64
  any_provider_match_pct :: f64
  smc_diagnostics :: matching_diagnostics_summary

record snapshot_reference_coverage =
  src_process_total :: int
  normalized_process_count :: int
  missing_reference_count :: int
  invalid_reference_count :: int

record snapshot_allocation_coverage =
  sac_exchange_total :: int
  allocation_fraction_present_pct :: f64
  allocation_fraction_missing_count :: int
  allocation_fraction_invalid_count :: int
  legacy_empty_allocation_as_undeclared_count :: int
  legacy_single_output_target_inferred_count :: int
  legacy_single_reference_target_inferred_count :: int

record snapshot_singular_risk =
  risk_level :: string
  prefilter_diag_abs_ge_cutoff :: int
  postfilter_a_diag_abs_ge_cutoff :: int
  m_zero_diagonal_count :: int
  m_min_abs_diagonal :: f64

record snapshot_matrix_scale =
  ms_process_count :: int
  ms_flow_count :: int
  ms_impact_count :: int
  ms_a_nnz :: int
  ms_b_nnz :: int
  ms_c_nnz :: int
  ms_m_nnz_estimated :: int
  ms_m_sparsity_estimated :: f64

record snapshot_coverage_report =
  cov_schema_version :: string
  cov_matching :: snapshot_matching_coverage
  cov_reference :: snapshot_reference_coverage
  cov_allocation :: snapshot_allocation_coverage
  cov_singular_risk :: snapshot_singular_risk
  cov_matrix_scale :: snapshot_matrix_scale

definition snapshot_coverage_schema_version :: string where
  "snapshot_coverage_schema_version = ''snapshot_coverage.v3''"

subsection \<open>Labels\<close>

fun provider_resolution_strategy_label :: "provider_resolution_strategy \<Rightarrow> string" where
  "provider_resolution_strategy_label StrategyUniqueProvider = ''unique_provider''"
| "provider_resolution_strategy_label StrategySelectedModelResult = ''selected_model_result''"
| "provider_resolution_strategy_label StrategyBestProviderStrict = ''best_provider_strict''"
| "provider_resolution_strategy_label StrategySplitByEvidence = ''split_by_evidence''"
| "provider_resolution_strategy_label StrategySplitByProcessVolume = ''split_by_process_volume''"
| "provider_resolution_strategy_label StrategySplitEqual = ''split_equal''"
| "provider_resolution_strategy_label StrategySplitEqualFallback = ''split_equal_fallback''"

fun provider_geography_tier_label :: "geography_tier \<Rightarrow> string" where
  "provider_geography_tier_label LocalSubnational = ''local_subnational''"
| "provider_geography_tier_label SameCountry = ''same_country''"
| "provider_geography_tier_label SameRegion = ''same_region''"
| "provider_geography_tier_label GlobalTier = ''global''"
| "provider_geography_tier_label OtherTier = ''other''"

fun provider_supply_region_source_label :: "supply_region_source \<Rightarrow> string" where
  "provider_supply_region_source_label ExchangeLocation = ''exchange_location''"
| "provider_supply_region_source_label ConsumerProcessLocation = ''consumer_process_location''"
| "provider_supply_region_source_label UnspecifiedSource = ''unspecified''"

fun provider_failure_reason_label :: "provider_failure_reason \<Rightarrow> string" where
  "provider_failure_reason_label NoProviderCandidates = ''no_provider_candidates''"
| "provider_failure_reason_label RejectedNonReferenceOnly = ''rejected_non_reference_only''"
| "provider_failure_reason_label RuleRequiresUniqueProvider = ''rule_requires_unique_provider''"
| "provider_failure_reason_label NoCandidateGeMinScore = ''no_candidate_ge_min_score''"
| "provider_failure_reason_label Top1BelowTop1MinScore = ''top1_below_top1_min_score''"
| "provider_failure_reason_label Top1Top2RatioTooClose = ''top1_top2_ratio_too_close''"
| "provider_failure_reason_label ScoreSumNonPositive = ''score_sum_non_positive''"
| "provider_failure_reason_label NoOppositeSignReference = ''no_opposite_sign_reference''"
| "provider_failure_reason_label LineageOverlapRequiresBinding = ''lineage_overlap_requires_binding''"

fun provider_candidate_eligibility_label :: "candidate_eligibility \<Rightarrow> string" where
  "provider_candidate_eligibility_label UnknownEligibility = ''unknown''"
| "provider_candidate_eligibility_label AcceptedReferenceOutput = ''accepted_reference_output''"
| "provider_candidate_eligibility_label RejectedNonReferenceOutput = ''rejected_non_reference_output''"
| "provider_candidate_eligibility_label AcceptedOppositeSignReference = ''accepted_opposite_sign_reference''"
| "provider_candidate_eligibility_label RejectedSameSignReference = ''rejected_same_sign_reference''"

definition candidate_count_bucket_label :: "i32 \<Rightarrow> string" where
  "candidate_count_bucket_label n =
     (if n \<le> 0 then ''zero'' else if n = 1 then ''one'' else if n \<le> 5 then ''two_to_five''
      else if n \<le> 20 then ''six_to_twenty'' else ''gt_twenty'')"

definition location_granularity_label :: "string option \<Rightarrow> string" where
  "location_granularity_label location =
     (case Option.bind location trim_nonempty of
        None \<Rightarrow> ''unspecified''
      | Some l \<Rightarrow>
          let d = parse_location_descriptor (Some l)
          in if ld_is_global d then ''global'' else if ld_is_subnational d then ''subnational''
             else if ld_country_code d \<noteq> None then ''country''
             else if ld_region_group d \<noteq> None then ''region'' else ''unknown'')"

subsection \<open>Counting\<close>

fun entry_update :: "'k::linorder \<Rightarrow> 'v \<Rightarrow> ('v \<Rightarrow> 'v) \<Rightarrow> ('k \<times> 'v) list \<Rightarrow> ('k \<times> 'v) list" where
  "entry_update k d f [] = [(k, f d)]"
| "entry_update k d f ((k', v) # m) =
     (if k = k' then (k', f v) # m
      else if k < k' then (k, f d) # (k', v) # m else (k', v) # entry_update k d f m)"

definition bump :: "'k::linorder \<Rightarrow> ('k \<times> int) list \<Rightarrow> ('k \<times> int) list" where
  "bump k m = entry_update k 0 (\<lambda>n. n + 1) m"

definition bump_opt :: "'k::linorder option \<Rightarrow> ('k \<times> int) list \<Rightarrow> ('k \<times> int) list" where
  "bump_opt k m = (case k of None \<Rightarrow> m | Some k \<Rightarrow> bump k m)"

definition bump_in :: "'k::linorder option \<Rightarrow> 'l::linorder option \<Rightarrow> ('k \<times> ('l \<times> int) list) list \<Rightarrow> ('k \<times> ('l \<times> int) list) list" where
  "bump_in k l m = (case (k, l) of (Some k, Some l) \<Rightarrow> entry_update k [] (bump l) m | _ \<Rightarrow> m)"

definition f_round :: "f64 \<Rightarrow> f64" where
  "f_round x = (case x of
     Fin q \<Rightarrow> (let r = (if q < 0 then - \<lfloor>1 / 2 - q\<rfloor> else \<lfloor>q + 1 / 2\<rfloor>)
              in if r = 0 \<and> q < 0 then NegZero else Fin (of_int r))
   | _ \<Rightarrow> x)"

definition pct :: "int \<Rightarrow> int \<Rightarrow> f64" where
  "pct numerator denominator =
     (if denominator \<le> 0 then Fin 0
      else f_div (f_round (f_mul (f_div (round64 (of_int numerator)) (round64 (of_int denominator))) (Fin 10000))) (Fin 100))"

subsection \<open>Decision diagnostics\<close>

definition eligibility_step ::
    "snapshot_provider_decision_diagnostics \<Rightarrow> compiled_provider_candidate \<Rightarrow> snapshot_provider_decision_diagnostics" where
  "eligibility_step s candidate =
     s\<lparr>candidate_eligibility_counts :=
         bump (provider_candidate_eligibility_label (cpc_eligibility candidate)) (candidate_eligibility_counts s),
       rejected_non_reference_output_count :=
         rejected_non_reference_output_count s +
         (if cpc_eligibility candidate = RejectedNonReferenceOutput then 1 else 0)\<rparr>"

definition decision_step ::
    "snapshot_provider_decision_diagnostics \<Rightarrow> compiled_provider_decision \<Rightarrow> snapshot_provider_decision_diagnostics" where
  "decision_step s decision =
     (let s1 = s\<lparr>resolved_strategy_counts :=
                   bump_opt (map_option provider_resolution_strategy_label (cpd_resolution_strategy decision)) (resolved_strategy_counts s),
                 unresolved_reason_counts :=
                   bump_opt (map_option provider_failure_reason_label (cpd_failure_reason decision)) (unresolved_reason_counts s),
                 geography_tier_counts :=
                   bump_opt (map_option provider_geography_tier_label (cpd_geography_tier decision)) (geography_tier_counts s),
                 dd_supply_region_source_counts :=
                   bump_opt (map_option provider_supply_region_source_label (cpd_supply_region_source decision))
                     (dd_supply_region_source_counts s)\<rparr>;
          s2 = foldl eligibility_step s1 (cpd_candidates decision)
      in s2\<lparr>dd_volume_fallback_to_one_count :=
              dd_volume_fallback_to_one_count s2 + cpd_volume_fallback_to_one_count decision\<rparr>)"

definition summarize_provider_decision_diagnostics ::
    "compiled_provider_decision list \<Rightarrow> snapshot_provider_decision_diagnostics" where
  "summarize_provider_decision_diagnostics decisions =
     foldl decision_step
       \<lparr>resolved_strategy_counts = [], unresolved_reason_counts = [], candidate_eligibility_counts = [],
        rejected_non_reference_output_count = 0, dd_volume_fallback_to_one_count = 0,
        geography_tier_counts = [], dd_supply_region_source_counts = []\<rparr> decisions"

subsection \<open>Gaps\<close>

record process_gap_accumulator =
  ga_input_edges_total :: int
  ga_unmatched_no_provider :: int
  ga_a_input_edges_written :: int

definition gap_top_k_limit :: nat where "gap_top_k_limit = 20"

definition flow_entry_le :: "snapshot_unmatched_flow_entry \<Rightarrow> snapshot_unmatched_flow_entry \<Rightarrow> bool" where
  "flow_entry_le l r \<longleftrightarrow> uf_count r < uf_count l \<or> uf_count l = uf_count r \<and> uf_flow_id l \<le> uf_flow_id r"

definition top_unmatched_flows :: "(uuid \<times> int) list \<Rightarrow> snapshot_unmatched_flow_entry list" where
  "top_unmatched_flows counts =
     take gap_top_k_limit (sort_by flow_entry_le
       (map (\<lambda>(flow_id, n). \<lparr>uf_flow_id = flow_id, uf_flow_name = None, uf_count = n\<rparr>) counts))"

definition process_gap_le :: "snapshot_process_gap_entry \<Rightarrow> snapshot_process_gap_entry \<Rightarrow> bool" where
  "process_gap_le l r \<longleftrightarrow>
     (- pg_unmatched_no_provider l, - pg_input_edges_total l, pg_process_id l)
     \<le> (- pg_unmatched_no_provider r, - pg_input_edges_total r, pg_process_id r)"

definition process_gap_of :: "compiled_process list \<Rightarrow> i32 \<times> process_gap_accumulator \<Rightarrow> snapshot_process_gap_entry option" where
  "process_gap_of processes e =
     (if ga_unmatched_no_provider (snd e) = 0 then None
      else map_option (\<lambda>p. \<lparr>pg_process_id = cp_process_id p, pg_process_name = cp_process_name p,
             pg_input_edges_total = ga_input_edges_total (snd e),
             pg_unmatched_no_provider = ga_unmatched_no_provider (snd e),
             pg_a_write_pct = pct (ga_a_input_edges_written (snd e)) (ga_input_edges_total (snd e))\<rparr>)
           (compiled_process_for_idx processes (fst e)))"

definition top_process_gaps ::
    "(i32 \<times> process_gap_accumulator) list \<Rightarrow> compiled_process list \<Rightarrow> snapshot_process_gap_entry list" where
  "top_process_gaps counts processes =
     take gap_top_k_limit (sort_by process_gap_le (List.map_filter (process_gap_of processes) counts))"

subsection \<open>The summary\<close>

text \<open>The local variables of the summary loop.\<close>

record matching_loop =
  ml_histogram :: count_map
  ml_geography :: snapshot_geography_summary
  ml_volume :: snapshot_volume_weight_summary
  ml_unmatched :: "(uuid \<times> int) list"
  ml_gaps :: "(i32 \<times> process_gap_accumulator) list"

definition geography_step :: "snapshot_geography_summary \<Rightarrow> compiled_provider_decision \<Rightarrow> snapshot_geography_summary" where
  "geography_step s decision =
     (let strategy = map_option provider_resolution_strategy_label (cpd_resolution_strategy decision);
          granularity = location_granularity_label (cpd_supply_region_location decision);
          present = cpd_exchange_location_present decision
      in s\<lparr>exchange_location_present_count := exchange_location_present_count s + (if present then 1 else 0),
           requested_location_granularity_counts := bump granularity (requested_location_granularity_counts s),
           tier_counts_by_strategy :=
             bump_in strategy (map_option provider_geography_tier_label (cpd_geography_tier decision)) (tier_counts_by_strategy s),
           supply_region_source_counts_by_strategy :=
             bump_in strategy (map_option provider_supply_region_source_label (cpd_supply_region_source decision))
               (supply_region_source_counts_by_strategy s),
           exchange_location_present_count_by_strategy :=
             (if present then bump_opt strategy (exchange_location_present_count_by_strategy s)
              else exchange_location_present_count_by_strategy s),
           requested_location_granularity_counts_by_strategy :=
             bump_in strategy (Some granularity) (requested_location_granularity_counts_by_strategy s)\<rparr>)"

definition volume_step :: "snapshot_volume_weight_summary \<Rightarrow> compiled_provider_decision \<Rightarrow> snapshot_volume_weight_summary" where
  "volume_step s decision =
     (if cpd_resolution_strategy decision \<noteq> Some StrategySplitByProcessVolume then s
      else let candidates = min (int (length (cpd_allocations decision))) (2 ^ 63 - 1);
               fallback = cpd_volume_fallback_to_one_count decision;
               s1 = s\<lparr>decisions_total := decisions_total s + 1, candidate_total := candidate_total s + candidates,
                      fallback_to_one_count := fallback_to_one_count s + fallback\<rparr>
           in if fallback = 0 then s1\<lparr>decisions_all_valid_count := decisions_all_valid_count s1 + 1\<rparr>
              else if candidates \<le> fallback then s1\<lparr>decisions_all_missing_count := decisions_all_missing_count s1 + 1\<rparr>
              else s1\<lparr>decisions_partial_missing_count := decisions_partial_missing_count s1 + 1\<rparr>)"

definition gap_step :: "compiled_provider_decision \<Rightarrow> process_gap_accumulator \<Rightarrow> process_gap_accumulator" where
  "gap_step decision g =
     \<lparr>ga_input_edges_total = ga_input_edges_total g + 1,
      ga_unmatched_no_provider =
        ga_unmatched_no_provider g + (if cpd_decision_kind decision = Some NoProvider then 1 else 0),
      ga_a_input_edges_written =
        ga_a_input_edges_written g + (if 0 < cpd_matched_provider_count decision then 1 else 0)\<rparr>"

definition matching_step :: "matching_loop \<Rightarrow> compiled_provider_decision \<Rightarrow> matching_loop" where
  "matching_step s decision =
     \<lparr>ml_histogram = bump (candidate_count_bucket_label (cpd_candidate_provider_count decision)) (ml_histogram s),
      ml_geography = geography_step (ml_geography s) decision,
      ml_volume = volume_step (ml_volume s) decision,
      ml_unmatched =
        (if cpd_decision_kind decision = Some NoProvider then bump (cpd_flow_id decision) (ml_unmatched s)
         else ml_unmatched s),
      ml_gaps =
        entry_update (cpd_consumer_idx decision)
          \<lparr>ga_input_edges_total = 0, ga_unmatched_no_provider = 0, ga_a_input_edges_written = 0\<rparr>
          (gap_step decision) (ml_gaps s)\<rparr>"

definition summarize_matching_diagnostics :: "compiled_graph \<Rightarrow> matching_diagnostics_summary" where
  "summarize_matching_diagnostics graph =
     (let diagnostics = summarize_provider_decision_diagnostics (cg_provider_decisions graph);
          s = foldl matching_step
            \<lparr>ml_histogram = [],
             ml_geography = \<lparr>tier_counts = geography_tier_counts diagnostics, tier_counts_by_strategy = [],
               supply_region_source_counts = dd_supply_region_source_counts diagnostics,
               supply_region_source_counts_by_strategy = [], exchange_location_present_count = 0,
               exchange_location_present_count_by_strategy = [], requested_location_granularity_counts = [],
               requested_location_granularity_counts_by_strategy = []\<rparr>,
             ml_volume = \<lparr>candidate_total = 0, valid_volume_count = 0, fallback_to_one_count = 0, decisions_total = 0,
               decisions_all_valid_count = 0, decisions_partial_missing_count = 0, decisions_all_missing_count = 0\<rparr>,
             ml_unmatched = [], ml_gaps = []\<rparr> (cg_provider_decisions graph)
      in \<lparr>provider_decision_diagnostics = diagnostics,
          candidate_summary = \<lparr>candidate_count_histogram = ml_histogram s\<rparr>,
          resolution_summary = \<lparr>rsum_resolved_strategy_counts = resolved_strategy_counts diagnostics,
            rsum_unresolved_reason_counts = unresolved_reason_counts diagnostics\<rparr>,
          geography_summary = ml_geography s,
          volume_weight_summary = (ml_volume s)\<lparr>valid_volume_count :=
            max (candidate_total (ml_volume s) - fallback_to_one_count (ml_volume s)) 0\<rparr>,
          gap_summary = \<lparr>unmatched_top_flows = top_unmatched_flows (ml_unmatched s),
            process_gap_top = top_process_gaps (ml_gaps s) (cg_processes graph)\<rparr>\<rparr>)"

subsection \<open>Facts on counting\<close>

lemma entry_update_keys: "fst ` set (entry_update k d f m) = insert k (fst ` set m)"
  by (induction k d f m rule: entry_update.induct) auto

lemma entry_update_sorted:
  "sorted_wrt (<) (map fst m) \<Longrightarrow> sorted_wrt (<) (map fst (entry_update k d f m))"
proof (induction k d f m rule: entry_update.induct)
  case (2 k d f k' v m)
  have "k \<noteq> k' \<Longrightarrow> \<not> k < k' \<Longrightarrow> \<forall>y \<in> fst ` set (entry_update k d f m). k' < y"
    using "2.prems" unfolding entry_update_keys by auto
  with 2 show ?case by (auto dest: less_trans)
qed simp

lemma map_of_entry_update:
  "sorted_wrt (<) (map fst m) \<Longrightarrow>
   map_of (entry_update k d f m) = (map_of m)(k \<mapsto> f (unwrap_or (map_of m k) d))"
proof (induction k d f m rule: entry_update.induct)
  case (2 k d f k' v m)
  show ?case
  proof (cases "k < k'")
    case True
    with "2.prems" have "k \<notin> fst ` set m" by fastforce
    then have "map_of m k = None" by (simp add: map_of_eq_None_iff)
    with True show ?thesis by (auto simp: fun_eq_iff)
  next
    case False
    with 2 show ?thesis by (auto simp: fun_eq_iff)
  qed
qed (auto simp: fun_eq_iff)

text \<open>Counting the elements that have a label.\<close>

definition occurrences :: "('a \<Rightarrow> 'k option) \<Rightarrow> 'a list \<Rightarrow> 'k \<Rightarrow> int option" where
  "occurrences label xs k =
     (let n = length (filter (\<lambda>x. label x = Some k) xs) in if n = 0 then None else Some (int n))"

lemma occurrences_Cons:
  "occurrences label (xs @ [x]) k =
     (if label x = Some k then Some (unwrap_or (occurrences label xs k) 0 + 1) else occurrences label xs k)"
  by (simp add: occurrences_def Let_def unwrap_or_def)

lemma tally:
  "sorted_wrt (<) (map fst (foldl (\<lambda>m x. bump_opt (label x) m) [] xs)) \<and>
   map_of (foldl (\<lambda>m x. bump_opt (label x) m) [] xs) = occurrences label xs"
proof (induction xs rule: rev_induct)
  case Nil
  show ?case by (simp add: occurrences_def fun_eq_iff)
next
  case (snoc x xs)
  let ?m = "foldl (\<lambda>m x. bump_opt (label x) m) [] xs"
  have s: "sorted_wrt (<) (map fst ?m)" and m: "map_of ?m = occurrences label xs" using snoc by blast+
  show ?case
  proof (cases "label x")
    case None
    with s m show ?thesis by (simp add: bump_opt_def fun_eq_iff occurrences_Cons)
  next
    case (Some k)
    then have "foldl (\<lambda>m x. bump_opt (label x) m) [] (xs @ [x]) = entry_update k 0 (\<lambda>n. n + 1) ?m"
      by (simp add: bump_opt_def bump_def)
    then show ?thesis
      by (auto simp: entry_update_sorted [OF s] map_of_entry_update [OF s] m Some fun_eq_iff occurrences_Cons)
  qed
qed

text \<open>A map of maps counts pairs of labels; an absent outer key is an empty inner map.\<close>

lemma tally_in:
  "sorted_wrt (<) (map fst (foldl (\<lambda>m x. bump_in (outer x) (inner x) m) [] xs)) \<and>
   (\<forall>k. sorted_wrt (<) (map fst (unwrap_or (map_of (foldl (\<lambda>m x. bump_in (outer x) (inner x) m) [] xs) k) [])) \<and>
      map_of (unwrap_or (map_of (foldl (\<lambda>m x. bump_in (outer x) (inner x) m) [] xs) k) []) =
        occurrences (\<lambda>x. if outer x = Some k then inner x else None) xs)"
proof (induction xs rule: rev_induct)
  case Nil
  show ?case by (simp add: occurrences_def fun_eq_iff)
next
  case (snoc x xs)
  let ?m = "foldl (\<lambda>m x. bump_in (outer x) (inner x) m) [] xs"
  have s: "sorted_wrt (<) (map fst ?m)" and si: "sorted_wrt (<) (map fst (unwrap_or (map_of ?m k) []))"
    and m: "map_of (unwrap_or (map_of ?m k) []) = occurrences (\<lambda>x. if outer x = Some k then inner x else None) xs" for k
    using snoc by blast+
  show ?case
  proof (cases "\<exists>k l. outer x = Some k \<and> inner x = Some l")
    case False
    then have "bump_in (outer x) (inner x) ?m = ?m" by (auto simp: bump_in_def split: option.split)
    moreover have "occurrences (\<lambda>x. if outer x = Some k then inner x else None) (xs @ [x]) =
        occurrences (\<lambda>x. if outer x = Some k then inner x else None) xs" for k
      using False by (auto simp: fun_eq_iff occurrences_Cons)
    ultimately show ?thesis using s si m by simp
  next
    case True
    then obtain k l where kl: "outer x = Some k" "inner x = Some l" by blast
    then have f: "foldl (\<lambda>m x. bump_in (outer x) (inner x) m) [] (xs @ [x]) = entry_update k [] (bump l) ?m"
      by (simp add: bump_in_def)
    have e: "unwrap_or (map_of (entry_update k [] (bump l) ?m) k') [] =
        (if k' = k then bump l (unwrap_or (map_of ?m k) []) else unwrap_or (map_of ?m k') [])" for k'
      by (simp add: map_of_entry_update [OF s])
    show ?thesis unfolding f e
      using entry_update_sorted [OF s] entry_update_sorted [OF si] si
      by (auto simp: bump_def map_of_entry_update [OF si] m fun_eq_iff occurrences_Cons kl)
  qed
qed

lemma foldl_field: "(\<And>s x. g (f s x) = h (g s) x) \<Longrightarrow> g (foldl f s xs) = foldl h (g s) xs"
  by (induction xs arbitrary: s) simp_all

lemma eligibility_fields:
  "resolved_strategy_counts (foldl eligibility_step s cs) = resolved_strategy_counts s"
  "unresolved_reason_counts (foldl eligibility_step s cs) = unresolved_reason_counts s"
  by (induction cs arbitrary: s) (simp_all add: eligibility_step_def)

lemma volume_step_counts:
  "decisions_total (volume_step s d) =
     decisions_total s + (if cpd_resolution_strategy d = Some StrategySplitByProcessVolume then 1 else 0)"
  "decisions_all_valid_count (volume_step s d) + decisions_partial_missing_count (volume_step s d) +
     decisions_all_missing_count (volume_step s d) - decisions_total (volume_step s d) =
   decisions_all_valid_count s + decisions_partial_missing_count s + decisions_all_missing_count s - decisions_total s"
  by (simp_all add: volume_step_def Let_def)

lemma volume_fold_total:
  "decisions_total (foldl volume_step s ds) = decisions_total s +
      int (length (filter (\<lambda>d. cpd_resolution_strategy d = Some StrategySplitByProcessVolume) ds))"
  by (induction ds arbitrary: s) (simp_all add: volume_step_counts(1))

lemma volume_fold_split:
  "decisions_all_valid_count (foldl volume_step s ds) + decisions_partial_missing_count (foldl volume_step s ds) +
     decisions_all_missing_count (foldl volume_step s ds) - decisions_total (foldl volume_step s ds) =
   decisions_all_valid_count s + decisions_partial_missing_count s + decisions_all_missing_count s - decisions_total s"
proof (induction ds arbitrary: s)
  case (Cons d ds)
  show ?case unfolding foldl.simps Cons.IH volume_step_counts(2) ..
qed simp

interpretation flow_entry_order: total_preorder flow_entry_le
  by unfold_locales (auto simp: flow_entry_le_def)

interpretation process_gap_order: total_preorder process_gap_le
  by unfold_locales (auto simp: process_gap_le_def)

text \<open>The first elements of a sorted list precede the others.\<close>

lemma take_sort_by:
  assumes "total_preorder le" and "x \<in> set (take n (sort_by le xs))" and "y \<in> set xs" "y \<notin> set (take n (sort_by le xs))"
  shows "le x y"
proof -
  have "sorted_wrt le (take n (sort_by le xs) @ drop n (sort_by le xs))"
    using total_preorder.sorted_sort_by [OF assms(1)] by simp
  moreover have "y \<in> set (drop n (sort_by le xs))"
    using assms(3,4) set_sort_by [of le xs] append_take_drop_id [of n "sort_by le xs"] by (metis Un_iff set_append)
  ultimately show ?thesis using assms(2) unfolding sorted_wrt_append by blast
qed

lemma top_unmatched_flows_exact:
  assumes "distinct (map fst counts)" and "map_of counts = c"
  defines "t \<equiv> top_unmatched_flows counts"
  shows "e \<in> set t \<Longrightarrow> c (uf_flow_id e) = Some (uf_count e)"
    and "length t = min gap_top_k_limit (card (dom c))"
    and "c flow = Some n \<Longrightarrow> flow \<notin> uf_flow_id ` set t \<Longrightarrow> e \<in> set t \<Longrightarrow> n \<le> uf_count e"
proof -
  let ?f = "\<lambda>(flow_id, n). \<lparr>uf_flow_id = flow_id, uf_flow_name = None, uf_count = n\<rparr>"
  have t_eq: "t = take gap_top_k_limit (sort_by flow_entry_le (map ?f counts))"
    by (simp add: t_def top_unmatched_flows_def)
  show "e \<in> set t \<Longrightarrow> c (uf_flow_id e) = Some (uf_count e)"
    using set_take_subset [of gap_top_k_limit "sort_by flow_entry_le (map ?f counts)"] assms(1,2)
    unfolding t_eq by (auto simp: map_of_eq_Some_iff)
  have "card (dom c) = length counts"
    using assms(1,2) by (metis distinct_card dom_map_of_conv_image_fst length_map list.set_map)
  then show "length t = min gap_top_k_limit (card (dom c))" by (simp add: t_eq min.commute)
  assume n: "c flow = Some n" "flow \<notin> uf_flow_id ` set t" and e: "e \<in> set t"
  have "?f (flow, n) \<in> set (map ?f counts)" using n(1) assms(2) by (force dest: map_of_SomeD)
  moreover have "?f (flow, n) \<notin> set t" using n(2) by force
  ultimately have "flow_entry_le e (?f (flow, n))"
    using take_sort_by [OF flow_entry_order.total_preorder_axioms e [unfolded t_eq]] unfolding t_eq by blast
  then show "n \<le> uf_count e" by (auto simp: flow_entry_le_def)
qed

subsection \<open>Example graph\<close>

text \<open>A graph that only has decisions, and a decision without provider.\<close>

definition decisions_graph :: "compiled_provider_decision list \<Rightarrow> compiled_graph" where
  "decisions_graph decisions =
     \<lparr>cg_processes = [], cg_flows = [], cg_reference_ports = [], cg_balance_resolutions = [], cg_unresolved_balances = [],
      cg_provider_outputs = [], cg_provider_decisions = decisions, cg_technosphere_edges = [], cg_biosphere_edges = [],
      cg_reference_stats = \<lparr>missing_reference = 0, invalid_reference = 0, normalized_processes = 0\<rparr>,
      cg_allocation_stats = \<lparr>ca_exchange_total = 0, ca_fraction_present_count = 0, ca_fraction_missing_count = 0,
        ca_fraction_invalid_count = 0, ca_legacy_empty_allocation_as_undeclared_count = 0,
        ca_legacy_single_output_target_inferred_count = 0, ca_legacy_single_reference_target_inferred_count = 0\<rparr>,
      cg_matching_stats = matching_stats_default\<rparr>"

definition unmatched_decision :: compiled_provider_decision where
  "unmatched_decision =
     \<lparr>cpd_consumer_idx = 0, cpd_flow_id = 7, cpd_flow_version = ''1'', cpd_candidate_provider_count = 0,
      cpd_matched_provider_count = 0, cpd_candidates = [], cpd_decision_kind = Some NoProvider,
      cpd_resolution_strategy = None, cpd_failure_reason = Some NoProviderCandidates, cpd_used_equal_fallback = False,
      cpd_volume_fallback_to_one_count = 0, cpd_geography_tier = None, cpd_supply_region_source = None,
      cpd_supply_region_location = None, cpd_exchange_location_present = False, cpd_allocations = []\<rparr>"

subsection \<open>Properties\<close>

definition strategy_of :: "compiled_provider_decision \<Rightarrow> string option" where
  "strategy_of d = map_option provider_resolution_strategy_label (cpd_resolution_strategy d)"

definition unmatched_flow_of :: "compiled_provider_decision \<Rightarrow> uuid option" where
  "unmatched_flow_of d = (if cpd_decision_kind d = Some NoProvider then Some (cpd_flow_id d) else None)"

text \<open>
  C39. The matching section of the coverage report tells the truth about the provider decisions:
  each strategy, failure reason and number of candidates is counted exactly as often as it occurs,
  the geography tiers also per strategy; decisions by volume are split into complete, partial and
  missing volumes; the listed flows without provider come with the number of their decisions, and
  no flow that is left out has more of them than a listed one.
\<close>

theorem matching_diagnostics_exact:
  fixes graph
  defines "m \<equiv> summarize_matching_diagnostics graph" and "ds \<equiv> cg_provider_decisions graph"
  shows "map_of (rsum_resolved_strategy_counts (resolution_summary m)) = occurrences strategy_of ds \<and>
    map_of (rsum_unresolved_reason_counts (resolution_summary m)) =
      occurrences (\<lambda>d. map_option provider_failure_reason_label (cpd_failure_reason d)) ds \<and>
    map_of (candidate_count_histogram (candidate_summary m)) =
      occurrences (\<lambda>d. Some (candidate_count_bucket_label (cpd_candidate_provider_count d))) ds \<and>
    (\<forall>s. map_of (unwrap_or (map_of (tier_counts_by_strategy (geography_summary m)) s) []) =
      occurrences (\<lambda>d. if strategy_of d = Some s
        then map_option provider_geography_tier_label (cpd_geography_tier d) else None) ds) \<and>
    decisions_total (volume_weight_summary m) =
      int (length (filter (\<lambda>d. cpd_resolution_strategy d = Some StrategySplitByProcessVolume) ds)) \<and>
    decisions_all_valid_count (volume_weight_summary m) + decisions_partial_missing_count (volume_weight_summary m) +
      decisions_all_missing_count (volume_weight_summary m) = decisions_total (volume_weight_summary m) \<and>
    length (unmatched_top_flows (gap_summary m)) = min 20 (card (dom (occurrences unmatched_flow_of ds))) \<and>
    (\<forall>e \<in> set (unmatched_top_flows (gap_summary m)).
       occurrences unmatched_flow_of ds (uf_flow_id e) = Some (uf_count e) \<and>
       (\<forall>flow n. occurrences unmatched_flow_of ds flow = Some n \<and>
          flow \<notin> uf_flow_id ` set (unmatched_top_flows (gap_summary m)) \<longrightarrow> n \<le> uf_count e))"
proof -
  define diagnostics where "diagnostics = summarize_provider_decision_diagnostics ds"
  define l where "l = foldl matching_step
            \<lparr>ml_histogram = [],
             ml_geography = \<lparr>tier_counts = geography_tier_counts diagnostics, tier_counts_by_strategy = [],
               supply_region_source_counts = dd_supply_region_source_counts diagnostics,
               supply_region_source_counts_by_strategy = [], exchange_location_present_count = 0,
               exchange_location_present_count_by_strategy = [], requested_location_granularity_counts = [],
               requested_location_granularity_counts_by_strategy = []\<rparr>,
             ml_volume = \<lparr>candidate_total = 0, valid_volume_count = 0, fallback_to_one_count = 0, decisions_total = 0,
               decisions_all_valid_count = 0, decisions_partial_missing_count = 0, decisions_all_missing_count = 0\<rparr>,
             ml_unmatched = [], ml_gaps = []\<rparr> ds"
  note defs = m_def summarize_matching_diagnostics_def Let_def ds_def [symmetric] diagnostics_def [symmetric] l_def [symmetric]
  have strategies: "resolved_strategy_counts diagnostics = foldl (\<lambda>m d. bump_opt (strategy_of d) m) [] ds"
    unfolding diagnostics_def summarize_provider_decision_diagnostics_def
    by (subst foldl_field [where h = "\<lambda>m d. bump_opt (strategy_of d) m"])
      (simp_all add: decision_step_def Let_def eligibility_fields strategy_of_def)
  have reasons: "unresolved_reason_counts diagnostics =
      foldl (\<lambda>m d. bump_opt (map_option provider_failure_reason_label (cpd_failure_reason d)) m) [] ds"
    unfolding diagnostics_def summarize_provider_decision_diagnostics_def
    by (subst foldl_field [where h = "\<lambda>m d. bump_opt (map_option provider_failure_reason_label (cpd_failure_reason d)) m"])
      (simp_all add: decision_step_def Let_def eligibility_fields)
  have histogram: "ml_histogram l =
      foldl (\<lambda>m d. bump_opt (Some (candidate_count_bucket_label (cpd_candidate_provider_count d))) m) [] ds"
    unfolding l_def
    by (subst foldl_field [where h = "\<lambda>m d. bump_opt (Some (candidate_count_bucket_label (cpd_candidate_provider_count d))) m"])
      (simp_all add: matching_step_def bump_opt_def)
  have tiers: "tier_counts_by_strategy (ml_geography l) =
      foldl (\<lambda>m d. bump_in (strategy_of d) (map_option provider_geography_tier_label (cpd_geography_tier d)) m) [] ds"
    unfolding l_def
    by (subst foldl_field [where g = "\<lambda>s. tier_counts_by_strategy (ml_geography s)" and
          h = "\<lambda>m d. bump_in (strategy_of d) (map_option provider_geography_tier_label (cpd_geography_tier d)) m"])
      (simp_all add: matching_step_def geography_step_def Let_def strategy_of_def)
  have unmatched: "ml_unmatched l = foldl (\<lambda>m d. bump_opt (unmatched_flow_of d) m) [] ds"
    unfolding l_def
    by (subst foldl_field [where h = "\<lambda>m d. bump_opt (unmatched_flow_of d) m"])
      (simp_all add: matching_step_def bump_opt_def unmatched_flow_of_def)
  have volume: "ml_volume l = foldl volume_step \<lparr>candidate_total = 0, valid_volume_count = 0, fallback_to_one_count = 0,
      decisions_total = 0, decisions_all_valid_count = 0, decisions_partial_missing_count = 0, decisions_all_missing_count = 0\<rparr> ds"
    unfolding l_def by (subst foldl_field [where h = volume_step]) (simp_all add: matching_step_def)
  have counts: "distinct (map fst (ml_unmatched l))" "map_of (ml_unmatched l) = occurrences unmatched_flow_of ds"
    using tally [of unmatched_flow_of ds] unfolding unmatched by (auto simp: strict_sorted_iff)
  note flows = top_unmatched_flows_exact [OF counts]
  have split: "decisions_all_valid_count (ml_volume l) + decisions_partial_missing_count (ml_volume l) +
      decisions_all_missing_count (ml_volume l) = decisions_total (ml_volume l)"
    using volume_fold_split [of "\<lparr>candidate_total = 0, valid_volume_count = 0, fallback_to_one_count = 0,
      decisions_total = 0, decisions_all_valid_count = 0, decisions_partial_missing_count = 0, decisions_all_missing_count = 0\<rparr>" ds]
    unfolding volume by simp
  have total: "decisions_total (ml_volume l) =
      int (length (filter (\<lambda>d. cpd_resolution_strategy d = Some StrategySplitByProcessVolume) ds))"
    unfolding volume volume_fold_total by simp
  show ?thesis
    using flows(2) flows(1,3) split total unfolding defs gap_top_k_limit_def
    by (auto simp: strategies reasons histogram tiers tally tally_in)
qed

theorem matching_diagnostics_exact_witness:
  "\<exists>e \<in> set (unmatched_top_flows (gap_summary (summarize_matching_diagnostics (decisions_graph [unmatched_decision, unmatched_decision])))).
     uf_flow_id e = 7 \<and> uf_count e = 2"
proof -
  let ?g = "decisions_graph [unmatched_decision, unmatched_decision]"
  have occ: "occurrences unmatched_flow_of (cg_provider_decisions ?g) = [7 \<mapsto> 2]"
    by (auto simp: occurrences_def fun_eq_iff decisions_graph_def unmatched_decision_def unmatched_flow_of_def Let_def)
  note exact = matching_diagnostics_exact [of ?g, unfolded occ]
  from exact have "length (unmatched_top_flows (gap_summary (summarize_matching_diagnostics ?g))) = 1" by simp
  then obtain e where "unmatched_top_flows (gap_summary (summarize_matching_diagnostics ?g)) = [e]"
    by (auto simp: length_Suc_conv)
  with exact show ?thesis by (simp split: if_splits)
qed

end
