(* ===== verification/Matrix_Readiness.thy ===== *)
theory Matrix_Readiness
  imports Snapshot_Coverage Solver_Service
begin

text \<open>
  The readiness gate of a snapshot (\<open>solver-worker/src/readiness.rs\<close>): findings and blockers from
  the provider closure, the graph and a trial factorization with unit solves on a fresh solver
  service, the status, the next action and the report. Of the build configuration the gate reads
  the boundary policy and whether a scope closure is bound. Printers of floats and of the derived
  debug output, the report's time stamp and the clock readings are arguments.
\<close>

subsection \<open>Data\<close>

datatype readiness_status = ReadinessPassed | ReadinessFailed

datatype finding_severity = SeverityInfo | SeverityWarning | SeverityBlocker

datatype compute_anomaly_policy = AnomalyIgnore | AnomalyWarning | AnomalyBlocker

record matrix_readiness_policy =
  min_provider_write_pct :: f64
  max_unmatched_no_provider :: int
  max_multi_unresolved :: int
  allow_equal_fallback :: bool
  allow_medium_singular_risk :: bool
  allow_high_singular_risk :: bool
  require_lcia_factors :: bool
  run_factorization :: bool
  sample_solve_unit_limit :: usize
  negative_lcia_policy :: compute_anomaly_policy
  negative_lcia_epsilon :: f64

record build_config =
  technosphere_boundary_policy :: string
  scope_closure_bound :: bool

record matrix_readiness_input =
  mi_schema_version :: string
  mi_snapshot_id :: "uuid option"
  mi_config :: "build_config option"
  mi_coverage :: snapshot_coverage_report
  mi_payload :: model_sparse_data
  mi_compiled_graph :: "compiled_graph option"
  mi_policy :: matrix_readiness_policy

record readiness_finding =
  code :: string
  severity :: finding_severity
  message :: string
  details :: json

record compute_stability_metrics =
  factorization_checked :: bool
  factorization_ready :: bool
  cm_validation :: "validation_report option"
  sampled_unit_solves :: usize
  non_finite_value_count :: usize
  negative_lcia_value_count :: usize
  min_lcia_value :: "f64 option"

record provider_candidate_evidence =
  ce_provider_idx :: i32
  ce_provider_id :: uuid
  ce_output_exchange_internal_id :: "string option"
  ce_output_exchange_is_reference :: bool
  ce_output_normalized_amount :: "f64 option"
  ce_output_allocation_state :: string
  ce_eligibility :: string
  ce_process_name :: "string option"
  ce_location :: "string option"
  ce_reference_year :: "i32 option"
  ce_annual_volume :: "f64 option"
  ce_reference_exchange_internal_id :: "string option"
  ce_reference_coefficient :: "f64 option"

record provider_allocation_evidence =
  ae_provider_idx :: i32
  ae_provider_id :: "uuid option"
  ae_weight :: f64

record provider_decision_evidence =
  de_consumer_idx :: i32
  de_consumer_process_id :: "uuid option"
  de_consumer_process_version :: "string option"
  de_consumer_process_name :: "string option"
  de_flow_id :: uuid
  de_flow_version :: string
  de_candidate_provider_count :: i32
  de_matched_provider_count :: i32
  de_decision_kind :: "string option"
  de_resolution_strategy :: "string option"
  de_failure_reason :: "string option"
  de_ambiguity :: string
  de_confidence :: string
  de_geography_tier :: "string option"
  de_supply_region_source :: "string option"
  de_supply_region_location :: "string option"
  de_candidates :: "provider_candidate_evidence list"
  de_allocations :: "provider_allocation_evidence list"

text \<open>The counters and the scale the metrics repeat are the records of the coverage report.\<close>

record provider_closure_metrics =
  pc_stats :: compiled_matching_stats
  pc_a_write_pct :: f64
  pc_provider_present_resolved_pct :: f64
  provider_evidence_count :: usize

record graph_readiness_metrics =
  gm_scale :: snapshot_matrix_scale
  reference_missing_count :: int
  reference_invalid_count :: int
  gm_allocation_fraction_missing_count :: int
  gm_allocation_fraction_invalid_count :: int
  gm_legacy_empty_allocation_as_undeclared_count :: int
  gm_legacy_single_output_target_inferred_count :: int
  gm_legacy_single_reference_target_inferred_count :: int
  singular_risk_level :: string
  gm_m_zero_diagonal_count :: int
  gm_m_min_abs_diagonal :: f64

record matrix_readiness_metrics =
  provider_closure :: provider_closure_metrics
  graph_readiness :: graph_readiness_metrics
  compute_stability :: compute_stability_metrics

record matrix_readiness_report =
  mr_schema_version :: string
  generated_at_utc :: string
  mr_snapshot_id :: "uuid option"
  mr_status :: readiness_status
  mr_next_action :: string
  mr_policy :: matrix_readiness_policy
  mr_metrics :: matrix_readiness_metrics
  provider_evidence :: "provider_decision_evidence list"
  balance_evidence :: "compiled_balance_resolution list"
  mr_unresolved_balances :: "compiled_unresolved_balance list"
  findings :: "readiness_finding list"
  blockers :: "readiness_finding list"

record readiness_env =
  re_solver :: solver_env
  re_show_f64 :: "f64 \<Rightarrow> string"
  re_debug_validation :: "validation_report \<Rightarrow> string"
  re_generated_at :: string
  re_now :: "nat \<Rightarrow> nat"
  re_stage :: "nat \<Rightarrow> stage_clock"

definition default_policy :: matrix_readiness_policy where
  "default_policy =
     \<lparr>min_provider_write_pct = Fin 100, max_unmatched_no_provider = 0, max_multi_unresolved = 0,
      allow_equal_fallback = False, allow_medium_singular_risk = False, allow_high_singular_risk = False,
      require_lcia_factors = True, run_factorization = True, sample_solve_unit_limit = 16,
      negative_lcia_policy = AnomalyWarning, negative_lcia_epsilon = round64 (1 / 10 ^ 12)\<rparr>"

definition policy_of_config :: "build_config \<Rightarrow> bool \<Rightarrow> matrix_readiness_policy" where
  "policy_of_config config has_lcia =
     default_policy\<lparr>allow_medium_singular_risk := scope_closure_bound config, require_lcia_factors := has_lcia\<rparr>"

subsection \<open>JSON details\<close>

definition json_object :: "(string \<times> json) list \<Rightarrow> json" where
  "json_object members = JObject (sort_by_key fst members)"

definition json_int :: "int \<Rightarrow> json" where
  "json_int n = JNumber (if n < 0 then NegInt n else PosInt (nat n))"

definition json_f64 :: "f64 \<Rightarrow> json" where
  "json_f64 x = (if is_finite x then JNumber (Float x) else JNull)"

definition json_option :: "('a \<Rightarrow> json) \<Rightarrow> 'a option \<Rightarrow> json" where
  "json_option f x = (case x of None \<Rightarrow> JNull | Some v \<Rightarrow> f v)"

definition finding :: "string \<Rightarrow> finding_severity \<Rightarrow> string \<Rightarrow> json \<Rightarrow> readiness_finding" where
  "finding c s m d = \<lparr>code = c, severity = s, message = m, details = d\<rparr>"

definition push_blocker :: "readiness_finding list \<Rightarrow> string \<Rightarrow> string \<Rightarrow> json \<Rightarrow> readiness_finding list" where
  "push_blocker bs c m d = bs @ [finding c SeverityBlocker m d]"

subsection \<open>Labels\<close>

fun provider_decision_kind_label :: "provider_decision_kind \<Rightarrow> string" where
  "provider_decision_kind_label UniqueProvider = ''unique_provider''"
| "provider_decision_kind_label MultiResolved = ''multi_resolved''"
| "provider_decision_kind_label MultiUnresolved = ''multi_unresolved''"
| "provider_decision_kind_label NoProvider = ''no_provider''"

fun provider_output_allocation_state_label :: "output_allocation_state \<Rightarrow> string" where
  "provider_output_allocation_state_label UnknownAllocation = ''unknown''"
| "provider_output_allocation_state_label PresentAllocation = ''present''"
| "provider_output_allocation_state_label MissingAllocation = ''missing''"
| "provider_output_allocation_state_label InvalidAllocation = ''invalid''"

definition provider_ambiguity_label :: "compiled_provider_decision \<Rightarrow> string" where
  "provider_ambiguity_label decision =
     (case cpd_decision_kind decision of
        Some UniqueProvider \<Rightarrow> ''none''
      | Some MultiResolved \<Rightarrow> ''multi_provider_resolved''
      | Some MultiUnresolved \<Rightarrow> ''multi_provider_unresolved''
      | Some NoProvider \<Rightarrow> ''no_provider''
      | None \<Rightarrow> ''unknown'')"

definition provider_confidence_label :: "compiled_provider_decision \<Rightarrow> string" where
  "provider_confidence_label decision =
     (let sure = (\<not> cpd_used_equal_fallback decision \<and> cpd_failure_reason decision = None)
      in if cpd_decision_kind decision = Some UniqueProvider \<and> sure then ''high''
         else if cpd_decision_kind decision = Some MultiResolved \<and> sure then ''medium'' else ''low'')"

definition show_builder_error :: "data_builder_error \<Rightarrow> string" where
  "show_builder_error e =
     (case e of
        BuilderInvalidDimensions p f i \<Rightarrow>
          ''invalid dimensions: process='' @ show_int p @ '', flow='' @ show_int f @ '', impact='' @ show_int i
      | BuilderMatrix m \<Rightarrow> ''matrix error: '' @ show_matrix_error m)"

definition show_solver_error :: "readiness_env \<Rightarrow> solver_error \<Rightarrow> string" where
  "show_solver_error env e =
     (case e of
        SvcDataBuilder b \<Rightarrow> ''data builder failed: '' @ show_builder_error b
      | SvcFactorization u \<Rightarrow> ''factorization failed: '' @ show_umfpack_error u
      | NotPrepared mv \<Rightarrow> ''factorization key not prepared for model '' @ env_show_uuid (re_solver env) mv
      | ValidationFailed report \<Rightarrow> ''matrix validation failed: '' @ re_debug_validation env report
      | SvcRhsDimensionMismatch rhs_len n \<Rightarrow>
          ''rhs dimension '' @ show_nat rhs_len @ '' does not match process count '' @ show_nat n
      | WorkloadAdmissionRejected est capacity multiplier \<Rightarrow>
          ''factorization workload admission rejected: estimated_bytes='' @ show_nat est @
          '' capacity_bytes='' @ show_nat capacity @ '' fill_in_multiplier='' @ re_show_f64 env multiplier
      | CacheAdmission c \<Rightarrow>
          ''factorization cache admission rejected: estimated_bytes='' @ show_nat (ae_estimated_bytes c) @
          '' capacity_bytes='' @ show_nat (ae_capacity_bytes c))"

subsection \<open>Provider evidence\<close>

type_synonym process_index = "(i32 \<times> compiled_process) list"

text \<open>Collecting pairs into a map keeps the last one of a key.\<close>

definition process_index_of :: "compiled_process list \<Rightarrow> process_index" where
  "process_index_of processes = rev (map (\<lambda>p. (cp_process_idx p, p)) processes)"

definition candidate_evidence :: "compiled_provider_candidate \<Rightarrow> provider_candidate_evidence" where
  "candidate_evidence c =
     \<lparr>ce_provider_idx = cpc_provider_idx c, ce_provider_id = cpc_provider_id c,
      ce_output_exchange_internal_id = cpc_output_exchange_internal_id c,
      ce_output_exchange_is_reference = cpc_output_exchange_is_reference c,
      ce_output_normalized_amount = cpc_output_normalized_amount c,
      ce_output_allocation_state = provider_output_allocation_state_label (cpc_output_allocation_state c),
      ce_eligibility = provider_candidate_eligibility_label (cpc_eligibility c),
      ce_process_name = cpc_process_name c, ce_location = cpc_location c,
      ce_reference_year = cpc_reference_year c, ce_annual_volume = cpc_annual_volume c,
      ce_reference_exchange_internal_id = cpc_reference_exchange_internal_id c,
      ce_reference_coefficient = cpc_reference_coefficient c\<rparr>"

definition decision_evidence :: "process_index \<Rightarrow> compiled_provider_decision \<Rightarrow> provider_decision_evidence" where
  "decision_evidence processes d =
     (let consumer = map_of processes (cpd_consumer_idx d)
      in \<lparr>de_consumer_idx = cpd_consumer_idx d,
          de_consumer_process_id = map_option cp_process_id consumer,
          de_consumer_process_version = map_option cp_process_version consumer,
          de_consumer_process_name = Option.bind consumer cp_process_name,
          de_flow_id = cpd_flow_id d, de_flow_version = cpd_flow_version d,
          de_candidate_provider_count = cpd_candidate_provider_count d,
          de_matched_provider_count = cpd_matched_provider_count d,
          de_decision_kind = map_option provider_decision_kind_label (cpd_decision_kind d),
          de_resolution_strategy = map_option provider_resolution_strategy_label (cpd_resolution_strategy d),
          de_failure_reason = map_option provider_failure_reason_label (cpd_failure_reason d),
          de_ambiguity = provider_ambiguity_label d, de_confidence = provider_confidence_label d,
          de_geography_tier = map_option provider_geography_tier_label (cpd_geography_tier d),
          de_supply_region_source = map_option provider_supply_region_source_label (cpd_supply_region_source d),
          de_supply_region_location = cpd_supply_region_location d,
          de_candidates = map candidate_evidence (cpd_candidates d),
          de_allocations = map (\<lambda>a. \<lparr>ae_provider_idx = cpl_provider_idx a,
            ae_provider_id = map_option cp_process_id (map_of processes (cpl_provider_idx a)),
            ae_weight = cpl_weight a\<rparr>) (cpd_allocations d)\<rparr>)"

definition provider_evidence_from_graph :: "compiled_graph \<Rightarrow> provider_decision_evidence list" where
  "provider_evidence_from_graph graph =
     map (decision_evidence (process_index_of (cg_processes graph))) (cg_provider_decisions graph)"

subsection \<open>Provider findings\<close>

definition detail_limit :: nat where "detail_limit = 8"

definition candidate_json :: "readiness_env \<Rightarrow> compiled_provider_candidate \<Rightarrow> json" where
  "candidate_json env c =
     json_object
       [(''provider_idx'', json_int (cpc_provider_idx c)),
        (''provider_id'', JString (env_show_uuid (re_solver env) (cpc_provider_id c))),
        (''process_name'', json_option JString (cpc_process_name c)),
        (''output_exchange_internal_id'', json_option JString (cpc_output_exchange_internal_id c)),
        (''output_exchange_is_reference'', JBool (cpc_output_exchange_is_reference c)),
        (''output_normalized_amount'', json_option json_f64 (cpc_output_normalized_amount c)),
        (''output_allocation_state'', JString (provider_output_allocation_state_label (cpc_output_allocation_state c))),
        (''eligibility'', JString (provider_candidate_eligibility_label (cpc_eligibility c)))]"

definition gap_json :: "readiness_env \<Rightarrow> process_index \<Rightarrow> compiled_provider_decision \<Rightarrow> json" where
  "gap_json env processes d =
     (let consumer = map_of processes (cpd_consumer_idx d); show_uuid = env_show_uuid (re_solver env)
      in json_object
       [(''consumer_idx'', json_int (cpd_consumer_idx d)),
        (''consumer_process_id'', json_option (\<lambda>p. JString (show_uuid (cp_process_id p))) consumer),
        (''consumer_process_version'', json_option (\<lambda>p. JString (cp_process_version p)) consumer),
        (''consumer_process_name'', json_option JString (Option.bind consumer cp_process_name)),
        (''flow_id'', JString (show_uuid (cpd_flow_id d))),
        (''flow_version'', JString (cpd_flow_version d)),
        (''candidate_provider_count'', json_int (cpd_candidate_provider_count d)),
        (''matched_provider_count'', json_int (cpd_matched_provider_count d)),
        (''failure_reason'', JString ''rejected_non_reference_only''),
        (''candidates'', JArray (map (candidate_json env) (cpd_candidates d)))])"

definition add_reference_provider_missing_findings ::
    "readiness_env \<Rightarrow> matrix_readiness_input \<Rightarrow> readiness_finding list \<Rightarrow> readiness_finding list" where
  "add_reference_provider_missing_findings env input bs =
     (case mi_compiled_graph input of
        None \<Rightarrow> bs
      | Some graph \<Rightarrow>
          let gaps = map (gap_json env (process_index_of (cg_processes graph)))
                (filter (\<lambda>d. cpd_failure_reason d = Some RejectedNonReferenceOnly) (cg_provider_decisions graph))
          in if gaps = [] then bs
             else push_blocker bs ''provider_closure_reference_provider_missing''
               ''input flows are supplied only by non-reference outputs; publish a complete process whose quantitative reference supplies each flow''
               (json_object [(''missing_reference_provider_count'', json_int (int (length gaps))),
                  (''examples'', JArray (take detail_limit gaps))]))"

definition boundary_label :: "matrix_readiness_input \<Rightarrow> string" where
  "boundary_label input = (case mi_config input of None \<Rightarrow> ''closed'' | Some c \<Rightarrow> technosphere_boundary_policy c)"

definition parse_boundary ::
    "matrix_readiness_input \<Rightarrow> readiness_finding list \<Rightarrow> technosphere_boundary_policy \<times> readiness_finding list" where
  "parse_boundary input bs =
     (case boundary_policy_parse (boundary_label input) of
        Inr p \<Rightarrow> (p, bs)
      | Inl _ \<Rightarrow> (Closed, push_blocker bs ''technosphere_boundary_policy_unsupported''
          (''unsupported technosphere_boundary_policy='' @ boundary_label input @ ''; expected closed, open, or cutoff'')
          (json_object [(''technosphere_boundary_policy'', JString (boundary_label input))])))"

definition closure_blockers ::
    "readiness_env \<Rightarrow> matrix_readiness_input \<Rightarrow> readiness_finding list \<Rightarrow> readiness_finding list" where
  "closure_blockers env input bs =
     (let matching = cov_matching (mi_coverage input); stats = smc_stats matching; policy = mi_policy input;
          bs1 = (if f_lt (a_write_pct matching) (min_provider_write_pct policy)
                 then push_blocker bs ''provider_closure_write_pct_below_policy''
                   (''provider closure wrote '' @ re_show_f64 env (a_write_pct matching) @
                    ''% of input edges; policy requires at least '' @ re_show_f64 env (min_provider_write_pct policy) @ ''%'')
                   (json_object [(''a_write_pct'', json_f64 (a_write_pct matching)),
                      (''min_provider_write_pct'', json_f64 (min_provider_write_pct policy))])
                 else bs);
          bs2 = (if max_unmatched_no_provider policy < unmatched_no_provider stats
                 then push_blocker bs1 ''provider_closure_unmatched''
                   (show_int (unmatched_no_provider stats) @ '' input edges have no provider; policy allows '' @
                    show_int (max_unmatched_no_provider policy))
                   (json_object [(''unmatched_no_provider'', json_int (unmatched_no_provider stats)),
                      (''max_unmatched_no_provider'', json_int (max_unmatched_no_provider policy))])
                 else bs1);
          bs3 = add_reference_provider_missing_findings env input bs2
      in if max_multi_unresolved policy < matched_multi_unresolved stats
         then push_blocker bs3 ''provider_closure_multi_unresolved''
           (show_int (matched_multi_unresolved stats) @ '' multi-provider edges are unresolved; policy allows '' @
            show_int (max_multi_unresolved policy))
           (json_object [(''matched_multi_unresolved'', json_int (matched_multi_unresolved stats)),
              (''max_multi_unresolved'', json_int (max_multi_unresolved policy))])
         else bs3)"

type_synonym finding_lists = "readiness_finding list \<times> readiness_finding list"

definition add_provider_findings :: "readiness_env \<Rightarrow> matrix_readiness_input \<Rightarrow> finding_lists \<Rightarrow> finding_lists" where
  "add_provider_findings env input s =
     (let stats = smc_stats (cov_matching (mi_coverage input));
          (boundary, bs1) = parse_boundary input (snd s);
          bs2 = (if requires_closure boundary then closure_blockers env input bs1 else bs1);
          bs3 = (if \<not> allow_equal_fallback (mi_policy input) \<and> 0 < matched_multi_fallback_equal stats
                 then push_blocker bs2 ''provider_closure_equal_fallback''
                   (show_int (matched_multi_fallback_equal stats) @ '' multi-provider edges fell back to equal allocation'')
                   (json_object [(''matched_multi_fallback_equal'', json_int (matched_multi_fallback_equal stats))])
                 else bs2);
          fs1 = (if \<not> requires_closure boundary \<and> (0 < unmatched_no_provider stats \<or> 0 < matched_multi_unresolved stats)
                 then fst s @ [finding ''technosphere_boundary_unresolved_permitted'' SeverityWarning
                   (boundary_policy_as_str boundary @ '' technosphere boundary permits unresolved non-zero balance coefficients'')
                   (json_object [(''technosphere_boundary_policy'', JString (boundary_policy_as_str boundary)),
                      (''unmatched_no_provider'', json_int (unmatched_no_provider stats)),
                      (''matched_multi_unresolved'', json_int (matched_multi_unresolved stats)),
                      (''unresolved_balance_evidence_count'', json_int (case mi_compiled_graph input of
                         None \<Rightarrow> 0 | Some graph \<Rightarrow> int (length (cg_unresolved_balances graph))))])]
                 else fst s);
          fs2 = (if input_edges_total stats = 0
                 then fs1 @ [finding ''provider_closure_no_input_edges'' SeverityWarning
                   ''snapshot has no input edges to check for provider closure'' JNull]
                 else fs1)
      in (fs2, bs3))"

subsection \<open>Graph findings\<close>

definition singular_findings :: "matrix_readiness_input \<Rightarrow> finding_lists \<Rightarrow> finding_lists" where
  "singular_findings input s =
     (let risk = cov_singular_risk (mi_coverage input); level = risk_level risk;
          counts = json_object
            [(''prefilter_diag_abs_ge_cutoff'', json_int (prefilter_diag_abs_ge_cutoff risk)),
             (''postfilter_a_diag_abs_ge_cutoff'', json_int (postfilter_a_diag_abs_ge_cutoff risk))]
      in if level = ''high'' \<and> \<not> allow_high_singular_risk (mi_policy input)
         then (fst s, push_blocker (snd s) ''singular_risk_high'' ''matrix singular risk is high''
                (json_object [(''m_zero_diagonal_count'', json_int (m_zero_diagonal_count risk)),
                   (''m_min_abs_diagonal'', json_f64 (m_min_abs_diagonal risk))]))
         else if level = ''medium'' \<and> \<not> allow_medium_singular_risk (mi_policy input)
         then (fst s, push_blocker (snd s) ''singular_risk_medium''
                ''matrix singular risk is medium and requires review by policy'' counts)
         else if level = ''medium''
         then (fst s @ [finding ''singular_risk_medium'' SeverityWarning
                ''matrix singular risk is medium and requires manual review'' counts], snd s)
         else if level = ''low'' then s
         else (fst s @ [finding ''singular_risk_observed'' SeverityInfo
                (''matrix singular risk level is '' @ level)
                (json_object [(''risk_level'', JString level)])], snd s))"

definition add_graph_findings :: "matrix_readiness_input \<Rightarrow> finding_lists \<Rightarrow> finding_lists" where
  "add_graph_findings input s =
     (let coverage = mi_coverage input; reference = cov_reference coverage; scale = cov_matrix_scale coverage;
          invalid = allocation_fraction_invalid_count (cov_allocation coverage);
          bs1 = (if 0 < missing_reference_count reference \<or> 0 < invalid_reference_count reference
                 then push_blocker (snd s) ''reference_normalization_not_closed''
                   ''quantitative reference normalization has missing or invalid references''
                   (json_object [(''missing_reference_count'', json_int (missing_reference_count reference)),
                      (''invalid_reference_count'', json_int (invalid_reference_count reference))])
                 else snd s);
          bs2 = (if 0 < invalid
                 then push_blocker bs1 ''allocation_fraction_invalid'' ''allocation fractions contain invalid values''
                   (json_object [(''allocation_fraction_invalid_count'', json_int invalid)])
                 else bs1);
          s3 = singular_findings input (fst s, bs2);
          bs4 = (if require_lcia_factors (mi_policy input) \<and> ms_c_nnz scale = 0
                 then push_blocker (snd s3) ''lcia_factors_missing''
                   ''LCIA factors are required but no characterization factors were written''
                   (json_object [(''impact_count'', json_int (ms_impact_count scale)), (''c_nnz'', json_int (ms_c_nnz scale))])
                 else snd s3);
          fs4 = (if ms_b_nnz scale = 0
                 then fst s3 @ [finding ''biosphere_entries_missing'' SeverityWarning
                   ''snapshot has no biosphere entries; compute results may be uninformative'' JNull]
                 else fst s3)
      in (fs4, bs4))"

subsection \<open>Compute stability\<close>

definition observe_value :: "compute_stability_metrics \<Rightarrow> f64 \<Rightarrow> compute_stability_metrics" where
  "observe_value m v = (if is_finite v then m else m\<lparr>non_finite_value_count := non_finite_value_count m + 1\<rparr>)"

definition observe_values :: "f64 list option \<Rightarrow> compute_stability_metrics \<Rightarrow> compute_stability_metrics" where
  "observe_values values m = foldl observe_value m (unwrap_or values [])"

definition observe_lcia_value ::
    "matrix_readiness_policy \<Rightarrow> compute_stability_metrics \<Rightarrow> f64 \<Rightarrow> compute_stability_metrics" where
  "observe_lcia_value policy m v =
     (if \<not> is_finite v then m\<lparr>non_finite_value_count := non_finite_value_count m + 1\<rparr>
      else let m1 = m\<lparr>min_lcia_value := Some (case min_lcia_value m of None \<Rightarrow> v | Some current \<Rightarrow> f_min current v)\<rparr>
           in if f_lt v (f_neg (negative_lcia_epsilon policy))
              then m1\<lparr>negative_lcia_value_count := negative_lcia_value_count m1 + 1\<rparr> else m1)"

definition observe_lcia_values ::
    "f64 list option \<Rightarrow> matrix_readiness_policy \<Rightarrow> compute_stability_metrics \<Rightarrow> compute_stability_metrics" where
  "observe_lcia_values values policy m = foldl (observe_lcia_value policy) m (unwrap_or values [])"

definition unchecked_metrics :: compute_stability_metrics where
  "unchecked_metrics =
     \<lparr>factorization_checked = False, factorization_ready = False, cm_validation = None, sampled_unit_solves = 0,
      non_finite_value_count = 0, negative_lcia_value_count = 0, min_lcia_value = None\<rparr>"

definition unit_demand :: "nat \<Rightarrow> nat \<Rightarrow> f64 list" where
  "unit_demand n i = (replicate n (Fin 0))[i := Fin 1]"

definition sample_solve ::
    "readiness_env \<Rightarrow> model_sparse_data \<Rightarrow> nat \<Rightarrow> solver_service \<Rightarrow> (solver_error, solve_result) result \<times> solver_service" where
  "sample_solve env payload i service =
     solve_one (re_solver env) (re_now env (i + 2)) (re_stage env i) (model_version payload) numeric_options_default
       (unit_demand (unwrap_or (usize_try_from (process_count payload)) 0) i)
       \<lparr>return_x = True, return_g = True, return_h = True\<rparr> service"

type_synonym sample_state = "solver_service \<times> compute_stability_metrics \<times> readiness_finding list"

definition sample_step ::
    "readiness_env \<Rightarrow> model_sparse_data \<Rightarrow> matrix_readiness_policy \<Rightarrow> sample_state \<Rightarrow> nat \<Rightarrow> sample_state" where
  "sample_step env payload policy s i =
     (case s of (service, m, bs) \<Rightarrow>
        case sample_solve env payload i service of
          (Inr r, service1) \<Rightarrow>
            (service1,
             observe_lcia_values (sr_h r) policy (observe_values (sr_g r) (observe_values (sr_x r)
               (m\<lparr>sampled_unit_solves := sampled_unit_solves m + 1\<rparr>))), bs)
        | (Inl e, service1) \<Rightarrow>
            (service1, m, push_blocker bs ''sample_unit_solve_failed''
               (''unit demand solve failed for process index '' @ show_nat i @ '': '' @ show_solver_error env e)
               (json_object [(''process_idx'', json_int (int i))])))"

definition sample_count :: "model_sparse_data \<Rightarrow> matrix_readiness_policy \<Rightarrow> nat" where
  "sample_count payload policy =
     min (unwrap_or (usize_try_from (process_count payload)) 0) (sample_solve_unit_limit policy)"

definition anomaly_severity :: "compute_anomaly_policy \<Rightarrow> finding_severity" where
  "anomaly_severity p =
     (case p of AnomalyIgnore \<Rightarrow> SeverityInfo | AnomalyWarning \<Rightarrow> SeverityWarning | AnomalyBlocker \<Rightarrow> SeverityBlocker)"

definition judge_values ::
    "matrix_readiness_policy \<Rightarrow> compute_stability_metrics \<Rightarrow> finding_lists \<Rightarrow> finding_lists" where
  "judge_values policy m s =
     (let bs1 = (if 0 < non_finite_value_count m
                 then push_blocker (snd s) ''compute_non_finite_values'' ''sample unit solve produced non-finite values''
                   (json_object [(''non_finite_value_count'', json_int (int (non_finite_value_count m)))])
                 else snd s);
          sev = anomaly_severity (negative_lcia_policy policy);
          item = finding ''negative_lcia_values'' sev
            ''sample unit solve produced negative LCIA values below policy epsilon''
            (json_object [(''negative_lcia_value_count'', json_int (int (negative_lcia_value_count m))),
               (''min_lcia_value'', json_option json_f64 (min_lcia_value m)),
               (''negative_lcia_epsilon'', json_f64 (negative_lcia_epsilon policy))])
      in if negative_lcia_value_count m = 0 then (fst s, bs1)
         else if sev = SeverityBlocker then (fst s, bs1 @ [item]) else (fst s @ [item], bs1))"

definition prepare_service ::
    "readiness_env \<Rightarrow> model_sparse_data \<Rightarrow> (solver_error, prepare_result) result \<times> solver_service" where
  "prepare_service env payload =
     prepare (re_solver env) (re_now env 0) (re_now env 1) payload numeric_options_default service_new"

definition run_compute_stability ::
    "readiness_env \<Rightarrow> model_sparse_data \<Rightarrow> matrix_readiness_policy \<Rightarrow> finding_lists \<Rightarrow>
       compute_stability_metrics \<times> finding_lists" where
  "run_compute_stability env payload policy s =
     (case prepare_service env payload of
        (Inl e, service) \<Rightarrow>
          (unchecked_metrics\<lparr>factorization_checked := True,
             cm_validation := (case e of ValidationFailed report \<Rightarrow> Some report | _ \<Rightarrow> None)\<rparr>,
           fst s, push_blocker (snd s) ''factorization_not_ready''
             (''factorization failed: '' @ show_solver_error env e) JNull)
      | (Inr r, service) \<Rightarrow>
          let validation = fd_validation (pr_diagnostics r);
              m = unchecked_metrics\<lparr>factorization_checked := True, factorization_ready := True, cm_validation := Some validation\<rparr>;
              fs1 = (if status validation = WarningNearSingular
                     then fst s @ [finding ''matrix_validation_warning'' SeverityWarning
                       ''factorization matrix validation emitted warnings''
                       (json_object [(''messages'', JArray (map JString (messages validation)))])]
                     else fst s);
              (service1, m1, bs1) = foldl (sample_step env payload policy) (service, m, snd s) [0..<sample_count payload policy]
          in (m1, judge_values policy m1 (fs1, bs1)))"

subsection \<open>The report\<close>

definition has_prefix :: "string \<Rightarrow> readiness_finding \<Rightarrow> bool" where
  "has_prefix p f = (take (length p) (code f) = p)"

definition next_action :: "readiness_finding list \<Rightarrow> readiness_finding list \<Rightarrow> string" where
  "next_action bs fs =
     (if list_ex (has_prefix ''provider_closure'') bs then ''repair_provider_closure_then_recheck''
      else if list_ex (\<lambda>b. has_prefix ''factorization'' b \<or> has_prefix ''compute'' b) bs then ''repair_compute_stability_then_recheck''
      else if list_ex (has_prefix ''lcia'') bs then ''repair_lcia_factors_then_recheck''
      else if bs \<noteq> [] then ''repair_graph_readiness_then_recheck''
      else if list_ex (\<lambda>f. severity f = SeverityWarning) fs then ''manual_review_warnings''
      else ''publish_ready'')"

definition provider_closure_metrics_of :: "snapshot_matching_coverage \<Rightarrow> nat \<Rightarrow> provider_closure_metrics" where
  "provider_closure_metrics_of matching n =
     \<lparr>pc_stats = smc_stats matching, pc_a_write_pct = a_write_pct matching,
      pc_provider_present_resolved_pct = provider_present_resolved_pct matching, provider_evidence_count = n\<rparr>"

definition graph_readiness_metrics_of :: "snapshot_coverage_report \<Rightarrow> graph_readiness_metrics" where
  "graph_readiness_metrics_of coverage =
     \<lparr>gm_scale = cov_matrix_scale coverage,
      reference_missing_count = missing_reference_count (cov_reference coverage),
      reference_invalid_count = invalid_reference_count (cov_reference coverage),
      gm_allocation_fraction_missing_count = allocation_fraction_missing_count (cov_allocation coverage),
      gm_allocation_fraction_invalid_count = allocation_fraction_invalid_count (cov_allocation coverage),
      gm_legacy_empty_allocation_as_undeclared_count = legacy_empty_allocation_as_undeclared_count (cov_allocation coverage),
      gm_legacy_single_output_target_inferred_count = legacy_single_output_target_inferred_count (cov_allocation coverage),
      gm_legacy_single_reference_target_inferred_count = legacy_single_reference_target_inferred_count (cov_allocation coverage),
      singular_risk_level = risk_level (cov_singular_risk coverage),
      gm_m_zero_diagonal_count = m_zero_diagonal_count (cov_singular_risk coverage),
      gm_m_min_abs_diagonal = m_min_abs_diagonal (cov_singular_risk coverage)\<rparr>"

definition verify_matrix_readiness :: "readiness_env \<Rightarrow> matrix_readiness_input \<Rightarrow> matrix_readiness_report" where
  "verify_matrix_readiness env input =
     (let evidence = (case mi_compiled_graph input of None \<Rightarrow> [] | Some graph \<Rightarrow> provider_evidence_from_graph graph);
          s1 = add_provider_findings env input ([], []);
          s2 = add_graph_findings input s1;
          (stability, fs, bs) = (if run_factorization (mi_policy input)
             then run_compute_stability env (mi_payload input) (mi_policy input) s2 else (unchecked_metrics, s2))
      in \<lparr>mr_schema_version = ''matrix_readiness_report.v2'', generated_at_utc = re_generated_at env,
          mr_snapshot_id = mi_snapshot_id input,
          mr_status = (if bs = [] then ReadinessPassed else ReadinessFailed),
          mr_next_action = next_action bs fs, mr_policy = mi_policy input,
          mr_metrics =
            \<lparr>provider_closure = provider_closure_metrics_of (cov_matching (mi_coverage input)) (length evidence),
             graph_readiness = graph_readiness_metrics_of (mi_coverage input), compute_stability = stability\<rparr>,
          provider_evidence = evidence,
          balance_evidence = (case mi_compiled_graph input of None \<Rightarrow> [] | Some graph \<Rightarrow> cg_balance_resolutions graph),
          mr_unresolved_balances = (case mi_compiled_graph input of None \<Rightarrow> [] | Some graph \<Rightarrow> cg_unresolved_balances graph),
          findings = fs, blockers = bs\<rparr>)"

subsection \<open>When there is no blocker\<close>

named_theorems unblocked \<open>when a stage leaves the list of blockers empty\<close>

lemma default_policy_fields [simp]:
  "min_provider_write_pct default_policy = Fin 100" "max_unmatched_no_provider default_policy = 0"
  "max_multi_unresolved default_policy = 0" "allow_equal_fallback default_policy = False"
  "allow_medium_singular_risk default_policy = False" "allow_high_singular_risk default_policy = False"
  "require_lcia_factors default_policy = True" "run_factorization default_policy = True"
  "sample_solve_unit_limit default_policy = 16" "negative_lcia_policy default_policy = AnomalyWarning"
  by (simp_all only: default_policy_def matrix_readiness_policy.select_convs)

lemma push_blocker_not_Nil [simp]: "push_blocker bs c m d \<noteq> []"
  by (simp add: push_blocker_def)

lemma reference_missing_unblocked [unblocked]:
  "add_reference_provider_missing_findings env input bs = [] \<longleftrightarrow>
     bs = [] \<and> (\<forall>graph. mi_compiled_graph input = Some graph \<longrightarrow>
        (\<forall>d \<in> set (cg_provider_decisions graph). cpd_failure_reason d \<noteq> Some RejectedNonReferenceOnly))"
  by (auto simp: add_reference_provider_missing_findings_def filter_empty_conv Let_def split: option.split)

text \<open>The conditions under which the provider closure of a snapshot raises no blocker.\<close>

definition closure_ok :: "matrix_readiness_input \<Rightarrow> bool" where
  "closure_ok input \<longleftrightarrow>
     (let matching = cov_matching (mi_coverage input); policy = mi_policy input
      in \<not> f_lt (a_write_pct matching) (min_provider_write_pct policy) \<and>
         unmatched_no_provider (smc_stats matching) \<le> max_unmatched_no_provider policy \<and>
         matched_multi_unresolved (smc_stats matching) \<le> max_multi_unresolved policy \<and>
         (\<forall>graph. mi_compiled_graph input = Some graph \<longrightarrow>
           (\<forall>d \<in> set (cg_provider_decisions graph). cpd_failure_reason d \<noteq> Some RejectedNonReferenceOnly)))"

lemma closure_unblocked [unblocked]: "closure_blockers env input bs = [] \<longleftrightarrow> bs = [] \<and> closure_ok input"
  by (auto simp: closure_blockers_def closure_ok_def Let_def unblocked not_less)

lemma provider_unblocked [unblocked]:
  "snd (add_provider_findings env input s) = [] \<longleftrightarrow>
     snd s = [] \<and> (\<exists>boundary. boundary_policy_parse (boundary_label input) = Ok boundary \<and>
        (requires_closure boundary \<longrightarrow> closure_ok input)) \<and>
     (allow_equal_fallback (mi_policy input) \<or>
      matched_multi_fallback_equal (smc_stats (cov_matching (mi_coverage input))) \<le> 0)"
proof (cases "boundary_policy_parse (boundary_label input)")
  case (Inl e)
  then show ?thesis
    by (simp add: add_provider_findings_def parse_boundary_def Let_def unblocked)
next
  case (Inr boundary)
  then show ?thesis
    by (auto simp: add_provider_findings_def parse_boundary_def Let_def unblocked not_less)
qed

definition graph_ok :: "matrix_readiness_input \<Rightarrow> bool" where
  "graph_ok input \<longleftrightarrow>
     (let coverage = mi_coverage input; policy = mi_policy input; level = risk_level (cov_singular_risk coverage)
      in missing_reference_count (cov_reference coverage) \<le> 0 \<and> invalid_reference_count (cov_reference coverage) \<le> 0 \<and>
         allocation_fraction_invalid_count (cov_allocation coverage) \<le> 0 \<and>
         (level = ''high'' \<longrightarrow> allow_high_singular_risk policy) \<and>
         (level = ''medium'' \<longrightarrow> allow_medium_singular_risk policy) \<and>
         (require_lcia_factors policy \<longrightarrow> ms_c_nnz (cov_matrix_scale coverage) \<noteq> 0))"

lemma singular_unblocked:
  "snd (singular_findings input s) = [] \<longleftrightarrow> snd s = [] \<and>
     (risk_level (cov_singular_risk (mi_coverage input)) = ''high'' \<longrightarrow> allow_high_singular_risk (mi_policy input)) \<and>
     (risk_level (cov_singular_risk (mi_coverage input)) = ''medium'' \<longrightarrow> allow_medium_singular_risk (mi_policy input))"
  by (auto simp: singular_findings_def Let_def)

lemma graph_unblocked [unblocked]: "snd (add_graph_findings input s) = [] \<longleftrightarrow> snd s = [] \<and> graph_ok input"
  by (auto simp: add_graph_findings_def graph_ok_def Let_def not_less singular_unblocked)

subsection \<open>The sampled solves\<close>

definition payload_key :: "readiness_env \<Rightarrow> model_sparse_data \<Rightarrow> factorization_key" where
  "payload_key env payload = factorization_key (re_solver env) (model_version payload) numeric_options_default"

lemma sample_solve_state:
  "ready_lookup k (svc_cache (snd (sample_solve env payload i service))) = ready_lookup k (svc_cache service)"
  by (simp add: sample_solve_def solve_one_state)

lemma sample_solve_stable:
  "ready_lookup (payload_key env payload) (svc_cache a) = ready_lookup (payload_key env payload) (svc_cache b) \<Longrightarrow>
   fst (sample_solve env payload i a) = fst (sample_solve env payload i b)"
  by (simp add: sample_solve_def solve_one_lookup payload_key_def)

definition finite_result :: "solve_result \<Rightarrow> bool" where
  "finite_result r \<longleftrightarrow> list_all is_finite (unwrap_or (sr_x r) [] @ unwrap_or (sr_g r) [] @ unwrap_or (sr_h r) [])"

definition nonnegative_result :: "matrix_readiness_policy \<Rightarrow> solve_result \<Rightarrow> bool" where
  "nonnegative_result policy r \<longleftrightarrow>
     list_all (\<lambda>v. is_finite v \<longrightarrow> \<not> f_lt v (f_neg (negative_lcia_epsilon policy))) (unwrap_or (sr_h r) [])"

lemma observe_value_counts:
  "non_finite_value_count (foldl observe_value m vs) = 0 \<longleftrightarrow> non_finite_value_count m = 0 \<and> list_all is_finite vs"
  "negative_lcia_value_count (foldl observe_value m vs) = negative_lcia_value_count m"
  by (induction vs arbitrary: m) (auto simp: observe_value_def)

lemma observe_lcia_counts:
  "non_finite_value_count (foldl (observe_lcia_value policy) m vs) = 0 \<longleftrightarrow>
     non_finite_value_count m = 0 \<and> list_all is_finite vs"
  "negative_lcia_value_count (foldl (observe_lcia_value policy) m vs) = 0 \<longleftrightarrow>
     negative_lcia_value_count m = 0 \<and>
     list_all (\<lambda>v. is_finite v \<longrightarrow> \<not> f_lt v (f_neg (negative_lcia_epsilon policy))) vs"
  by (induction vs arbitrary: m) (auto simp: observe_lcia_value_def Let_def)

lemma sample_fold:
  fixes js
  assumes "foldl (sample_step env payload policy) (service, m, bs) js = (service', m', bs')"
    and "ready_lookup (payload_key env payload) (svc_cache service) = ready_lookup (payload_key env payload) (svc_cache start)"
  defines "r \<equiv> \<lambda>i. fst (sample_solve env payload i start)"
  shows "(bs' = [] \<longleftrightarrow> bs = [] \<and> (\<forall>i \<in> set js. \<exists>x. r i = Ok x)) \<and>
    (non_finite_value_count m' = 0 \<longleftrightarrow>
       non_finite_value_count m = 0 \<and> (\<forall>i \<in> set js. \<forall>x. r i = Ok x \<longrightarrow> finite_result x)) \<and>
    (negative_lcia_value_count m' = 0 \<longleftrightarrow>
       negative_lcia_value_count m = 0 \<and> (\<forall>i \<in> set js. \<forall>x. r i = Ok x \<longrightarrow> nonnegative_result policy x))"
  using assms(1,2)
proof (induction js arbitrary: service m bs)
  case (Cons i js)
  obtain res service1 where solve: "sample_solve env payload i service = (res, service1)" by fastforce
  have res: "res = r i" using sample_solve_stable [OF Cons.prems(2), of i] solve by (simp add: r_def)
  have look: "ready_lookup (payload_key env payload) (svc_cache service1) = ready_lookup (payload_key env payload) (svc_cache start)"
    using sample_solve_state [of "payload_key env payload" env payload i service] solve Cons.prems(2) by simp
  show ?case
  proof (cases "r i")
    case (Inl e)
    obtain b where "sample_step env payload policy (service, m, bs) i = (service1, m, push_blocker bs (fst b) (fst (snd b)) (snd (snd b)))"
      using solve unfolding res Inl by (force simp: sample_step_def)
    from Cons.IH [OF Cons.prems(1) [unfolded foldl.simps this] look] Inl show ?thesis by auto
  next
    case (Inr x)
    have "sample_step env payload policy (service, m, bs) i =
        (service1, observe_lcia_values (sr_h x) policy (observe_values (sr_g x) (observe_values (sr_x x)
           (m\<lparr>sampled_unit_solves := sampled_unit_solves m + 1\<rparr>))), bs)"
      using solve unfolding res Inr by (simp add: sample_step_def)
    from Cons.IH [OF Cons.prems(1) [unfolded foldl.simps this] look] Inr show ?thesis
      by (auto simp: observe_lcia_values_def observe_values_def observe_lcia_counts observe_value_counts
          finite_result_def nonnegative_result_def)
  qed
qed simp

definition compute_ok :: "readiness_env \<Rightarrow> model_sparse_data \<Rightarrow> matrix_readiness_policy \<Rightarrow> bool" where
  "compute_ok env payload policy \<longleftrightarrow>
     (\<exists>pr service. prepare_service env payload = (Ok pr, service) \<and>
        (\<forall>i < sample_count payload policy. \<exists>x. fst (sample_solve env payload i service) = Ok x \<and> finite_result x \<and>
           (negative_lcia_policy policy = AnomalyBlocker \<longrightarrow> nonnegative_result policy x)))"

lemma judge_unblocked:
  "snd (judge_values policy m s) = [] \<longleftrightarrow>
     snd s = [] \<and> non_finite_value_count m = 0 \<and>
     (negative_lcia_policy policy = AnomalyBlocker \<longrightarrow> negative_lcia_value_count m = 0)"
  by (auto simp: judge_values_def anomaly_severity_def Let_def split: compute_anomaly_policy.splits)

lemma compute_unblocked [unblocked]:
  "snd (snd (run_compute_stability env payload policy s)) = [] \<longleftrightarrow> snd s = [] \<and> compute_ok env payload policy"
proof -
  obtain res service where p: "prepare_service env payload = (res, service)" by fastforce
  show ?thesis
  proof (cases res)
    case (Inl e)
    then show ?thesis by (simp add: run_compute_stability_def p compute_ok_def)
  next
    case (Inr pr)
    define m where "m = unchecked_metrics\<lparr>factorization_checked := True, factorization_ready := True,
        cm_validation := Some (fd_validation (pr_diagnostics pr))\<rparr>"
    obtain service1 m1 bs1 where
      fold: "foldl (sample_step env payload policy) (service, m, snd s) [0..<sample_count payload policy] = (service1, m1, bs1)"
      by (metis prod_cases3)
    have m0: "non_finite_value_count m = 0" "negative_lcia_value_count m = 0" by (simp_all add: m_def unchecked_metrics_def)
    have "snd (snd (run_compute_stability env payload policy s)) = [] \<longleftrightarrow>
        bs1 = [] \<and> non_finite_value_count m1 = 0 \<and>
        (negative_lcia_policy policy = AnomalyBlocker \<longrightarrow> negative_lcia_value_count m1 = 0)"
      by (simp add: run_compute_stability_def p Inr Let_def fold m_def [symmetric] judge_unblocked)
    also have "\<dots> \<longleftrightarrow> snd s = [] \<and> compute_ok env payload policy"
      unfolding sample_fold [OF fold refl, THEN conjunct1] sample_fold [OF fold refl, THEN conjunct2, THEN conjunct1]
        sample_fold [OF fold refl, THEN conjunct2, THEN conjunct2] compute_ok_def p Inr
      using m0 by fastforce
    finally show ?thesis .
  qed
qed

lemma service_new_inv: "service_inv env service_new"
  by (simp add: service_inv_def service_new_def cache_new_def inv_with_capacity default_capacity_bytes_def u64_max_def)

text \<open>What the trial says about the matrices of the payload.\<close>

lemma compute_ok_solves:
  assumes "compute_ok env payload policy"
  shows "\<exists>bm f. build data_builder_default payload = Ok bm \<and>
     factorize_matrix (re_solver env) (bm_m bm) numeric_options_default = Ok f \<and>
     (\<forall>i < sample_count payload policy. \<exists>x.
        solve (env_lib (re_solver env)) f (unit_demand (nat (process_count payload)) i) = Ok x \<and>
        list_all is_finite (x @ mul_vector (bm_b bm) x @ mul_vector (bm_c bm) (mul_vector (bm_b bm) x)))"
proof -
  from assms obtain pr service where
    p: "prepare_service env payload = (Ok pr, service)" and
    ok: "\<And>i. i < sample_count payload policy \<Longrightarrow> \<exists>x. fst (sample_solve env payload i service) = Ok x \<and> finite_result x"
    unfolding compute_ok_def by blast
  from prepared_solves [OF service_new_inv p [unfolded prepare_service_def]]
  obtain bm f where bm: "build data_builder_default payload = Ok bm"
      and f: "factorize_matrix (re_solver env) (bm_m bm) numeric_options_default = Ok f"
      and s: "\<And>now' clk rhs so. fst (solve_one (re_solver env) now' clk (model_version payload) numeric_options_default rhs so service) =
        (if length rhs \<noteq> nat (process_count payload)
         then Err (SvcRhsDimensionMismatch (length rhs) (nat (process_count payload)))
         else case solve (env_lib (re_solver env)) f rhs of
                Inl e \<Rightarrow> Err (SvcFactorization e)
              | Inr x \<Rightarrow> Ok \<lparr>sr_x = (if return_x so then Some x else None),
                   sr_g = (if return_g so then Some (mul_vector (bm_b bm) x) else None),
                   sr_h = (if return_h so then Some (mul_vector (bm_c bm) (mul_vector (bm_b bm) x)) else None),
                   sr_factorization_state = Ready\<rparr>)"
    by (auto simp: service_new_def)
  have n: "unwrap_or (usize_try_from (process_count payload)) 0 = nat (process_count payload)"
    using build_Ok_dims [OF bm] by (simp add: usize_try_from_def)
  have "\<exists>x. solve (env_lib (re_solver env)) f (unit_demand (nat (process_count payload)) i) = Ok x \<and>
        list_all is_finite (x @ mul_vector (bm_b bm) x @ mul_vector (bm_c bm) (mul_vector (bm_b bm) x))"
    if "i < sample_count payload policy" for i
  proof -
    from ok [OF that] obtain r where r: "fst (sample_solve env payload i service) = Ok r" "finite_result r" by blast
    then show ?thesis
      unfolding sample_solve_def s n
      by (auto simp: unit_demand_def finite_result_def split: sum.splits)
  qed
  with bm f show ?thesis by blast
qed

lemma readiness_decided:
  "mr_status (verify_matrix_readiness env input) = ReadinessPassed \<longleftrightarrow>
     (\<exists>boundary. boundary_policy_parse (boundary_label input) = Ok boundary \<and>
        (requires_closure boundary \<longrightarrow> closure_ok input)) \<and>
     (allow_equal_fallback (mi_policy input) \<or>
      matched_multi_fallback_equal (smc_stats (cov_matching (mi_coverage input))) \<le> 0) \<and>
     graph_ok input \<and>
     (run_factorization (mi_policy input) \<longrightarrow> compute_ok env (mi_payload input) (mi_policy input))"
  "mr_status (verify_matrix_readiness env input) = ReadinessPassed \<longleftrightarrow> blockers (verify_matrix_readiness env input) = []"
  "mr_next_action (verify_matrix_readiness env input) =
     next_action (blockers (verify_matrix_readiness env input)) (findings (verify_matrix_readiness env input))"
proof -
  let ?s = "add_graph_findings input (add_provider_findings env input ([], []))"
  obtain m fs bs where r: "(if run_factorization (mi_policy input)
      then run_compute_stability env (mi_payload input) (mi_policy input) ?s else (unchecked_metrics, ?s)) = (m, fs, bs)"
    by (metis prod_cases3)
  then have bs: "bs = [] \<longleftrightarrow> snd ?s = [] \<and>
      (run_factorization (mi_policy input) \<longrightarrow> compute_ok env (mi_payload input) (mi_policy input))"
    using compute_unblocked [of env "mi_payload input" "mi_policy input" ?s] by (auto split: if_splits)
  have fields: "mr_status (verify_matrix_readiness env input) = (if bs = [] then ReadinessPassed else ReadinessFailed)"
      "blockers (verify_matrix_readiness env input) = bs" "findings (verify_matrix_readiness env input) = fs"
      "mr_next_action (verify_matrix_readiness env input) = next_action bs fs"
    unfolding verify_matrix_readiness_def Let_def r by simp_all
  show "mr_status (verify_matrix_readiness env input) = ReadinessPassed \<longleftrightarrow> blockers (verify_matrix_readiness env input) = []"
    "mr_next_action (verify_matrix_readiness env input) =
       next_action (blockers (verify_matrix_readiness env input)) (findings (verify_matrix_readiness env input))"
    by (simp_all add: fields)
  show "mr_status (verify_matrix_readiness env input) = ReadinessPassed \<longleftrightarrow>
     (\<exists>boundary. boundary_policy_parse (boundary_label input) = Ok boundary \<and>
        (requires_closure boundary \<longrightarrow> closure_ok input)) \<and>
     (allow_equal_fallback (mi_policy input) \<or>
      matched_multi_fallback_equal (smc_stats (cov_matching (mi_coverage input))) \<le> 0) \<and>
     graph_ok input \<and>
     (run_factorization (mi_policy input) \<longrightarrow> compute_ok env (mi_payload input) (mi_policy input))"
    unfolding fields(1) by (auto simp: bs unblocked)
qed

lemma next_action_publish: "next_action bs fs = ''publish_ready'' \<longleftrightarrow> bs = [] \<and> list_all (\<lambda>f. severity f \<noteq> SeverityWarning) fs"
  by (auto simp: next_action_def list_ex_iff list_all_iff)

text \<open>A failed sample solve alone is routed to the graph, not to the solver.\<close>

lemma sample_failure_routed:
  "bs \<noteq> [] \<Longrightarrow> list_all (\<lambda>b. code b = ''sample_unit_solve_failed'') bs \<Longrightarrow>
   next_action bs fs = ''repair_graph_readiness_then_recheck''"
  by (auto simp: next_action_def has_prefix_def list_ex_iff list_all_iff)

subsection \<open>Properties\<close>

definition example_coverage :: "string \<Rightarrow> snapshot_coverage_report" where
  "example_coverage level =
     \<lparr>cov_schema_version = snapshot_coverage_schema_version,
      cov_matching = \<lparr>smc_stats = matching_stats_default, a_write_pct = Fin 100, provider_present_resolved_pct = Fin 100,
        unique_provider_match_pct = Fin 100, any_provider_match_pct = Fin 100,
        smc_diagnostics = summarize_matching_diagnostics (decisions_graph [])\<rparr>,
      cov_reference = \<lparr>src_process_total = 1, normalized_process_count = 1, missing_reference_count = 0, invalid_reference_count = 0\<rparr>,
      cov_allocation = \<lparr>sac_exchange_total = 0, allocation_fraction_present_pct = Fin 0, allocation_fraction_missing_count = 0,
        allocation_fraction_invalid_count = 0, legacy_empty_allocation_as_undeclared_count = 0,
        legacy_single_output_target_inferred_count = 0, legacy_single_reference_target_inferred_count = 0\<rparr>,
      cov_singular_risk = \<lparr>risk_level = level, prefilter_diag_abs_ge_cutoff = 0, postfilter_a_diag_abs_ge_cutoff = 0,
        m_zero_diagonal_count = 0, m_min_abs_diagonal = Fin 1\<rparr>,
      cov_matrix_scale = \<lparr>ms_process_count = 1, ms_flow_count = 1, ms_impact_count = 1, ms_a_nnz = 0, ms_b_nnz = 1,
        ms_c_nnz = 1, ms_m_nnz_estimated = 1, ms_m_sparsity_estimated = Fin 0\<rparr>\<rparr>"

definition example_renv :: readiness_env where
  "example_renv = \<lparr>re_solver = example_env, re_show_f64 = (\<lambda>_. []), re_debug_validation = (\<lambda>_. []),
     re_generated_at = [], re_now = id, re_stage = (\<lambda>_. \<lparr>clk_solve = Fin 0, clk_bx = Fin 0, clk_cg = Fin 0\<rparr>)\<rparr>"

definition example_input :: "string \<Rightarrow> matrix_readiness_input" where
  "example_input level =
     \<lparr>mi_schema_version = ''matrix_readiness_input.v2'', mi_snapshot_id = None, mi_config = None, mi_coverage = example_coverage level, mi_payload = example_data,
      mi_compiled_graph = Some (decisions_graph []), mi_policy = default_policy\<lparr>run_factorization := False\<rparr>\<rparr>"

text \<open>
  C3. The readiness gate opens exactly when nothing stands against it: the boundary policy is
  known and, if it is closed, the provider closure satisfies the policy; equal fallbacks, invalid
  references and shares, the singular risk and missing factors are within the policy; and, when the
  trial factorization is asked for, it succeeds on a fresh service and every sampled unit demand
  has a finite solution with impacts the policy accepts. The action is to publish exactly when
  there is neither a blocker nor a warning.
\<close>

theorem readiness_gate_decides:
  "(mr_status (verify_matrix_readiness env input) = ReadinessPassed \<longleftrightarrow>
     (\<exists>boundary. boundary_policy_parse (boundary_label input) = Ok boundary \<and>
        (requires_closure boundary \<longrightarrow> closure_ok input)) \<and>
     (allow_equal_fallback (mi_policy input) \<or>
      matched_multi_fallback_equal (smc_stats (cov_matching (mi_coverage input))) \<le> 0) \<and>
     graph_ok input \<and>
     (run_factorization (mi_policy input) \<longrightarrow> compute_ok env (mi_payload input) (mi_policy input))) \<and>
   (mr_next_action (verify_matrix_readiness env input) = ''publish_ready'' \<longleftrightarrow>
     mr_status (verify_matrix_readiness env input) = ReadinessPassed \<and>
     list_all (\<lambda>f. severity f \<noteq> SeverityWarning) (findings (verify_matrix_readiness env input)))"
proof (rule conjI)
  show "mr_next_action (verify_matrix_readiness env input) = ''publish_ready'' \<longleftrightarrow>
     mr_status (verify_matrix_readiness env input) = ReadinessPassed \<and>
     list_all (\<lambda>f. severity f \<noteq> SeverityWarning) (findings (verify_matrix_readiness env input))"
    unfolding readiness_decided(3) readiness_decided(2) by (rule next_action_publish)
qed (rule readiness_decided(1))

theorem readiness_gate_decides_witness:
  "mr_status (verify_matrix_readiness example_renv (example_input ''low'')) = ReadinessPassed \<and>
   mr_status (verify_matrix_readiness example_renv (example_input ''high'')) = ReadinessFailed"
proof -
  have "closure_ok (example_input level)" "boundary_label (example_input level) = ''closed''" for level
    by (simp_all add: closure_ok_def boundary_label_def example_input_def example_coverage_def
        matching_stats_default_def decisions_graph_def f_lt_def Let_def)
  moreover have "graph_ok (example_input ''low'')" "\<not> graph_ok (example_input ''high'')"
    by (simp_all add: graph_ok_def example_input_def example_coverage_def Let_def)
  moreover have "\<not> run_factorization (mi_policy (example_input level))"
      "matched_multi_fallback_equal (smc_stats (cov_matching (mi_coverage (example_input level)))) \<le> 0" for level
    by (simp_all add: example_input_def example_coverage_def matching_stats_default_def)
  moreover have "boundary_policy_parse ''closed'' = Ok Closed" by (simp add: boundary_policy_parse_def)
  ultimately have "mr_status (verify_matrix_readiness example_renv (example_input ''low'')) = ReadinessPassed"
    "mr_status (verify_matrix_readiness example_renv (example_input ''high'')) \<noteq> ReadinessPassed"
    using readiness_gate_decides [of example_renv "example_input ''low''", THEN conjunct1]
      readiness_gate_decides [of example_renv "example_input ''high''", THEN conjunct1] by simp_all
  then show ?thesis by (cases "mr_status (verify_matrix_readiness example_renv (example_input ''high''))") simp_all
qed

end
