(* ===== verification/Matrix_Assembly.thy ===== *)
theory Matrix_Assembly
  imports Lcia_Coverage Process_Selection Contribution_Path Matrix_Readiness
begin

text \<open>
  From the compiled graph to the sparse payload of a snapshot
  (\<open>assemble_sparse_payload_with_selection\<close> and the selection of characterization factors in
  \<open>solver-worker/src/bin/snapshot_builder.rs\<close>): technosphere, biosphere and characterization
  entries, the coverage report, the index document, the readiness report and the coverage of
  exchanges by factors. The entries leave hash maps in an arbitrary order, given by the arguments
  \<open>order\<close> and \<open>order_c\<close>; \<open>renv\<close> is the environment of the readiness gate.
\<close>

subsection \<open>Data\<close>

record active_lcia_factor_selection =
  al_factors_by_impact :: "(flow_link_identity \<times> f64) list list"
  al_active_flow_versions :: "(uuid \<times> string) list"
  al_direction_by_flow :: direction_by_flow

record build_output =
  bo_data :: model_sparse_data
  bo_coverage :: snapshot_coverage_report
  bo_snapshot_index :: "unit snapshot_index_document"
  bo_readiness :: matrix_readiness_report
  bo_compiled_graph :: compiled_graph
  bo_lcia_coverage :: "lcia_factor_coverage_build option"

abbreviation bo_singular_risk :: "build_output \<Rightarrow> snapshot_singular_risk" where
  "bo_singular_risk out \<equiv> cov_singular_risk (bo_coverage out)"

datatype assembly_error =
    ProcessOverflow
  | FlowOverflow
  | Accumulation accumulation_error
  | PrefilterCountOverflow
  | DiagCountOverflow
  | ImpactIdxOverflow
  | ImpactAxisOmitted
  | ImpactOverflow
  | NnzOverflow
  | ImpactFactorsMissing
  | Coverage coverage_error

subsection \<open>Active characterization factors\<close>

definition active_factor ::
    "bool \<Rightarrow> direction_by_flow \<Rightarrow> impact_factor_set \<Rightarrow> flow_link_identity \<Rightarrow> f64 option" where
  "active_factor directional directions impact i =
     Option.bind
       (if directional
        then Option.bind (Option.bind (map_of directions (fl_flow_id i)) id) (\<lambda>d.
             map_of (if_factors_by_flow_direction impact) (fl_flow_id i, fl_flow_version i, d))
        else map_of (if_factors_by_flow impact) (fl_flow_id i, fl_flow_version i))
       (\<lambda>v. if retain_sparse_value v directional then Some v else None)"

definition active_factors ::
    "bool \<Rightarrow> direction_by_flow \<Rightarrow> flow_link_identity list \<Rightarrow> impact_factor_set \<Rightarrow> (flow_link_identity \<times> f64) list" where
  "active_factors directional directions flows impact =
     List.map_filter (\<lambda>i. map_option (\<lambda>v. (i, v)) (active_factor directional directions impact i)) flows"

definition select_active_lcia_factors ::
    "impact_factor_set list \<Rightarrow> flow_link_identity list \<Rightarrow> lcia_exchange_observation list \<Rightarrow> bool \<Rightarrow>
       active_lcia_factor_selection" where
  "select_active_lcia_factors impacts flows observations directional =
     (let directions = (if directional then unique_supported_direction_by_flow observations else []);
          factors = map (active_factors directional directions flows) impacts
      in \<lparr>al_factors_by_impact = factors,
          al_active_flow_versions = remdups (concat (map (map (\<lambda>e. (fl_flow_id (fst e), fl_flow_version (fst e)))) factors)),
          al_direction_by_flow = directions\<rparr>)"

definition flow_identity :: "compiled_flow \<Rightarrow> flow_link_identity" where
  "flow_identity flow = flow_link_identity_from_parts (cfl_flow_id flow) (cfl_flow_version flow)"

definition biosphere_identities :: "compiled_graph \<Rightarrow> flow_link_identity list" where
  "biosphere_identities graph =
     remdups_adj (sort_by_key (\<lambda>i. (fl_flow_id i, fl_flow_version i))
       (map flow_identity (filter (\<lambda>f. cfl_space f = Biosphere) (cg_flows graph))))"

subsection \<open>Sparse entries\<close>

type_synonym position_map = "((i32 \<times> i32) \<times> f64) list"

definition entries_of :: "position_map \<Rightarrow> sparse_triplet list" where
  "entries_of m = map (\<lambda>((r, c), v). \<lparr>st_row = r, st_col = c, st_value = v\<rparr>) m"

definition technosphere_map :: "compiled_technosphere_edge list \<Rightarrow> position_map" where
  "technosphere_map edges =
     filter (\<lambda>e. f_gt (f_abs (snd e)) Provider_Linking.f64_epsilon)
       (foldl (\<lambda>m e. add_technosphere_edge m (cte_provider_idx e) (cte_consumer_idx e) (cte_amount e)) [] edges)"

definition biosphere_map :: "compiled_biosphere_edge list \<Rightarrow> bool \<Rightarrow> (assembly_error, position_map) result" where
  "biosphere_map edges directional =
     and_then (fold_result (\<lambda>m e. map_err Accumulation
                 (accumulate_biosphere_edge m (cbe_flow_idx e, cbe_process_idx e) (cbe_amount e) directional)) [] edges) (\<lambda>m.
     Ok (filter (\<lambda>e. retain_sparse_value (snd e) directional) m))"

definition flow_indices_by_identity :: "compiled_flow list \<Rightarrow> (flow_link_identity \<times> i32) list" where
  "flow_indices_by_identity flows =
     foldl (\<lambda>m f. if cfl_space f = Biosphere then AList.update (flow_identity f) (cfl_flow_idx f) m else m) [] flows"

definition factor_step ::
    "(flow_link_identity \<times> i32) list \<Rightarrow> uuid \<Rightarrow> (i32 \<times> f64) list \<Rightarrow> flow_link_identity \<times> f64 \<Rightarrow>
       (assembly_error, (i32 \<times> f64) list) result" where
  "factor_step indices impact_id c_map e =
     (case map_of indices (fst e) of
        None \<Rightarrow> Ok c_map
      | Some flow_idx \<Rightarrow> map_err Accumulation (accumulate_finite_factor c_map flow_idx (snd e) impact_id))"

definition impact_step ::
    "((i32 \<times> f64) list \<Rightarrow> (i32 \<times> f64) list) \<Rightarrow> (flow_link_identity \<times> i32) list \<Rightarrow> active_lcia_factor_selection \<Rightarrow> bool \<Rightarrow>
     sparse_triplet list \<Rightarrow> nat \<times> impact_factor_set \<Rightarrow> (assembly_error, sparse_triplet list) result" where
  "impact_step order_c indices active directional acc e =
     and_then (ok_or (i32_try_from (fst e)) ImpactIdxOverflow) (\<lambda>row.
     and_then (if fst e < length (al_factors_by_impact active) then Ok (al_factors_by_impact active ! fst e)
               else Err ImpactAxisOmitted) (\<lambda>factors.
     and_then (fold_result (factor_step indices (if_impact_id (snd e))) [] factors) (\<lambda>c_map.
     Ok (acc @ map (\<lambda>(col, v). \<lparr>st_row = row, st_col = col, st_value = v\<rparr>)
                 (order_c (filter (\<lambda>x. retain_sparse_value (snd x) directional) c_map))))))"

definition characterization_entries ::
    "((i32 \<times> f64) list \<Rightarrow> (i32 \<times> f64) list) \<Rightarrow> (flow_link_identity \<times> i32) list \<Rightarrow> active_lcia_factor_selection \<Rightarrow> bool \<Rightarrow>
     bool \<Rightarrow> impact_factor_set list \<Rightarrow> (assembly_error, sparse_triplet list) result" where
  "characterization_entries order_c indices active directional has_lcia impacts =
     (if has_lcia then fold_result (impact_step order_c indices active directional) [] (List.enumerate 0 impacts) else Ok [])"

subsection \<open>Diagnostics\<close>

definition matching_coverage_of :: "compiled_graph \<Rightarrow> snapshot_matching_coverage" where
  "matching_coverage_of graph =
     (let s = cg_matching_stats graph; present = matched_unique_provider s + matched_multi_provider s
      in \<lparr>smc_stats = s,
          a_write_pct = pct (a_input_edges_written s) (input_edges_total s),
          provider_present_resolved_pct = pct (a_input_edges_written s) present,
          unique_provider_match_pct = pct (matched_unique_provider s) (input_edges_total s),
          any_provider_match_pct = pct present (input_edges_total s),
          smc_diagnostics = summarize_matching_diagnostics graph\<rparr>)"

definition reference_coverage_of :: "int \<Rightarrow> compiled_reference_stats \<Rightarrow> snapshot_reference_coverage" where
  "reference_coverage_of n s =
     \<lparr>src_process_total = n, normalized_process_count = normalized_processes s,
      missing_reference_count = missing_reference s, invalid_reference_count = invalid_reference s\<rparr>"

definition allocation_coverage_of :: "compiled_allocation_stats \<Rightarrow> snapshot_allocation_coverage" where
  "allocation_coverage_of s =
     \<lparr>sac_exchange_total = ca_exchange_total s,
      allocation_fraction_present_pct = pct (ca_fraction_present_count s) (ca_exchange_total s),
      allocation_fraction_missing_count = ca_fraction_missing_count s,
      allocation_fraction_invalid_count = ca_fraction_invalid_count s,
      legacy_empty_allocation_as_undeclared_count = ca_legacy_empty_allocation_as_undeclared_count s,
      legacy_single_output_target_inferred_count = ca_legacy_single_output_target_inferred_count s,
      legacy_single_reference_target_inferred_count = ca_legacy_single_reference_target_inferred_count s\<rparr>"

definition coverage_report_of ::
    "compiled_graph \<Rightarrow> int \<Rightarrow> snapshot_singular_risk \<Rightarrow> snapshot_matrix_scale \<Rightarrow> snapshot_coverage_report" where
  "coverage_report_of graph n risk matrix_scale =
     \<lparr>cov_schema_version = snapshot_coverage_schema_version, cov_matching = matching_coverage_of graph,
      cov_reference = reference_coverage_of n (cg_reference_stats graph),
      cov_allocation = allocation_coverage_of (cg_allocation_stats graph),
      cov_singular_risk = risk, cov_matrix_scale = matrix_scale\<rparr>"

definition diagonal_of :: "sparse_triplet list \<Rightarrow> (i32 \<times> f64) list" where
  "diagonal_of es =
     foldl (\<lambda>m t. if st_row t = st_col t then acc_add (st_row t) (st_value t) m else m) [] es"

definition diag_step :: "f64 \<Rightarrow> (i32 \<times> f64) list \<Rightarrow> int \<times> f64 \<Rightarrow> nat \<Rightarrow> int \<times> f64" where
  "diag_step singular_eps diag s idx =
     (let abs_m_diag = f_abs (f_sub (Fin 1) (unwrap_or (map_of diag (int idx)) (Fin 0)))
      in (if f_le abs_m_diag singular_eps then fst s + 1 else fst s,
          if f_lt abs_m_diag (snd s) then abs_m_diag else snd s))"

definition singular_risk_of ::
    "nat \<Rightarrow> f64 \<Rightarrow> f64 \<Rightarrow> position_map \<Rightarrow> sparse_triplet list \<Rightarrow> (assembly_error, snapshot_singular_risk) result" where
  "singular_risk_of n cutoff singular_eps a_map es =
     and_then (ok_or (i64_count (length (filter (\<lambda>((r, c), v). r = c \<and> f_ge (f_abs v) cutoff) a_map)))
                 PrefilterCountOverflow) (\<lambda>pre.
     let diag = diagonal_of es in
     and_then (ok_or (i64_count (length (filter (\<lambda>e. f_ge (f_abs (snd e)) cutoff) diag))) DiagCountOverflow) (\<lambda>post.
     let s = foldl (diag_step singular_eps diag) (0, PosInf) [0..<n] in
     Ok \<lparr>risk_level = (if 0 < fst s then ''high'' else if 0 < pre \<or> 0 < post then ''medium'' else ''low''),
         prefilter_diag_abs_ge_cutoff = pre, postfilter_a_diag_abs_ge_cutoff = post,
         m_zero_diagonal_count = fst s,
         m_min_abs_diagonal = (if is_finite (snd s) then snd s else Fin 0)\<rparr>))"

definition matrix_scale_of ::
    "int \<Rightarrow> int \<Rightarrow> int \<Rightarrow> sparse_triplet list \<Rightarrow> sparse_triplet list \<Rightarrow> sparse_triplet list \<Rightarrow> int \<Rightarrow>
       (assembly_error, snapshot_matrix_scale) result" where
  "matrix_scale_of n flows impacts a b c zero_diag =
     and_then (ok_or (i64_count (length a)) NnzOverflow) (\<lambda>a_nnz.
     and_then (ok_or (i64_count (length b)) NnzOverflow) (\<lambda>b_nnz.
     and_then (ok_or (i64_count (length c)) NnzOverflow) (\<lambda>c_nnz.
     and_then (ok_or (i64_count (length (filter (\<lambda>t. st_row t \<noteq> st_col t) a))) NnzOverflow) (\<lambda>offdiag.
     let estimated = offdiag + max (n - zero_diag) 0 in
     Ok \<lparr>ms_process_count = n, ms_flow_count = flows, ms_impact_count = impacts,
         ms_a_nnz = a_nnz, ms_b_nnz = b_nnz, ms_c_nnz = c_nnz, ms_m_nnz_estimated = estimated,
         ms_m_sparsity_estimated =
           (if n = 0 then Fin 1
            else f_sub (Fin 1) (f_div (round64 (of_int estimated)) (round64 (of_int (n * n)))))\<rparr>))))"

subsection \<open>Index maps\<close>

definition process_map_of :: "compiled_process list \<Rightarrow> snapshot_process_map_entry list" where
  "process_map_of processes =
     map (\<lambda>p. \<lparr>spm_process_id = cp_process_id p, spm_process_index = cp_process_idx p,
               spm_process_version = cp_process_version p, spm_process_name = cp_process_name p,
               spm_location = cp_location p\<rparr>) processes"

definition build_snapshot_impact_map ::
    "uuid \<Rightarrow> bool \<Rightarrow> impact_factor_set list \<Rightarrow> (assembly_error, snapshot_impact_map_entry list) result" where
  "build_snapshot_impact_map snapshot_id method_has_lcia impacts =
     (if \<not> method_has_lcia
      then Ok [\<lparr>sim_impact_id = snapshot_id, sim_impact_index = 0, sim_impact_version = None,
                sim_impact_key = ''lcia-disabled'', sim_impact_name = ''LCIA disabled (placeholder impact)'',
                sim_unit = ''unknown''\<rparr>]
      else and_then (ensure (impacts \<noteq> []) ImpactFactorsMissing) (\<lambda>_.
        traverse (\<lambda>(k, impact).
          and_then (ok_or (i32_try_from k) ImpactIdxOverflow) (\<lambda>i.
          Ok \<lparr>sim_impact_id = if_impact_id impact, sim_impact_index = i,
              sim_impact_version = Some (if_method_version impact), sim_impact_key = if_impact_key impact,
              sim_impact_name = if_impact_name impact, sim_unit = if_unit impact\<rparr>))
          (List.enumerate 0 impacts)))"

subsection \<open>The payload\<close>

definition build_output_of ::
    "readiness_env \<Rightarrow> build_config \<Rightarrow> uuid \<Rightarrow> bool \<Rightarrow> compiled_graph \<Rightarrow> snapshot_impact_map_entry list \<Rightarrow>
     snapshot_singular_risk \<Rightarrow> snapshot_matrix_scale \<Rightarrow> lcia_factor_coverage_build option \<Rightarrow> model_sparse_data \<Rightarrow> build_output" where
  "build_output_of renv config snapshot_id has_lcia graph impact_map risk matrix_scale factor_coverage data =
     (let coverage = coverage_report_of graph (process_count data) risk matrix_scale
      in \<lparr>bo_data = data, bo_coverage = coverage,
          bo_snapshot_index =
            \<lparr>six_version = 1, six_snapshot_id = snapshot_id, six_process_count = process_count data,
             six_impact_count = impact_count data, six_process_map = process_map_of (cg_processes graph),
             six_impact_map = impact_map, six_calculation_evidence = None\<rparr>,
          bo_readiness = verify_matrix_readiness renv
            \<lparr>mi_schema_version = ''matrix_readiness_input.v2'', mi_snapshot_id = Some snapshot_id, mi_config = Some config, mi_coverage = coverage, mi_payload = data,
             mi_compiled_graph = Some graph, mi_policy = policy_of_config config has_lcia\<rparr>,
          bo_compiled_graph = graph, bo_lcia_coverage = factor_coverage\<rparr>)"

definition assemble_sparse_payload_with_selection ::
    "readiness_env \<Rightarrow> build_config \<Rightarrow> (position_map \<Rightarrow> position_map) \<Rightarrow> ((i32 \<times> f64) list \<Rightarrow> (i32 \<times> f64) list) \<Rightarrow>
     (observation_groups \<Rightarrow> observation_groups) \<Rightarrow> uuid \<Rightarrow> bool \<Rightarrow> compiled_graph \<Rightarrow> f64 \<Rightarrow> f64 \<Rightarrow> bool \<Rightarrow>
     impact_factor_set list \<Rightarrow> lcia_exchange_observation list \<Rightarrow> bool \<Rightarrow> active_lcia_factor_selection \<Rightarrow>
       (assembly_error, build_output) result" where
  "assemble_sparse_payload_with_selection renv config order order_c order_g snapshot_id method_has_lcia graph cutoff singular_eps
     has_lcia impacts observations directional active =
     and_then (ok_or (i32_try_from (length (cg_processes graph))) ProcessOverflow) (\<lambda>n.
     and_then (ok_or (i32_try_from (length (cg_flows graph))) FlowOverflow) (\<lambda>flows.
     let a_map = technosphere_map (cg_technosphere_edges graph) in
     and_then (biosphere_map (cg_biosphere_edges graph) directional) (\<lambda>b_map.
     let a_entries = entries_of (order a_map) in
     and_then (singular_risk_of (length (cg_processes graph)) cutoff singular_eps a_map a_entries) (\<lambda>risk.
     let b_entries = entries_of (order b_map) in
     and_then (characterization_entries order_c (flow_indices_by_identity (cg_flows graph)) active directional
                 has_lcia impacts) (\<lambda>c_entries.
     and_then (if has_lcia then ok_or (i32_try_from (length impacts)) ImpactOverflow else Ok 1) (\<lambda>impact_count.
     and_then (matrix_scale_of n flows impact_count a_entries b_entries c_entries (m_zero_diagonal_count risk)) (\<lambda>scale.
     and_then (build_snapshot_impact_map snapshot_id method_has_lcia impacts) (\<lambda>impact_map.
     and_then (if directional
               then and_then (map_err Coverage (build_lcia_factor_coverage order_g observations impacts (al_direction_by_flow active)))
                      (\<lambda>c. Ok (Some c))
               else Ok None) (\<lambda>coverage.
     Ok (build_output_of renv config snapshot_id has_lcia graph impact_map risk scale coverage
            \<lparr>model_version = snapshot_id, process_count = n, flow_count = flows, impact_count = impact_count,
             technosphere_entries = a_entries, biosphere_entries = b_entries,
             characterization_factors = c_entries\<rparr>))))))))))"

definition assemble_sparse_payload ::
    "readiness_env \<Rightarrow> build_config \<Rightarrow> (position_map \<Rightarrow> position_map) \<Rightarrow> ((i32 \<times> f64) list \<Rightarrow> (i32 \<times> f64) list) \<Rightarrow>
     (observation_groups \<Rightarrow> observation_groups) \<Rightarrow> uuid \<Rightarrow> bool \<Rightarrow> compiled_graph \<Rightarrow> f64 \<Rightarrow> f64 \<Rightarrow> bool \<Rightarrow>
     impact_factor_set list \<Rightarrow> lcia_exchange_observation list \<Rightarrow> bool \<Rightarrow> (assembly_error, build_output) result" where
  "assemble_sparse_payload renv config order order_c order_g snapshot_id method_has_lcia graph cutoff singular_eps
     has_lcia impacts observations directional =
     assemble_sparse_payload_with_selection renv config order order_c order_g snapshot_id method_has_lcia graph cutoff singular_eps
       has_lcia impacts observations directional
       (select_active_lcia_factors impacts (biosphere_identities graph) observations directional)"

lemma coverage_report_fields [simp]:
  "cov_matching (coverage_report_of graph n risk matrix_scale) = matching_coverage_of graph"
  "cov_singular_risk (coverage_report_of graph n risk matrix_scale) = risk"
  "cov_reference (coverage_report_of graph n risk matrix_scale) = reference_coverage_of n (cg_reference_stats graph)"
  "cov_allocation (coverage_report_of graph n risk matrix_scale) = allocation_coverage_of (cg_allocation_stats graph)"
  by (simp_all add: coverage_report_of_def)

lemma build_output_fields [simp]:
  fixes renv config snapshot_id has_lcia graph impact_map risk matrix_scale factor_coverage data
  defines "out \<equiv> build_output_of renv config snapshot_id has_lcia graph impact_map risk matrix_scale factor_coverage data"
  shows "bo_data out = data" "bo_coverage out = coverage_report_of graph (process_count data) risk matrix_scale"
    "bo_readiness out = verify_matrix_readiness renv
       \<lparr>mi_schema_version = ''matrix_readiness_input.v2'', mi_snapshot_id = Some snapshot_id, mi_config = Some config, mi_coverage = bo_coverage out, mi_payload = bo_data out,
        mi_compiled_graph = Some graph, mi_policy = policy_of_config config has_lcia\<rparr>"
  by (simp_all add: out_def build_output_of_def Let_def)

subsection \<open>What the maps hold\<close>

lemma map_of_filter_snd:
  assumes "distinct (map fst m)"
  shows "map_of (filter (\<lambda>e. P (snd e)) m) k = (case map_of m k of None \<Rightarrow> None | Some v \<Rightarrow> if P v then Some v else None)"
  using assms by (induction m) (auto simp: map_of_eq_None_iff [symmetric] split: option.splits)

lemma filter_key:
  assumes "distinct (map fst m)"
  shows "filter (\<lambda>e. fst e = k \<and> Q (snd e)) m =
    (case map_of m k of None \<Rightarrow> [] | Some v \<Rightarrow> if Q v then [(k, v)] else [])"
  using assms
proof (induction m)
  case (Cons e m)
  show ?case
  proof (cases "fst e = k")
    case True
    then have "filter (\<lambda>e'. fst e' = k \<and> Q (snd e')) m = []"
      using Cons.prems by (auto simp: filter_empty_conv image_iff)
    with True show ?thesis by (cases e) simp
  next
    case False
    with Cons show ?thesis by (cases e) simp
  qed
qed simp

text \<open>The values of an edge list at a position and the coefficient they add up to.\<close>

definition edge_values :: "compiled_technosphere_edge list \<Rightarrow> i32 \<Rightarrow> i32 \<Rightarrow> f64 list" where
  "edge_values edges r c =
     map cte_amount (filter (\<lambda>e. cte_provider_idx e = r \<and> cte_consumer_idx e = c \<and> f_gt (f_abs (cte_amount e)) Provider_Linking.f64_epsilon) edges)"

definition a_coefficient :: "compiled_technosphere_edge list \<Rightarrow> i32 \<Rightarrow> i32 \<Rightarrow> f64 option" where
  "a_coefficient edges r c = total_above Provider_Linking.f64_epsilon (edge_values edges r c)"

definition emission_values :: "bool \<Rightarrow> compiled_biosphere_edge list \<Rightarrow> i32 \<Rightarrow> i32 \<Rightarrow> f64 list" where
  "emission_values directional edges r c =
     map cbe_amount (filter (\<lambda>e. cbe_flow_idx e = r \<and> cbe_process_idx e = c \<and> retain_sparse_value (cbe_amount e) directional) edges)"

definition b_coefficient :: "bool \<Rightarrow> compiled_biosphere_edge list \<Rightarrow> i32 \<Rightarrow> i32 \<Rightarrow> f64 option" where
  "b_coefficient directional edges r c =
     (let vs = emission_values directional edges r c; total = foldl f_add (Fin 0) vs
      in if vs \<noteq> [] \<and> retain_sparse_value total directional then Some total else None)"

lemma edge_fold:
  fixes m :: position_map and edges :: "compiled_technosphere_edge list"
  assumes "distinct (map fst m)"
  defines "m' \<equiv> foldl (\<lambda>m e. add_technosphere_edge m (cte_provider_idx e) (cte_consumer_idx e) (cte_amount e)) m edges"
  shows "distinct (map fst m') \<and> fst ` set m' \<subseteq> fst ` set m \<union> (\<lambda>e. (cte_provider_idx e, cte_consumer_idx e)) ` set edges \<and>
    map_of m' (r, c) = (if edge_values edges r c = [] then map_of m (r, c)
      else Some (foldl f_add (unwrap_or (map_of m (r, c)) (Fin 0)) (edge_values edges r c)))"
  using assms(1) unfolding m'_def
proof (induction edges arbitrary: m)
  case (Cons e edges)
  let ?m = "add_technosphere_edge m (cte_provider_idx e) (cte_consumer_idx e) (cte_amount e)"
  have d: "distinct (map fst ?m)" "fst ` set ?m \<subseteq> insert (cte_provider_idx e, cte_consumer_idx e) (fst ` set m)"
    using Cons.prems by (auto simp: add_technosphere_edge_def acc_add_distinct acc_add_keys)
  have v: "map_of ?m (r, c) = (if cte_provider_idx e = r \<and> cte_consumer_idx e = c \<and> f_gt (f_abs (cte_amount e)) Provider_Linking.f64_epsilon
      then Some (f_add (unwrap_or (map_of m (r, c)) (Fin 0)) (cte_amount e)) else map_of m (r, c))"
    by (auto simp: add_technosphere_edge_def map_of_acc_add split: option.splits)
  note IH = Cons.IH [OF d(1)]
  show ?case
  proof (intro conjI)
    show "distinct (map fst (foldl (\<lambda>m e. add_technosphere_edge m (cte_provider_idx e) (cte_consumer_idx e) (cte_amount e)) m (e # edges)))"
      using IH by simp
    show "fst ` set (foldl (\<lambda>m e. add_technosphere_edge m (cte_provider_idx e) (cte_consumer_idx e) (cte_amount e)) m (e # edges))
        \<subseteq> fst ` set m \<union> (\<lambda>e. (cte_provider_idx e, cte_consumer_idx e)) ` set (e # edges)"
      using IH d(2) unfolding foldl_Cons list.set(2) image_insert by blast
    show "map_of (foldl (\<lambda>m e. add_technosphere_edge m (cte_provider_idx e) (cte_consumer_idx e) (cte_amount e)) m (e # edges)) (r, c) =
        (if edge_values (e # edges) r c = [] then map_of m (r, c)
         else Some (foldl f_add (unwrap_or (map_of m (r, c)) (Fin 0)) (edge_values (e # edges) r c)))"
      using IH by (simp add: v edge_values_def)
  qed
qed (simp add: edge_values_def)

lemma technosphere_map_facts:
  "distinct (map fst (technosphere_map edges))"
  "fst ` set (technosphere_map edges) \<subseteq> (\<lambda>e. (cte_provider_idx e, cte_consumer_idx e)) ` set edges"
  "map_of (technosphere_map edges) (r, c) = a_coefficient edges r c"
proof -
  let ?m = "foldl (\<lambda>m e. add_technosphere_edge m (cte_provider_idx e) (cte_consumer_idx e) (cte_amount e)) [] edges"
  from edge_fold [of "[]" edges] have f: "distinct (map fst ?m)"
      "fst ` set ?m \<subseteq> (\<lambda>e. (cte_provider_idx e, cte_consumer_idx e)) ` set edges"
      "map_of ?m (r, c) = (if edge_values edges r c = [] then None else Some (foldl f_add (Fin 0) (edge_values edges r c)))"
    by simp_all
  show "distinct (map fst (technosphere_map edges))" using f(1) by (simp add: technosphere_map_def distinct_map_filter)
  show "fst ` set (technosphere_map edges) \<subseteq> (\<lambda>e. (cte_provider_idx e, cte_consumer_idx e)) ` set edges"
    using f(2) by (force simp: technosphere_map_def)
  show "map_of (technosphere_map edges) (r, c) = a_coefficient edges r c"
    using f(3) by (simp add: technosphere_map_def map_of_filter_snd [OF f(1), where P = "\<lambda>v. f_gt (f_abs v) Provider_Linking.f64_epsilon"]
        a_coefficient_def total_above_def Let_def)
qed

lemma biosphere_fold:
  fixes m :: position_map
  assumes "fold_result (\<lambda>m e. map_err Accumulation
      (accumulate_biosphere_edge m (cbe_flow_idx e, cbe_process_idx e) (cbe_amount e) directional)) m edges = Ok m'"
    and "distinct (map fst m)"
  shows "distinct (map fst m') \<and> fst ` set m' \<subseteq> fst ` set m \<union> (\<lambda>e. (cbe_flow_idx e, cbe_process_idx e)) ` set edges \<and>
    map_of m' (r, c) = (if emission_values directional edges r c = [] then map_of m (r, c)
      else Some (foldl f_add (unwrap_or (map_of m (r, c)) (Fin 0)) (emission_values directional edges r c)))"
  using assms
proof (induction edges arbitrary: m)
  case (Cons e edges)
  from Cons.prems(1) obtain m1 where m1: "accumulate_biosphere_edge m (cbe_flow_idx e, cbe_process_idx e) (cbe_amount e) directional = Ok m1"
      and rest: "fold_result (\<lambda>m e. map_err Accumulation
        (accumulate_biosphere_edge m (cbe_flow_idx e, cbe_process_idx e) (cbe_amount e) directional)) m1 edges = Ok m'"
    by (auto simp: and_then_Ok_iff)
  have m1': "m1 = (if retain_sparse_value (cbe_amount e) directional
      then AList.update (cbe_flow_idx e, cbe_process_idx e)
        (f_add (unwrap_or (map_of m (cbe_flow_idx e, cbe_process_idx e)) (Fin 0)) (cbe_amount e)) m else m)"
    using m1 by (auto simp: accumulate_biosphere_edge_def Let_def and_then_Ok_iff split: if_splits)
  have d: "distinct (map fst m1)" "fst ` set m1 \<subseteq> insert (cbe_flow_idx e, cbe_process_idx e) (fst ` set m)"
    using Cons.prems(2) by (auto simp: m1' distinct_update dom_update)
  have v: "map_of m1 (r, c) = (if cbe_flow_idx e = r \<and> cbe_process_idx e = c \<and> retain_sparse_value (cbe_amount e) directional
      then Some (f_add (unwrap_or (map_of m (r, c)) (Fin 0)) (cbe_amount e)) else map_of m (r, c))"
    by (auto simp: m1' update_conv)
  note IH = Cons.IH [OF rest d(1)]
  show ?case
  proof (intro conjI)
    show "distinct (map fst m')" using IH by simp
    show "fst ` set m' \<subseteq> fst ` set m \<union> (\<lambda>e. (cbe_flow_idx e, cbe_process_idx e)) ` set (e # edges)"
      using IH d(2) unfolding list.set(2) image_insert by blast
    show "map_of m' (r, c) = (if emission_values directional (e # edges) r c = [] then map_of m (r, c)
        else Some (foldl f_add (unwrap_or (map_of m (r, c)) (Fin 0)) (emission_values directional (e # edges) r c)))"
      using IH by (simp add: v emission_values_def)
  qed
qed (simp add: emission_values_def)

lemma biosphere_map_facts:
  assumes "biosphere_map edges directional = Ok m"
  shows "distinct (map fst m)" "fst ` set m \<subseteq> (\<lambda>e. (cbe_flow_idx e, cbe_process_idx e)) ` set edges"
    "map_of m (r, c) = b_coefficient directional edges r c"
proof -
  from assms obtain m0 where m0: "fold_result (\<lambda>m e. map_err Accumulation
      (accumulate_biosphere_edge m (cbe_flow_idx e, cbe_process_idx e) (cbe_amount e) directional)) [] edges = Ok m0"
      and m: "m = filter (\<lambda>e. retain_sparse_value (snd e) directional) m0"
    by (auto simp: biosphere_map_def and_then_Ok_iff)
  from biosphere_fold [OF m0] have f: "distinct (map fst m0)"
      "fst ` set m0 \<subseteq> (\<lambda>e. (cbe_flow_idx e, cbe_process_idx e)) ` set edges"
      "map_of m0 (r, c) = (if emission_values directional edges r c = [] then None
         else Some (foldl f_add (Fin 0) (emission_values directional edges r c)))"
    by simp_all
  show "distinct (map fst m)" using f(1) by (simp add: m distinct_map_filter)
  show "fst ` set m \<subseteq> (\<lambda>e. (cbe_flow_idx e, cbe_process_idx e)) ` set edges" using f(2) by (force simp: m)
  show "map_of m (r, c) = b_coefficient directional edges r c"
    using f(3) by (simp add: m map_of_filter_snd [OF f(1), where P = "\<lambda>v. retain_sparse_value v directional"] b_coefficient_def Let_def)
qed

lemma entries_of_values:
  assumes "mset m' = mset m" and "distinct (map fst m)"
  shows "values_at eps (entries_of m') r c =
    (case map_of m (int r, int c) of None \<Rightarrow> [] | Some v \<Rightarrow> if f_le (f_abs v) eps then [] else [v])"
proof -
  have d: "distinct (map fst m')" using assms by (metis mset_map mset_eq_imp_distinct_iff)
  have mm: "map_of m' k = map_of m k" for k
    using assms d by (metis map_of_inject_set mset_eq_setD)
  have "values_at eps (entries_of m') r c = map snd (filter (\<lambda>e. fst e = (int r, int c) \<and> \<not> f_le (f_abs (snd e)) eps) m')"
    by (induction m') (auto simp: values_at_def entries_of_def)
  then show ?thesis
    unfolding filter_key [OF d, of "(int r, int c)" "\<lambda>v. \<not> f_le (f_abs v) eps"] mm by (auto split: option.splits)
qed

lemma entries_of_positions:
  assumes "mset m' = mset m" and "t \<in> set (entries_of m')"
  shows "(st_row t, st_col t) \<in> fst ` set m"
  using assms(2) mset_eq_setD [OF assms(1)] by (force simp: entries_of_def)

lemma flow_indices_range:
  assumes "map_of (flow_indices_by_identity flows) i = Some k"
  shows "\<exists>f \<in> set flows. cfl_flow_idx f = k"
proof -
  have "\<exists>f \<in> set flows. cfl_flow_idx f = k \<or> map_of m i = Some k"
    if "map_of (foldl (\<lambda>m f. if cfl_space f = Biosphere then AList.update (flow_identity f) (cfl_flow_idx f) m else m) m flows) i = Some k"
      and "map_of m i \<noteq> Some k" for m
    using that
  proof (induction flows arbitrary: m)
    case (Cons f flows)
    let ?m = "if cfl_space f = Biosphere then AList.update (flow_identity f) (cfl_flow_idx f) m else m"
    show ?case
    proof (cases "map_of ?m i = Some k")
      case True
      with Cons.prems(2) show ?thesis by (auto simp: update_conv split: if_splits)
    next
      case False
      with Cons.IH [of ?m] Cons.prems(1) show ?thesis by auto
    qed
  qed simp
  from this [of "[]"] assms show ?thesis by (auto simp: flow_indices_by_identity_def)
qed

lemma factor_fold_cols:
  assumes "fold_result (factor_step indices impact_id) m factors = Ok m'"
  shows "fst ` set m' \<subseteq> fst ` set m \<union> {k. \<exists>i. map_of indices i = Some k}"
  using assms
proof (induction factors arbitrary: m)
  case (Cons e factors)
  from Cons.prems obtain m1 where m1: "factor_step indices impact_id m e = Ok m1"
      "fold_result (factor_step indices impact_id) m1 factors = Ok m'"
    by (auto simp: and_then_Ok_iff)
  have "fst ` set m1 \<subseteq> fst ` set m \<union> {k. \<exists>i. map_of indices i = Some k}"
  proof (cases "map_of indices (fst e)")
    case None
    with m1(1) show ?thesis by (auto simp: factor_step_def)
  next
    case (Some k)
    with m1(1) obtain v where "m1 = AList.update k v m"
      by (auto simp: factor_step_def accumulate_finite_factor_def Let_def and_then_Ok_iff)
    with Some show ?thesis by (auto simp only: dom_update)
  qed
  with Cons.IH [OF m1(2)] show ?case by blast
qed simp

lemma characterization_positions:
  assumes "characterization_entries order_c indices active directional has_lcia impacts = Ok ts"
    and "\<And>m. mset (order_c m) = mset m" and "t \<in> set ts"
  shows "has_lcia" and "0 \<le> st_row t" and "st_row t < int (length impacts)" and "\<exists>i. map_of indices i = Some (st_col t)"
proof -
  show lcia: has_lcia using assms(1,3) by (cases has_lcia) (auto simp: characterization_entries_def)
  from assms(1) lcia have "fold_result (impact_step order_c indices active directional) [] (List.enumerate 0 impacts) = Ok ts"
    by (simp add: characterization_entries_def)
  then have "\<forall>t \<in> set ts. 0 \<le> st_row t \<and> st_row t < int (length impacts) \<and> (\<exists>i. map_of indices i = Some (st_col t))"
  proof (rule fold_result_invariant)
    fix acc e acc'
    assume e: "e \<in> set (List.enumerate 0 impacts)"
      and acc: "\<forall>t \<in> set acc. 0 \<le> st_row t \<and> st_row t < int (length impacts) \<and> (\<exists>i. map_of indices i = Some (st_col t))"
      and step: "impact_step order_c indices active directional acc e = Ok acc'"
    from step obtain c_map where c: "fold_result (factor_step indices (if_impact_id (snd e))) [] (al_factors_by_impact active ! fst e) = Ok c_map"
        "acc' = acc @ map (\<lambda>(col, v). \<lparr>st_row = int (fst e), st_col = col, st_value = v\<rparr>)
            (order_c (filter (\<lambda>x. retain_sparse_value (snd x) directional) c_map))"
      by (auto simp: impact_step_def and_then_Ok_iff i32_try_from_def split: if_splits)
    have "set (order_c (filter (\<lambda>x. retain_sparse_value (snd x) directional) c_map)) \<subseteq> set c_map"
      using mset_eq_setD [OF assms(2)] by fastforce
    with factor_fold_cols [OF c(1)] acc e c(2)
    show "\<forall>t \<in> set acc'. 0 \<le> st_row t \<and> st_row t < int (length impacts) \<and> (\<exists>i. map_of indices i = Some (st_col t))"
      by (fastforce simp: in_set_enumerate_eq)
  qed simp
  with assms(3) show "0 \<le> st_row t" "st_row t < int (length impacts)" "\<exists>i. map_of indices i = Some (st_col t)" by blast+
qed

subsection \<open>The payload is in range\<close>

definition biosphere_in_range :: "compiled_graph \<Rightarrow> bool" where
  "biosphere_in_range graph \<longleftrightarrow>
     (\<forall>e \<in> set (cg_biosphere_edges graph). 0 \<le> cbe_flow_idx e \<and> cbe_flow_idx e < int (length (cg_flows graph)) \<and>
        0 \<le> cbe_process_idx e \<and> cbe_process_idx e < int (length (cg_processes graph))) \<and>
     (\<forall>f \<in> set (cg_flows graph). 0 \<le> cfl_flow_idx f \<and> cfl_flow_idx f < int (length (cg_flows graph)))"

definition technosphere_in_range :: "compiled_graph \<Rightarrow> bool" where
  "technosphere_in_range graph \<longleftrightarrow>
     (\<forall>e \<in> set (cg_technosphere_edges graph).
        0 \<le> cte_provider_idx e \<and> cte_provider_idx e < int (length (cg_processes graph)) \<and>
        0 \<le> cte_consumer_idx e \<and> cte_consumer_idx e < int (length (cg_processes graph)))"

lemma linked_edges_in_range:
  assumes "compile_signed_flow_balances exchanges space port_map metas (cg_processes graph) rule lineage = Ok batch"
    and "cg_technosphere_edges graph = bb_technosphere_edges batch"
  shows "technosphere_in_range graph"
proof -
  have range: "0 \<le> i \<and> i < int (length processes)" if "compiled_process_for_idx processes i = Some p" for processes i p
    using that by (auto simp: compiled_process_for_idx_def usize_try_from_def Option.bind_eq_Some_conv split: if_splits)
  have "list_all2 (edge_of_resolution (cg_processes graph)) (bb_technosphere_edges batch) (bb_resolutions batch)"
    using edges_compile [OF assms(1)] by (simp add: edges_parallel_def)
  then have "\<forall>e \<in> set (bb_technosphere_edges batch). \<exists>r. edge_of_resolution (cg_processes graph) e r"
    unfolding list_all2_conv_all_nth by (metis in_set_conv_nth)
  with range show ?thesis unfolding technosphere_in_range_def assms(2) edge_of_resolution_def by blast
qed

lemma assemble_OkE:
  assumes "assemble_sparse_payload_with_selection renv config order order_c order_g snapshot_id method_has_lcia graph cutoff singular_eps
     has_lcia impacts observations directional active = Ok out"
  obtains b_map c_entries where
    "biosphere_map (cg_biosphere_edges graph) directional = Ok b_map"
    "singular_risk_of (length (cg_processes graph)) cutoff singular_eps (technosphere_map (cg_technosphere_edges graph))
       (entries_of (order (technosphere_map (cg_technosphere_edges graph)))) = Ok (bo_singular_risk out)"
    "characterization_entries order_c (flow_indices_by_identity (cg_flows graph)) active directional has_lcia impacts = Ok c_entries"
    "method_has_lcia \<longrightarrow> impacts \<noteq> []"
    "process_count (bo_data out) = int (length (cg_processes graph))"
    "flow_count (bo_data out) = int (length (cg_flows graph))"
    "impact_count (bo_data out) = (if has_lcia then int (length impacts) else 1)"
    "technosphere_entries (bo_data out) = entries_of (order (technosphere_map (cg_technosphere_edges graph)))"
    "biosphere_entries (bo_data out) = entries_of (order b_map)"
    "characterization_factors (bo_data out) = c_entries"
    "cov_matching (bo_coverage out) = matching_coverage_of graph"
    "cov_reference (bo_coverage out) = reference_coverage_of (int (length (cg_processes graph))) (cg_reference_stats graph)"
    "cov_allocation (bo_coverage out) = allocation_coverage_of (cg_allocation_stats graph)"
    "bo_readiness out = verify_matrix_readiness renv
       \<lparr>mi_schema_version = ''matrix_readiness_input.v2'', mi_snapshot_id = Some snapshot_id, mi_config = Some config, mi_coverage = bo_coverage out, mi_payload = bo_data out,
        mi_compiled_graph = Some graph, mi_policy = policy_of_config config has_lcia\<rparr>"
proof -
  have i32: "i32_try_from n = Some k \<Longrightarrow> k = int n" for n k by (auto simp: i32_try_from_def split: if_splits)
  from assms obtain n flows b_map risk c_entries impact_count scale impact_map coverage where
      n: "i32_try_from (length (cg_processes graph)) = Some n" "i32_try_from (length (cg_flows graph)) = Some flows"
      and b: "biosphere_map (cg_biosphere_edges graph) directional = Ok b_map"
      and risk: "singular_risk_of (length (cg_processes graph)) cutoff singular_eps (technosphere_map (cg_technosphere_edges graph))
        (entries_of (order (technosphere_map (cg_technosphere_edges graph)))) = Ok risk"
      and c: "characterization_entries order_c (flow_indices_by_identity (cg_flows graph)) active directional has_lcia impacts = Ok c_entries"
      and ic: "(if has_lcia then ok_or (i32_try_from (length impacts)) ImpactOverflow else Ok 1) = Ok impact_count"
      and im: "build_snapshot_impact_map snapshot_id method_has_lcia impacts = Ok impact_map"
      and out': "Ok (build_output_of renv config snapshot_id has_lcia graph impact_map risk scale coverage
            \<lparr>model_version = snapshot_id, process_count = n, flow_count = flows, impact_count = impact_count,
             technosphere_entries = entries_of (order (technosphere_map (cg_technosphere_edges graph))),
             biosphere_entries = entries_of (order b_map), characterization_factors = c_entries\<rparr>) = Ok out"
    unfolding assemble_sparse_payload_with_selection_def and_then_Ok_iff ok_or_Ok_iff Let_def
    by fast
  note out = out' [unfolded sum.inject, symmetric]
  have "method_has_lcia \<longrightarrow> impacts \<noteq> []"
    using im by (auto simp: build_snapshot_impact_map_def and_then_Ok_iff)
  moreover have "impact_count = (if has_lcia then int (length impacts) else 1)" using ic i32 by (auto split: if_splits)
  ultimately show thesis using that [OF b _ c] risk i32 [OF n(1)] i32 [OF n(2)] by (simp add: out)
qed

lemma assembled_in_range:
  assumes "assemble_sparse_payload_with_selection renv config order order_c order_g snapshot_id has_lcia graph cutoff singular_eps
     has_lcia impacts observations directional active = Ok out"
    and "\<And>m. mset (order m) = mset m" and "\<And>m. mset (order_c m) = mset m"
    and "technosphere_in_range graph" and "biosphere_in_range graph" and "cg_processes graph \<noteq> []" and "cg_flows graph \<noteq> []"
  shows "data_in_range (bo_data out)"
  using assms(1)
proof (rule assemble_OkE)
  fix b_map c_entries
  assume b: "biosphere_map (cg_biosphere_edges graph) directional = Ok b_map"
    and c: "characterization_entries order_c (flow_indices_by_identity (cg_flows graph)) active directional has_lcia impacts = Ok c_entries"
    and impacts: "has_lcia \<longrightarrow> impacts \<noteq> []"
    and counts: "process_count (bo_data out) = int (length (cg_processes graph))" "flow_count (bo_data out) = int (length (cg_flows graph))"
      "impact_count (bo_data out) = (if has_lcia then int (length impacts) else 1)"
    and data: "technosphere_entries (bo_data out) = entries_of (order (technosphere_map (cg_technosphere_edges graph)))"
      "biosphere_entries (bo_data out) = entries_of (order b_map)" "characterization_factors (bo_data out) = c_entries"
  show ?thesis
    unfolding data_in_range_def counts data
  proof (intro conjI ballI)
    show "0 < int (length (cg_processes graph))" "0 < int (length (cg_flows graph))" using assms(6,7) by simp_all
    show "0 < (if has_lcia then int (length impacts) else 1)" using impacts by simp
  next
    fix t
    assume "t \<in> set (entries_of (order (technosphere_map (cg_technosphere_edges graph))))"
    from entries_of_positions [OF assms(2) this] technosphere_map_facts(2) [of "cg_technosphere_edges graph"]
    obtain e where "e \<in> set (cg_technosphere_edges graph)" "(st_row t, st_col t) = (cte_provider_idx e, cte_consumer_idx e)" by blast
    with assms(4) show "in_range (int (length (cg_processes graph))) (int (length (cg_processes graph))) (negated_triplet t)"
      by (auto simp: technosphere_in_range_def in_range_def negated_triplet_def)
  next
    fix t
    assume "t \<in> set (entries_of (order b_map))"
    from entries_of_positions [OF assms(2) this] biosphere_map_facts(2) [OF b]
    obtain e where "e \<in> set (cg_biosphere_edges graph)" "(st_row t, st_col t) = (cbe_flow_idx e, cbe_process_idx e)" by blast
    with assms(5) show "in_range (int (length (cg_flows graph))) (int (length (cg_processes graph))) (to_matrix_triplet t)"
      by (auto simp: biosphere_in_range_def in_range_def to_matrix_triplet_def)
  next
    fix t
    assume t: "t \<in> set c_entries"
    from characterization_positions(4) [OF c assms(3) t] flow_indices_range obtain f
      where f: "f \<in> set (cg_flows graph)" "cfl_flow_idx f = st_col t" by blast
    have "0 \<le> st_col t" "st_col t < int (length (cg_flows graph))"
      using f assms(5) by (auto simp: biosphere_in_range_def)
    with characterization_positions(1-3) [OF c assms(3) t]
    show "in_range (if has_lcia then int (length impacts) else 1) (int (length (cg_flows graph))) (to_matrix_triplet t)"
      by (simp add: in_range_def to_matrix_triplet_def)
  qed
qed

subsection \<open>Diagonal\<close>

lemma f_add_zero:
  assumes "w = f_add x y" and "f_gt (f_abs w) (Fin 0)"
  shows "f_add (Fin 0) w = w"
proof (cases "is_finite w")
  case True
  then have xy: "is_finite x" "is_finite y" using assms(1) by (cases x; cases y; auto simp: f_add_def)+
  from f_add_val(2) [OF xy] True assms(1) have rep: "f_rep w" by simp
  have "w \<noteq> NegZero" "f_val w \<noteq> 0" using True assms(2) by (cases w; auto simp: f_lt_def)+
  then obtain q where q: "w = Fin q" using True by (cases w) auto
  have "f_val (f_add (Fin 0) w) = f_val w" "is_finite (f_add (Fin 0) w)"
    using f_add_exact [of "Fin 0" w] rep by (simp_all add: f_rep_def)
  with q \<open>f_val w \<noteq> 0\<close> show ?thesis by (cases "f_add (Fin 0) w") auto
next
  case False
  with assms(2) show ?thesis by (cases w) (auto simp: f_add_def f_lt_def)
qed

lemma acc_add_new: "k \<notin> fst ` set m \<Longrightarrow> acc_add k v m = m @ [(k, f_add (Fin 0) v)]"
  by (induction k v m rule: acc_add.induct) auto

lemma diagonal_of_entries:
  assumes "distinct (map fst m)" and "\<forall>e \<in> set m. f_add (Fin 0) (snd e) = snd e"
  shows "diagonal_of (entries_of m) = map (\<lambda>((r, c), v). (r, v)) (filter (\<lambda>((r, c), v). r = c) m)"
proof -
  have "foldl (\<lambda>d t. if st_row t = st_col t then acc_add (st_row t) (st_value t) d else d) d (entries_of m) =
      d @ map (\<lambda>((r, c), v). (r, v)) (filter (\<lambda>((r, c), v). r = c) m)"
    if "\<forall>k \<in> fst ` set d. (k, k) \<notin> fst ` set m" for d :: "(i32 \<times> f64) list"
    using assms that
  proof (induction m arbitrary: d)
    case (Cons e m)
    obtain r c v where e: "e = ((r, c), v)" by (metis prod.exhaust)
    show ?case
    proof (cases "r = c")
      case True
      have new: "r \<notin> fst ` set d" using Cons.prems(3) e True by auto
      have v: "f_add (Fin 0) v = v" using Cons.prems(2) e by simp
      have "\<forall>k \<in> fst ` set (d @ [(r, v)]). (k, k) \<notin> fst ` set m"
        using Cons.prems(1,3) e True by auto
      from Cons.IH [OF _ _ this] Cons.prems(1,2) e True acc_add_new [OF new] v show ?thesis
        by (simp add: entries_of_def)
    next
      case False
      with Cons.IH [of d] Cons.prems e show ?thesis by (simp add: entries_of_def)
    qed
  qed (simp add: entries_of_def)
  from this [of "[]"] show ?thesis by (simp add: diagonal_of_def)
qed

lemma map_of_diagonal:
  assumes "distinct (map fst m)"
  shows "map_of (map (\<lambda>((r, c), v). (r, v)) (filter (\<lambda>((r, c), v). r = c) m)) i = map_of m (i, i)"
  using assms by (induction m) auto

lemma technosphere_values_rounded:
  assumes "e \<in> set (technosphere_map edges)"
  shows "f_add (Fin 0) (snd e) = snd e"
proof -
  obtain r c v where e: "e = ((r, c), v)" by (metis prod.exhaust)
  from assms e technosphere_map_facts(1,3) have "a_coefficient edges r c = Some v" by (metis map_of_eq_Some_iff)
  then have v: "v = foldl f_add (Fin 0) (edge_values edges r c)" "edge_values edges r c \<noteq> []"
      "f_gt (f_abs v) Provider_Linking.f64_epsilon"
    by (auto simp: a_coefficient_def total_above_def Let_def split: if_splits)
  from v(2) obtain xs x where "edge_values edges r c = xs @ [x]" by (metis rev_exhaust)
  with v(1) have "v = f_add (foldl f_add (Fin 0) xs) x" by simp
  moreover have "f_gt (f_abs v) (Fin 0)" using v(3) by (cases v) (auto simp: f_lt_def Provider_Linking.f64_epsilon_def)
  ultimately show ?thesis using f_add_zero e by simp
qed

lemma diag_fold:
  "fst (foldl (diag_step eps diag) s idxs) =
     fst s + int (length (filter (\<lambda>i. f_le (f_abs (f_sub (Fin 1) (unwrap_or (map_of diag (int i)) (Fin 0)))) eps) idxs))"
  by (induction idxs arbitrary: s) (auto simp: diag_step_def Let_def)

definition above :: "f64 \<Rightarrow> f64 option \<Rightarrow> f64 list" where
  "above eps v = (case v of None \<Rightarrow> [] | Some x \<Rightarrow> if f_le (f_abs x) eps then [] else [x])"

subsection \<open>Example graphs\<close>

definition open_config :: build_config where
  "open_config = \<lparr>technosphere_boundary_policy = ''open'', scope_closure_bound = False\<rparr>"

definition closed_config :: build_config where
  "closed_config = \<lparr>technosphere_boundary_policy = ''closed'', scope_closure_bound = False\<rparr>"

text \<open>Processes one of which emits, with given edges between them.\<close>

definition emission_graph_of :: "compiled_process list \<Rightarrow> i32 \<Rightarrow> compiled_technosphere_edge list \<Rightarrow> compiled_graph" where
  "emission_graph_of processes i edges = \<lparr>cg_processes = processes,
     cg_flows = [\<lparr>cfl_flow_idx = 0, cfl_flow_id = 9, cfl_flow_version = ''1'', cfl_kind = ElementaryFlow,
       cfl_space = Biosphere, cfl_source_type = SourceElementary\<rparr>],
     cg_reference_ports = [], cg_balance_resolutions = [], cg_unresolved_balances = [], cg_provider_outputs = [],
     cg_provider_decisions = [], cg_technosphere_edges = edges,
     cg_biosphere_edges = [\<lparr>cbe_process_idx = i, cbe_flow_idx = 0, cbe_amount = Fin 1, cbe_process_partition = Public\<rparr>],
     cg_reference_stats = \<lparr>missing_reference = 0, invalid_reference = 0, normalized_processes = 3\<rparr>,
     cg_allocation_stats = \<lparr>ca_exchange_total = 1, ca_fraction_present_count = 1, ca_fraction_missing_count = 0,
       ca_fraction_invalid_count = 0, ca_legacy_empty_allocation_as_undeclared_count = 0,
       ca_legacy_single_output_target_inferred_count = 0, ca_legacy_single_reference_target_inferred_count = 0\<rparr>,
     cg_matching_stats = matching_stats_default\<rparr>"

abbreviation emission_graph :: "compiled_technosphere_edge list \<Rightarrow> compiled_graph" where
  "emission_graph edges \<equiv> emission_graph_of link_processes 1 edges"

abbreviation assemble_of :: "build_config \<Rightarrow> compiled_graph \<Rightarrow> (assembly_error, build_output) result" where
  "assemble_of config graph \<equiv>
     assemble_sparse_payload example_renv config rev rev rev 5 False graph (Fin 1) (Fin 0) False [] [] False"

abbreviation assemble_example :: "compiled_technosphere_edge list \<Rightarrow> (assembly_error, build_output) result" where
  "assemble_example edges \<equiv> assemble_of open_config (emission_graph edges)"

lemma epsilon_exceeded: "f_lt Provider_Linking.f64_epsilon (Fin 1)" "\<not> f_lt Provider_Linking.f64_epsilon (Fin 0)"
  by (simp_all add: Provider_Linking.f64_epsilon_def f_lt_def)

lemma emission_map: "biosphere_map (cg_biosphere_edges (emission_graph_of ps i edges)) False = Ok [((0, i), Fin 1)]"
  by (simp add: biosphere_map_def emission_graph_of_def accumulate_biosphere_edge_def retain_sparse_value_def epsilon_exceeded f_add_def Let_def ensure_def map_err_def)

lemma assemble_of_runs:
  assumes "singular_risk_of (length ps) (Fin 1) (Fin 0) (technosphere_map edges) (entries_of (rev (technosphere_map edges))) = Ok risk"
    and "length (technosphere_map edges) < 2 ^ 63" and "int (length ps) \<le> i32_max"
  shows "\<exists>out. assemble_of config (emission_graph_of ps i edges) = Ok out \<and> bo_singular_risk out = risk \<and>
    bo_data out = \<lparr>model_version = 5, process_count = int (length ps), flow_count = 1, impact_count = 1,
      technosphere_entries = entries_of (rev (technosphere_map edges)),
      biosphere_entries = [\<lparr>st_row = 0, st_col = i, st_value = Fin 1\<rparr>], characterization_factors = []\<rparr>"
proof -
  have graph: "length (cg_processes (emission_graph_of ps i edges)) = length ps" "length (cg_flows (emission_graph_of ps i edges)) = 1"
      "cg_technosphere_edges (emission_graph_of ps i edges) = edges"
    by (simp_all add: emission_graph_of_def)
  have len: "length (entries_of (rev (technosphere_map edges))) < 2 ^ 63" using assms(2) by (simp add: entries_of_def)
  have "length (filter P (entries_of (rev (technosphere_map edges)))) < 2 ^ 63" for P
    by (rule le_less_trans [OF length_filter_le len])
  then have scale: "\<exists>s. matrix_scale_of n 1 1 (entries_of (rev (technosphere_map edges))) (entries_of [((0, i), Fin 1)]) [] z = Ok s" for n z
    using len by (simp add: matrix_scale_of_def i64_count_def Let_def entries_of_def)
  then obtain s where s: "matrix_scale_of (int (length ps)) 1 1 (entries_of (rev (technosphere_map edges))) (entries_of [((0, i), Fin 1)]) []
      (m_zero_diagonal_count risk) = Ok s" by blast
  show ?thesis
    unfolding assemble_sparse_payload_def assemble_sparse_payload_with_selection_def emission_map graph assms(1)
    using s assms(3) by (simp add: i32_try_from_def i32_max_def assms(1) characterization_entries_def build_snapshot_impact_map_def entries_of_def [of "[((0, i), Fin 1)]"])
qed

lemma assemble_example_runs:
  assumes "singular_risk_of 3 (Fin 1) (Fin 0) (technosphere_map edges) (entries_of (rev (technosphere_map edges))) = Ok risk"
    and "length (technosphere_map edges) < 2 ^ 63"
  shows "\<exists>out. assemble_example edges = Ok out \<and> bo_singular_risk out = risk \<and>
    bo_data out = \<lparr>model_version = 5, process_count = 3, flow_count = 1, impact_count = 1,
      technosphere_entries = entries_of (rev (technosphere_map edges)),
      biosphere_entries = [\<lparr>st_row = 0, st_col = 1, st_value = Fin 1\<rparr>], characterization_factors = []\<rparr>"
proof -
  have n: "length link_processes = 3" by (simp add: link_processes_def)
  have "int 3 \<le> i32_max" by (simp add: i32_max_def)
  from assemble_of_runs [where ps = link_processes and config = open_config and i = 1, unfolded n, OF assms this]
  show ?thesis by simp
qed

lemma no_edges: "technosphere_map [] = []" "a_coefficient [] r c = None"
  by (simp_all add: technosphere_map_def a_coefficient_def edge_values_def total_above_def)

definition self_loop :: compiled_technosphere_edge where
  "self_loop = \<lparr>cte_provider_idx = 0, cte_consumer_idx = 0, cte_flow_id = 7, cte_amount = Fin 1,
     cte_provider_partition = Public, cte_consumer_partition = Public, cte_partition = PublicToPublic\<rparr>"

lemma loop_map: "technosphere_map [self_loop] = [((0, 0), Fin 1)]" "a_coefficient [self_loop] 0 0 = Some (Fin 1)"
    "i \<noteq> 0 \<Longrightarrow> a_coefficient [self_loop] i i = None"
  by (simp_all add: technosphere_map_def self_loop_def add_technosphere_edge_def epsilon_exceeded f_add_def
      a_coefficient_def edge_values_def total_above_def)

text \<open>A single process with an emission passes the readiness gate under an open boundary.\<close>

definition lone_data :: model_sparse_data where
  "lone_data = \<lparr>model_version = 5, process_count = 1, flow_count = 1, impact_count = 1, technosphere_entries = [],
     biosphere_entries = [\<lparr>st_row = 0, st_col = 0, st_value = Fin 1\<rparr>], characterization_factors = []\<rparr>"

definition lone_bm :: built_matrices where
  "lone_bm = \<lparr>bm_m = example_matrix, bm_b = example_matrix,
     bm_c = \<lparr>nrows = 1, ncols = 1, col_ptr = [0, 0], row_idx = [], vals = []\<rparr>, m_nnz = 1, b_nnz = 1, c_nnz = 0\<rparr>"

lemma lone_threshold: "f_le (Fin 1) (round64 (1 / 10 ^ 15)) = False" "f_lt (round64 (1 / 10 ^ 15)) (Fin 1) = True"
  by code_simp+

lemma lone_build_above:
  assumes "\<not> f_le (Fin 1) eps" and "f_lt eps (Fin 1)"
  shows "build (data_builder_new eps) lone_data = Ok lone_bm"
  using assms
  by (simp add: build_def lone_data_def data_builder_new_def to_matrix_triplet_def
        unit_triplet_def from_triplet_iter_def acc_step_def ensure_def range_contains_def
        acc_entries_def csc_of_entries_def csc_new_def Let_def usize_try_from_def
        count_step_def prefix_step_def f_add_def validate_def wrap_i32_def example_matrix_def
        subslice_def ok_or_def lone_bm_def nnz_def map_err_def upt_Suc)

lemma lone_build: "build data_builder_default lone_data = Ok lone_bm"
  unfolding data_builder_default_def by (rule lone_build_above) (simp_all only: lone_threshold not_False_eq_True)

lemma lone_workload: "workload_estimate example_env (Fin 8) lone_bm < default_capacity_bytes"
proof -
  have "rne (numeral n) = numeral n" for n by (metis rne_of_int of_int_numeral)
  then show ?thesis
    by (simp add: workload_estimate_def lone_bm_def example_matrix_def example_env_def default_capacity_bytes_def
        estimated_owned_bytes_def saturating_add_def saturating_mul_def u64_max_def Let_def
        f_of_int_def f_mul_def)
qed

lemma lone_prepare: "\<exists>pr service. prepare_service example_renv lone_data = (Ok pr, service)"
proof -
  let ?k = "prepare_key example_env lone_data numeric_options_default"
  let ?p = "\<lparr>pm_factorization = pm_factorization example_model, pm_b = bm_b lone_bm, pm_c = bm_c lone_bm,
     pm_validation = validate_factorization_matrix (bm_m lone_bm) diag_epsilon\<rparr>"
  let ?c = "set_building 0 ?k (svc_cache service_new)"
  have m: "bm_m lone_bm = bm_m example_bm" by (simp add: lone_bm_def example_bm_def)
  have opts: "numeric_options_default = example_options" by (simp add: numeric_options_default_def example_options_def)
  have svc: "svc_builder service_new = data_builder_default" "admission_fill_in_multiplier service_new = Fin 8"
      "capacity_bytes (svc_cache service_new) = default_capacity_bytes"
    by (simp_all add: service_new_def cache_new_def with_capacity_def)
  obtain r c' where r: "set_ready (env_show_uuid example_env) (env_vec_cap example_env) 1 ?k ?p ?c = (r, c')"
    by fastforce
  have i: "cache_inv (env_vec_cap example_env) ?c"
    using service_new_inv [of example_env] by (simp add: service_inv_def inv_set_building)
  have "prepared_owned_bytes (env_vec_cap example_env) ?p \<le> default_capacity_bytes"
    by (simp add: prepared_owned_bytes_def example_env_def lone_bm_def example_model_def default_capacity_bytes_def
      example_matrix_def factorization_owned_bytes_def estimated_owned_bytes_def info_units_to_bytes_def
      saturating_add_def saturating_mul_def u64_max_def f_lt_def f_le_def Let_def)
  then have "\<exists>bytes. r = Ok bytes" using ready_lookup_set_ready(3) [OF i r] svc(3) by simp
  moreover have "\<not> capacity_bytes (svc_cache service_new) < workload_estimate example_env (admission_fill_in_multiplier service_new) lone_bm"
    using lone_workload by (simp add: svc)
  ultimately have "\<exists>pr. fst (prepare example_env 0 1 lone_data example_options service_new) = Ok pr"
    using prepare_set_ready(2) [of service_new lone_data lone_bm example_env numeric_options_default "pm_factorization example_model" 1 0 r c']
      lone_build example_not_rejected(1) example_factorize r
    unfolding opts m by (auto simp: svc)
  then show ?thesis
    unfolding prepare_service_def opts by (simp add: example_renv_def) (metis prod.collapse)
qed

lemma lone_step: "compensated_step (Fin 1, Fin 0) (Fin (- 1), Fin 1) = (Fin 0, Fin 0)"
  by code_simp

lemma lone_residual: "compensated_residual example_matrix [Fin 1] [Fin 1] = Ok [Fin 0]"
  using lone_step
  by (simp add: compensated_residual_def residual_column_def residual_entry_def example_matrix_def usize_try_from_def ensure_def
      f_eq_def f_add_def upt_rec del: compensated_step.simps)

lemma lone_refined: "f_gt (f_abs (Fin 0)) (f_mul Umfpack.f64_epsilon (f_max (Fin 0) (f_abs (Fin 1)))) = False"
  by (simp add: Umfpack.f64_epsilon_def f_mul_def f_max_def f_lt_def)

lemma lone_solve: "solve (identity_lib 0) (pm_factorization example_model) [Fin 1] = Ok [Fin 1]"
proof -
  have f: "uf_matrix (pm_factorization example_model) = example_matrix" by (simp add: example_model_def)
  have "back_substitute (identity_lib 0) (pm_factorization example_model) [Fin 1] = Ok [Fin 1]"
    by (simp add: back_substitute_def identity_lib_def ensure_def UMFPACK_OK_def UMFPACK_WARNING_SINGULAR_def)
  moreover have one: "list_ex P [y] = P y" for P and y :: f64 by simp
  ultimately show ?thesis
    unfolding solve_def refine_def f Let_def lone_residual
    by (simp only: and_then_simps foldl.simps lone_residual lone_refined one simp_thms if_False)
      (simp add: example_matrix_def usize_try_from_def ensure_def)
qed

lemma lone_products: "mul_vector (bm_b lone_bm) [Fin 1] = [Fin 1]" "mul_vector (bm_c lone_bm) [Fin 1] = [Fin 0]"
  by code_simp+

lemma lone_compute: "compute_ok example_renv lone_data (policy_of_config open_config False)"
proof -
  obtain pr service where p: "prepare_service example_renv lone_data = (Ok pr, service)" using lone_prepare by blast
  have svc: "svc_builder service_new = data_builder_default" by (simp add: service_new_def)
  have m: "bm_m lone_bm = bm_m example_bm" by (simp add: lone_bm_def example_bm_def)
  have opts: "numeric_options_default = example_options" by (simp add: numeric_options_default_def example_options_def)
  have n: "process_count lone_data = 1" by (simp add: lone_data_def)
  have env: "re_solver example_renv = example_env" "env_lib example_env = identity_lib 0"
    by (simp_all add: example_renv_def example_env_def)
  have unit: "unit_demand (Suc 0) 0 = [Fin 1]" by (simp add: unit_demand_def)
  obtain bm f where "build data_builder_default lone_data = Ok bm" and "factorize_matrix example_env (bm_m bm) example_options = Ok f"
    and s: "\<And>now' clk rhs so. fst (solve_one example_env now' clk (model_version lone_data) example_options rhs so service) =
        (if length rhs \<noteq> nat 1 then Err (SvcRhsDimensionMismatch (length rhs) (nat 1))
         else case solve (identity_lib 0) f rhs of
                Inl e \<Rightarrow> Err (SvcFactorization e)
              | Inr x \<Rightarrow> Ok \<lparr>sr_x = (if return_x so then Some x else None),
                   sr_g = (if return_g so then Some (mul_vector (bm_b bm) x) else None),
                   sr_h = (if return_h so then Some (mul_vector (bm_c bm) (mul_vector (bm_b bm) x)) else None),
                   sr_factorization_state = Ready\<rparr>)"
    using prepared_solves [OF service_new_inv p [unfolded prepare_service_def], unfolded svc env opts n] by blast
  then have bf: "bm = lone_bm" "f = pm_factorization example_model" by (simp_all add: lone_build m example_factorize)
  have "\<exists>x. fst (sample_solve example_renv lone_data 0 service) = Ok x \<and> finite_result x"
    unfolding sample_solve_def env opts n s bf
    by (simp add: unit lone_solve lone_products finite_result_def usize_try_from_def)
  moreover have "sample_count lone_data (policy_of_config open_config False) = 1"
    by (simp add: sample_count_def n usize_try_from_def policy_of_config_def)
  ultimately show ?thesis unfolding compute_ok_def using p by (auto simp: policy_of_config_def)
qed


lemma lone_ready:
  "\<exists>out. assemble_of open_config (emission_graph_of [hd link_processes] 0 []) = Ok out \<and>
     bo_data out = lone_data \<and> mr_status (bo_readiness out) = ReadinessPassed"
proof -
  let ?g = "emission_graph_of [hd link_processes] 0 []"
  have "\<exists>risk. singular_risk_of (length [hd link_processes]) (Fin 1) (Fin 0) (technosphere_map []) (entries_of (rev (technosphere_map []))) = Ok risk \<and>
      risk_level risk = ''low''"
    by (simp add: no_edges entries_of_def singular_risk_of_def diagonal_of_def i64_count_def Let_def diag_step_def f_sub_def f_add_def f_le_def f_lt_def f_eq_def)
  then obtain risk where risk: "singular_risk_of (length [hd link_processes]) (Fin 1) (Fin 0) (technosphere_map []) (entries_of (rev (technosphere_map []))) = Ok risk"
      "risk_level risk = ''low''" by blast
  have small: "length (technosphere_map []) < 2 ^ 63" "int (length [hd link_processes]) \<le> i32_max" by (simp_all add: no_edges i32_max_def)
  from assemble_of_runs [OF risk(1) small, of open_config 0] obtain out where
    out: "assemble_of open_config ?g = Ok out" "bo_singular_risk out = risk" and data: "bo_data out = lone_data"
    by (auto simp: lone_data_def no_edges entries_of_def)
  from out(1) [unfolded assemble_sparse_payload_def] have "mr_status (bo_readiness out) = ReadinessPassed"
  proof (rule assemble_OkE)
    let ?in = "\<lparr>mi_schema_version = ''matrix_readiness_input.v2'', mi_snapshot_id = Some 5, mi_config = Some open_config, mi_coverage = bo_coverage out, mi_payload = bo_data out,
        mi_compiled_graph = Some ?g, mi_policy = policy_of_config open_config False\<rparr>"
    assume matching: "cov_matching (bo_coverage out) = matching_coverage_of ?g"
      and ref: "cov_reference (bo_coverage out) = reference_coverage_of (int (length (cg_processes ?g))) (cg_reference_stats ?g)"
      and alloc: "cov_allocation (bo_coverage out) = allocation_coverage_of (cg_allocation_stats ?g)"
      and readiness: "bo_readiness out = verify_matrix_readiness example_renv ?in"
    have "graph_ok ?in"
      by (simp add: graph_ok_def ref alloc out(2) risk(2) reference_coverage_of_def allocation_coverage_of_def
          emission_graph_of_def policy_of_config_def Let_def)
    moreover have "boundary_policy_parse (boundary_label ?in) = Ok Open"
      by (simp add: boundary_label_def boundary_policy_parse_def open_config_def)
    moreover have "matched_multi_fallback_equal (smc_stats (cov_matching (bo_coverage out))) \<le> 0"
      by (simp add: matching matching_coverage_of_def emission_graph_of_def matching_stats_default_def Let_def)
    ultimately show ?thesis
      unfolding readiness readiness_decided(1) using lone_compute by (simp add: data)
  qed
  with out(1) data show ?thesis by blast
qed

subsection \<open>Properties\<close>

text \<open>
  C5. From linked exchanges to matrices: when the technosphere edges of a graph are those the
  linker wrote, the payload assembled from it is accepted by the build stage, and in whatever
  order the hash maps were read the matrices are \<open>M = I - A\<close> and \<open>B\<close> with the coefficients the
  edges add up to, each kept only above the thresholds.
\<close>

theorem assembled_payload_builds:
  assumes "\<And>m. mset (order m) = mset m" and "\<And>m. mset (order_c m) = mset m"
    and "compile_signed_flow_balances exchanges space port_map metas (cg_processes graph) rule lineage = Ok batch"
    and "cg_technosphere_edges graph = bb_technosphere_edges batch"
    and "biosphere_in_range graph" and "cg_processes graph \<noteq> []" and "cg_flows graph \<noteq> []"
    and "assemble_sparse_payload renv config order order_c order_g snapshot_id has_lcia graph cutoff singular_eps
           has_lcia impacts observations directional = Ok out"
    and "data_fits_i32 (bo_data out)" and "\<not> f_le (Fin 1) (zero_epsilon self)"
  shows "\<exists>bm. build self (bo_data out) = Ok bm \<and> csc_valid (bm_m bm) \<and> csc_valid (bm_b bm) \<and> csc_valid (bm_c bm) \<and>
    shape (bm_m bm) = (int (length (cg_processes graph)), int (length (cg_processes graph))) \<and>
    (\<forall>r c. c < length (cg_processes graph) \<longrightarrow>
       csc_entry (bm_m bm) r c = total_above (zero_epsilon self)
         (map f_neg (above (zero_epsilon self) (a_coefficient (cg_technosphere_edges graph) (int r) (int c))) @
          (if r = c then [Fin 1] else [])) \<and>
       csc_entry (bm_b bm) r c = total_above (zero_epsilon self)
         (above (zero_epsilon self) (b_coefficient directional (cg_biosphere_edges graph) (int r) (int c))))"
  using assms(8) unfolding assemble_sparse_payload_def
proof (rule assemble_OkE)
  fix b_map c_entries
  assume b: "biosphere_map (cg_biosphere_edges graph) directional = Ok b_map"
    and counts: "process_count (bo_data out) = int (length (cg_processes graph))"
    and data: "technosphere_entries (bo_data out) = entries_of (order (technosphere_map (cg_technosphere_edges graph)))"
      "biosphere_entries (bo_data out) = entries_of (order b_map)"
  note range = assembled_in_range [OF assms(8) [unfolded assemble_sparse_payload_def] assms(1,2)
      linked_edges_in_range [OF assms(3,4)] assms(5-7)]
  have a: "values_at eps (technosphere_entries (bo_data out)) r c = above eps (a_coefficient (cg_technosphere_edges graph) (int r) (int c))"
    for eps r c
    unfolding data entries_of_values [OF assms(1) technosphere_map_facts(1)] technosphere_map_facts(3) above_def ..
  have bv: "values_at eps (biosphere_entries (bo_data out)) r c = above eps (b_coefficient directional (cg_biosphere_edges graph) (int r) (int c))"
    for eps r c
    unfolding data entries_of_values [OF assms(1) biosphere_map_facts(1) [OF b]] biosphere_map_facts(3) [OF b] above_def ..
  from build_facts [OF range assms(9,10)] show ?thesis unfolding a bv counts nat_int by blast
qed

theorem assembled_payload_builds_witness:
  "\<exists>out bm. assemble_example [] = Ok out \<and> build (data_builder_new (Fin 0)) (bo_data out) = Ok bm \<and>
     csc_entry (bm_m bm) 0 0 = Some (Fin 1) \<and> csc_entry (bm_m bm) 0 1 = None \<and> csc_entry (bm_b bm) 0 1 = Some (Fin 1)"
proof -
  have "\<exists>risk. singular_risk_of 3 (Fin 1) (Fin 0) (technosphere_map []) (entries_of (rev (technosphere_map []))) = Ok risk"
    by (simp add: no_edges entries_of_def singular_risk_of_def diagonal_of_def i64_count_def Let_def)
  then obtain risk where risk: "singular_risk_of 3 (Fin 1) (Fin 0) (technosphere_map []) (entries_of (rev (technosphere_map []))) = Ok risk"
    by blast
  obtain out where out: "assemble_example [] = Ok out" and data: "bo_data out =
      \<lparr>model_version = 5, process_count = 3, flow_count = 1, impact_count = 1,
      technosphere_entries = entries_of (rev (technosphere_map [])),
      biosphere_entries = [\<lparr>st_row = 0, st_col = 1, st_value = Fin 1\<rparr>], characterization_factors = []\<rparr>"
    using assemble_example_runs [OF risk] by (auto simp: no_edges)
  have graph: "cg_technosphere_edges (emission_graph []) = []" "cg_processes (emission_graph []) = link_processes"
      "cg_processes (emission_graph []) \<noteq> []" "cg_flows (emission_graph []) \<noteq> []" "biosphere_in_range (emission_graph [])"
      "length (cg_processes (emission_graph [])) = 3"
    by (simp_all add: emission_graph_of_def biosphere_in_range_def link_processes_def)
  have b: "b_coefficient False (cg_biosphere_edges (emission_graph [])) 0 1 = Some (Fin 1)"
    by (simp add: b_coefficient_def emission_values_def emission_graph_of_def retain_sparse_value_def epsilon_exceeded f_add_def Let_def)
  have comp: "compile_signed_flow_balances [] (\<lambda>_. None) [] [] (cg_processes (emission_graph [])) SplitEqual no_lineage = Ok empty_batch"
    by (simp add: compile_signed_flow_balances_def)
  have edges: "cg_technosphere_edges (emission_graph []) = bb_technosphere_edges empty_batch" by (simp add: graph empty_batch_def)
  have fits: "data_fits_i32 (bo_data out)" by (simp add: data data_fits_i32_def no_edges entries_of_def i32_max_def)
  have eps: "\<not> f_le (Fin 1) (zero_epsilon (data_builder_new (Fin 0)))" by (simp add: data_builder_new_def f_le_def f_lt_def f_eq_def)
  from assembled_payload_builds [OF mset_rev mset_rev comp edges graph(5,3,4) out fits eps]
  obtain bm where bm: "build (data_builder_new (Fin 0)) (bo_data out) = Ok bm"
    "\<And>r c. c < 3 \<Longrightarrow> csc_entry (bm_m bm) r c = total_above (Fin 0) (if r = c then [Fin 1] else [])"
    "csc_entry (bm_b bm) 0 1 = total_above (Fin 0) (above (Fin 0) (b_coefficient False (cg_biosphere_edges (emission_graph [])) 0 1))"
    unfolding graph(6) by (auto simp: graph(1) no_edges above_def data_builder_new_def)
  have "csc_entry (bm_m bm) 0 0 = Some (Fin 1)" "csc_entry (bm_m bm) 0 1 = None"
    using bm(2) [of 0 0] bm(2) [of 1 0] by (simp_all add: total_above_def f_add_def f_lt_def)
  moreover have "csc_entry (bm_b bm) 0 1 = Some (Fin 1)"
    using bm(3) unfolding b by (simp add: above_def total_above_def f_add_def f_lt_def f_le_def f_eq_def)
  ultimately show ?thesis using out bm(1) by blast
qed

text \<open>
  C38. The singular-risk section of the coverage report is right about the matrix: the count is
  the number of processes whose diagonal entry \<open>1 - a\<close> is within the tolerance of zero, the risk
  is high exactly when there is one, and the diagonal counts before and after filtering agree.
\<close>

theorem singular_risk_exact:
  assumes "\<And>m. mset (order m) = mset m"
    and "assemble_sparse_payload renv config order order_c order_g snapshot_id method_has_lcia graph cutoff singular_eps
           has_lcia impacts observations directional = Ok out"
  shows "m_zero_diagonal_count (bo_singular_risk out) =
      int (length (filter (\<lambda>i. f_le (f_abs (f_sub (Fin 1)
        (unwrap_or (a_coefficient (cg_technosphere_edges graph) (int i) (int i)) (Fin 0)))) singular_eps) [0..<length (cg_processes graph)])) \<and>
    (risk_level (bo_singular_risk out) = ''high'' \<longleftrightarrow> 0 < m_zero_diagonal_count (bo_singular_risk out)) \<and>
    prefilter_diag_abs_ge_cutoff (bo_singular_risk out) = postfilter_a_diag_abs_ge_cutoff (bo_singular_risk out)"
  using assms(2) unfolding assemble_sparse_payload_def
proof (rule assemble_OkE)
  let ?m = "technosphere_map (cg_technosphere_edges graph)"
  let ?d = "map (\<lambda>((r, c), v). (r, v)) (filter (\<lambda>((r, c), v). r = c) (order ?m))"
  assume risk: "singular_risk_of (length (cg_processes graph)) cutoff singular_eps ?m (entries_of (order ?m)) = Ok (bo_singular_risk out)"
  have dist: "distinct (map fst (order ?m))"
    using assms(1) [of ?m] technosphere_map_facts(1) by (metis mset_map mset_eq_imp_distinct_iff)
  have mm: "map_of (order ?m) k = map_of ?m k" for k
    using assms(1) [of ?m] technosphere_map_facts(1) dist by (metis map_of_inject_set mset_eq_setD)
  have diag: "diagonal_of (entries_of (order ?m)) = ?d"
    by (rule diagonal_of_entries [OF dist]) (use technosphere_values_rounded mset_eq_setD [OF assms(1) [of ?m]] in blast)
  have entry: "map_of ?d i = a_coefficient (cg_technosphere_edges graph) i i" for i
    unfolding map_of_diagonal [OF dist] mm technosphere_map_facts(3) ..
  have diag_count: "length (filter (\<lambda>e. f_ge (f_abs (snd e)) cutoff) (map (\<lambda>((r, c), v). (r, v)) (filter (\<lambda>((r, c), v). r = c) xs))) =
      length (filter (\<lambda>((r, c), v). r = c \<and> f_ge (f_abs v) cutoff) xs)" for xs :: position_map
    by (induction xs) auto
  have same: "length (filter (\<lambda>e. f_ge (f_abs (snd e)) cutoff) ?d) =
      length (filter (\<lambda>((r, c), v). r = c \<and> f_ge (f_abs v) cutoff) ?m)"
    unfolding diag_count by (metis assms(1) mset_filter size_mset)
  define k where "k = bo_singular_risk out"
  from risk [folded k_def] show ?thesis
    unfolding singular_risk_of_def and_then_Ok_iff ok_or_Ok_iff Let_def diag same k_def [symmetric]
    by (auto simp: diag_fold entry split: if_splits)
qed

theorem singular_risk_exact_witness:
  "\<exists>out. assemble_example [self_loop] = Ok out \<and> m_zero_diagonal_count (bo_singular_risk out) = 1 \<and>
     risk_level (bo_singular_risk out) = ''high''"
proof -
  have "\<exists>risk. singular_risk_of 3 (Fin 1) (Fin 0) (technosphere_map [self_loop]) (entries_of (rev (technosphere_map [self_loop]))) = Ok risk"
    by (simp add: loop_map entries_of_def singular_risk_of_def diagonal_of_def i64_count_def Let_def)
  then obtain risk where risk: "singular_risk_of 3 (Fin 1) (Fin 0) (technosphere_map [self_loop])
      (entries_of (rev (technosphere_map [self_loop]))) = Ok risk" by blast
  obtain out where out: "assemble_example [self_loop] = Ok out"
    using assemble_example_runs [OF risk] by (auto simp: loop_map)
  have n: "length (cg_processes (emission_graph [self_loop])) = 3" "cg_technosphere_edges (emission_graph [self_loop]) = [self_loop]"
    by (simp_all add: emission_graph_of_def link_processes_def)
  have "[0..<3] = [0, 1, 2 :: nat]" by (simp add: upt_rec)
  with singular_risk_exact [OF mset_rev out] have "m_zero_diagonal_count (bo_singular_risk out) = 1"
    "risk_level (bo_singular_risk out) = ''high''"
    unfolding n by (simp_all add: loop_map f_sub_def f_add_def f_le_def f_lt_def f_eq_def)
  with out show ?thesis by blast
qed

text \<open>
  C6. A snapshot that passes the readiness gate can be computed. Its singular risk is not high;
  under a closed boundary the linker has left no balance unresolved; and the build stage and the
  factorization succeed on its payload, and the unit demands of the first sixteen processes have
  solutions that are finite in activities, flows and impacts.
\<close>

theorem ready_snapshot_computes:
  assumes "assemble_sparse_payload renv config order order_c order_g snapshot_id method_has_lcia graph cutoff singular_eps
           has_lcia impacts observations directional = Ok out"
    and "compile_signed_flow_balances exchanges space port_map metas processes rule lineage = Ok batch"
    and "cg_matching_stats graph = bb_matching_stats batch"
    and "mr_status (bo_readiness out) = ReadinessPassed"
  shows "risk_level (bo_singular_risk out) \<noteq> ''high'' \<and>
    (technosphere_boundary_policy config = ''closed'' \<longrightarrow> bb_unresolved batch = []) \<and>
    (\<exists>bm f. build data_builder_default (bo_data out) = Ok bm \<and>
       factorize_matrix (re_solver renv) (bm_m bm) numeric_options_default = Ok f \<and>
       (\<forall>i < min (length (cg_processes graph)) 16. \<exists>x.
          solve (env_lib (re_solver renv)) f (unit_demand (length (cg_processes graph)) i) = Ok x \<and>
          list_all is_finite (x @ mul_vector (bm_b bm) x @ mul_vector (bm_c bm) (mul_vector (bm_b bm) x))))"
  using assms(1) unfolding assemble_sparse_payload_def
proof (rule assemble_OkE)
  let ?in = "\<lparr>mi_schema_version = ''matrix_readiness_input.v2'', mi_snapshot_id = Some snapshot_id, mi_config = Some config, mi_coverage = bo_coverage out, mi_payload = bo_data out,
        mi_compiled_graph = Some graph, mi_policy = policy_of_config config has_lcia\<rparr>"
  assume counts: "process_count (bo_data out) = int (length (cg_processes graph))"
    and matching: "cov_matching (bo_coverage out) = matching_coverage_of graph"
    and readiness: "bo_readiness out = verify_matrix_readiness renv ?in"
  from assms(4) [unfolded readiness readiness_decided(1)] obtain boundary where
    boundary: "boundary_policy_parse (boundary_label ?in) = Ok boundary" "requires_closure boundary \<longrightarrow> closure_ok ?in"
    and graph: "graph_ok ?in" and compute: "compute_ok renv (bo_data out) (policy_of_config config has_lcia)"
    by (auto simp: policy_of_config_def)
  have "risk_level (bo_singular_risk out) \<noteq> ''high''"
    using graph by (auto simp: graph_ok_def policy_of_config_def Let_def)
  moreover have "bb_unresolved batch = []" if "technosphere_boundary_policy config = ''closed''"
  proof -
    have "boundary = Closed" using boundary(1) that by (simp add: boundary_label_def boundary_policy_parse_def)
    with boundary(2) have "unmatched_no_provider (bb_matching_stats batch) \<le> 0" "matched_multi_unresolved (bb_matching_stats batch) \<le> 0"
      by (simp_all add: closure_ok_def policy_of_config_def matching matching_coverage_of_def assms(3) Let_def)
    with stats_balanced_compile [OF assms(2)] have "int (length (bb_unresolved batch)) \<le> 0"
      by (simp add: stats_balanced_def Let_def)
    then show ?thesis by simp
  qed
  moreover have "sample_count (bo_data out) (policy_of_config config has_lcia) = min (length (cg_processes graph)) 16"
    by (simp add: sample_count_def counts policy_of_config_def usize_try_from_def)
  ultimately show ?thesis using compute_ok_solves [OF compute] unfolding counts nat_int by simp
qed

text \<open>
  C40. A snapshot whose processes have no technosphere exchange to balance never passes the gate
  of the builder under a closed boundary: the share of written exchanges is reported as zero per
  cent, below the required hundred, besides the warning that there is nothing to check.
\<close>

theorem no_inputs_never_ready:
  assumes "assemble_sparse_payload renv config order order_c order_g snapshot_id method_has_lcia graph cutoff singular_eps
           has_lcia impacts observations directional = Ok out"
    and "input_edges_total (cg_matching_stats graph) = 0" and "technosphere_boundary_policy config = ''closed''"
  shows "mr_status (bo_readiness out) = ReadinessFailed"
  using assms(1) unfolding assemble_sparse_payload_def
proof (rule assemble_OkE)
  let ?in = "\<lparr>mi_schema_version = ''matrix_readiness_input.v2'', mi_snapshot_id = Some snapshot_id, mi_config = Some config, mi_coverage = bo_coverage out, mi_payload = bo_data out,
        mi_compiled_graph = Some graph, mi_policy = policy_of_config config has_lcia\<rparr>"
  assume matching: "cov_matching (bo_coverage out) = matching_coverage_of graph"
    and readiness: "bo_readiness out = verify_matrix_readiness renv ?in"
  have "\<not> closure_ok ?in"
    by (simp add: closure_ok_def matching matching_coverage_of_def assms(2) pct_def policy_of_config_def f_lt_def Let_def)
  moreover have "boundary_policy_parse (boundary_label ?in) = Ok Closed"
    by (simp add: boundary_label_def boundary_policy_parse_def assms(3))
  ultimately have "mr_status (bo_readiness out) \<noteq> ReadinessPassed"
    unfolding readiness readiness_decided(1) by simp
  then show ?thesis by (cases "mr_status (bo_readiness out)") simp_all
qed

theorem ready_snapshot_computes_witness:
  "\<exists>out bm f x. assemble_of open_config (emission_graph_of [hd link_processes] 0 []) = Ok out \<and>
     build data_builder_default (bo_data out) = Ok bm \<and> factorize_matrix example_env (bm_m bm) numeric_options_default = Ok f \<and>
     solve (identity_lib 0) f [Fin 1] = Ok x \<and> list_all is_finite x"
proof -
  let ?g = "emission_graph_of [hd link_processes] 0 []"
  obtain out where out: "assemble_of open_config ?g = Ok out" "mr_status (bo_readiness out) = ReadinessPassed"
    using lone_ready by blast
  have comp: "compile_signed_flow_balances [] (\<lambda>_. None) [] [] [] SplitEqual no_lineage = Ok empty_batch"
    by (simp add: compile_signed_flow_balances_def)
  have stats: "cg_matching_stats ?g = bb_matching_stats empty_batch" by (simp add: emission_graph_of_def empty_batch_def)
  have n: "length (cg_processes ?g) = 1" by (simp add: emission_graph_of_def)
  have env: "re_solver example_renv = example_env" "env_lib example_env = identity_lib 0" "unit_demand 1 0 = [Fin 1]"
    by (simp_all add: example_renv_def example_env_def unit_demand_def)
  from ready_snapshot_computes [OF out(1) comp stats out(2), unfolded n env] obtain bm f where
    "build data_builder_default (bo_data out) = Ok bm" "factorize_matrix example_env (bm_m bm) numeric_options_default = Ok f"
    "\<exists>x. solve (identity_lib 0) f (unit_demand 1 0) = Ok x \<and>
       list_all is_finite (x @ mul_vector (bm_b bm) x @ mul_vector (bm_c bm) (mul_vector (bm_b bm) x))" by fastforce
  with out(1) show ?thesis unfolding env by auto
qed

theorem no_inputs_never_ready_witness:
  "\<exists>out. assemble_of closed_config (emission_graph []) = Ok out \<and> mr_status (bo_readiness out) = ReadinessFailed"
proof -
  have "\<exists>risk. singular_risk_of (length link_processes) (Fin 1) (Fin 0) (technosphere_map []) (entries_of (rev (technosphere_map []))) = Ok risk"
    by (simp add: no_edges entries_of_def singular_risk_of_def diagonal_of_def i64_count_def Let_def)
  then obtain risk where risk: "singular_risk_of (length link_processes) (Fin 1) (Fin 0) (technosphere_map []) (entries_of (rev (technosphere_map []))) = Ok risk"
    by blast
  have small: "length (technosphere_map []) < 2 ^ 63" "int (length link_processes) \<le> i32_max"
    by (simp_all add: no_edges i32_max_def link_processes_def)
  from assemble_of_runs [OF risk small, of closed_config 1] obtain out where out: "assemble_of closed_config (emission_graph []) = Ok out"
    by blast
  have "input_edges_total (cg_matching_stats (emission_graph [])) = 0" "technosphere_boundary_policy closed_config = ''closed''"
    by (simp_all add: emission_graph_of_def matching_stats_default_def closed_config_def)
  from no_inputs_never_ready [OF out this] out show ?thesis by blast
qed

end
