(* ===== verification/Spec2Isabelle.thy ===== *)
theory Spec2Isabelle
  imports Solver_Service Resource_Admission Matrix_Assembly
begin

text \<open>
  Verification library of the life-cycle-assessment calculator (Rust workspace under \<open>crates/\<close>).

  \<^bold>\<open>The program.\<close> A worker compiles a snapshot of life-cycle data into a sparse linear model,
  factorizes \<open>M = I - A\<close>, and solves \<open>M x = y\<close>, \<open>g = B x\<close>, \<open>h = C g\<close> for requests. Its parts:
  the snapshot builder links every exchange of a process to the processes that balance it and
  writes the technosphere and biosphere entries; the build stage turns the entries into CSC
  matrices; the UMFPACK wrapper factorizes and solves with one refinement step; the solver
  service keeps factorizations in a cache with a byte budget; path analysis explains a result by
  walking the supply chain upstream; resource admission decides whether a job fits the machine.

  \<^bold>\<open>Theories and sources\<close> (paths below \<open>crates/\<close>).
  \<^item> \<open>Prelude\<close>: results with \<open>and_then\<close> (the question mark), \<open>traverse\<close> and \<open>fold_result\<close> (loops
    that return early), fixed-width integers, stable sorting; the locale \<open>total_preorder\<close> is
    the contract of a comparator, interpreted on every comparator of the code.
  \<^item> \<open>F64\<close>, \<open>F64_Exact\<close>: binary64 as rationals with signed zero, infinities and NaN, every operation
    rounded to nearest even; the error-free transformations and rounding bounds.
  \<^item> \<open>Rust_Text\<close>, \<open>Json\<close>, \<open>Rust_Number\<close>: the string operations, the JSON values and the number
    parsing the code uses.
  \<^item> \<open>Csc_Matrix\<close>: \<open>suitesparse-ffi/src/matrix.rs\<close>; building a matrix from triplets sums per position
    against a threshold, validation decides the CSC invariant, the product is the row sum.
  \<^item> \<open>Umfpack\<close>: \<open>suitesparse-ffi/src/umfpack.rs\<close>; the C library is an argument, its documented
    behaviour a named hypothesis with an instance. Residuals are the compensated sums, each
    update is error-free, the solve refines at most once and never keeps a non-finite update;
    handles are released, except on the singular warning.
  \<^item> \<open>Matrix_Validator\<close>, \<open>Data_Builder\<close>: \<open>solver-core/src/validator.rs\<close> and \<open>data_builder.rs\<close>.
  \<^item> \<open>Factorization_Cache\<close>: \<open>solver-core/src/cache.rs\<close> as a state machine; its invariant in every
    reachable state, least-recently-used eviction, and the refinement of a partial map. The
    locale \<open>model_cache\<close> is the interface the service relies on.
  \<^item> \<open>Solver_Service\<close>: \<open>solver-core/src/service.rs\<close>; what a solve returns after a prepare, the
    state after every error, memory bounds, invalidation and batches.
  \<^item> \<open>Resource_Admission\<close>: \<open>solver-worker/src/resource.rs\<close>.
  \<^item> \<open>Contribution_Path\<close>: \<open>solver-worker/src/contribution_path.rs\<close>; the depth-first walk is total
    and bounded, its branches are supply chains, the listed contributions are exact.
  \<^item> \<open>Signed_Flow\<close>: \<open>solver-worker/src/signed_flow.rs\<close>; signs, pivots and the weighted balance.
  \<^item> \<open>Compiled_Graph\<close>: the records of \<open>compiled_graph.rs\<close> and \<open>graph_types.rs\<close>.
  \<^item> \<open>Provider_Lineage\<close>: life-cycle models, their transitive components, complete in every order of
    the hash map for models without cycles and dependent on it for models on a cycle, and the gate that keeps a
    model's result and its parts from both supplying a flow (\<open>bin/snapshot_builder.rs\<close>).
  \<^item> \<open>Provider_Linking\<close>, \<open>Balance_Compilation\<close>: locations, scores, provider rules and the balance
    loop of \<open>bin/snapshot_builder.rs\<close>, and their correctness: one decision per residual
    exchange, counters that add up, edges that are justified and well formed.

  \<^item> \<open>Tidas_Allocation\<close>: \<open>solver-worker/src/tidas_process_semantics.rs\<close>; declared shares, targeted
    vectors and legacy shapes resolve to one share in the unit interval per exchange.
  \<^item> \<open>Process_Parsing\<close>: the JSON readers of \<open>bin/snapshot_builder.rs\<close>, from a process document to its
    exchanges; what a parsed process guarantees to the linker.
  \<^item> \<open>Process_Selection\<close>: the choice of the processes of a snapshot. With request roots the work
    list selects exactly the candidates reachable along the links the provider rule makes on the
    tables of all candidates, the least set closed under the linker's decisions there. The
    linker of the snapshot later reads the selected processes only, so a rule that compares
    providers may decide differently once a rival is not selected.
  \<^item> \<open>Lcia_Coverage\<close>: which exchanges have characterization factors, per impact category; the counts
    and the records of the gaps are exactly those of the list of exchanges.
  \<^item> \<open>Snapshot_Coverage\<close>: the compiled graph, the coverage report of \<open>snapshot_artifacts.rs\<close> and the
    summary of the provider decisions; its counters are exact.
  \<^item> \<open>Matrix_Readiness\<close>: \<open>solver-worker/src/readiness.rs\<close>; the gate passes exactly when the policy
    is satisfied and a trial factorization with sampled solves succeeds.
  \<^item> \<open>Matrix_Assembly\<close>: sparse payload, index document and reports from the compiled graph; the
    payload of linked exchanges builds, the risk section is right about the diagonal, and a
    snapshot that passes the gate can be computed.

  \<^bold>\<open>Composition.\<close> \<open>compile_signed_flow_balances\<close> calls the lineage gate, the provider rules and
  \<open>resolve_weighted_balance\<close>; \<open>assemble_sparse_payload\<close> takes the edges it wrote to the entries
  \<open>build\<close> reads and calls the readiness gate, which calls \<open>prepare\<close> and \<open>solve_one\<close>; \<open>prepare\<close> calls
  \<open>build\<close>, the validator, the wrapper and the cache, and \<open>solve_one\<close> the cache, the wrapper and
  \<open>mul_vector\<close>, each as the code does.

  \<^bold>\<open>Conventions.\<close> A struct is a record, an enum a datatype, an error a value of \<open>result\<close>. \<open>i32\<close>
  values wrap as in a release build; \<open>u64\<close> and \<open>usize\<close> have 64 bits and saturate or are checked
  where the code says so. Hash maps are association lists; where the code iterates over one, the
  order is an argument. Clocks, UUID printing and parsing, hash functions, the UMFPACK library
  and pseudo file systems are arguments. Loops are total functions: eviction decreases the number
  of entries, the walk the depth left, model expansion the models
  not yet on the path, the selection the candidates not yet selected and the queue; no fuel is used.

  \<^bold>\<open>Not modelled.\<close> SQL, S3, HTTP and HDF5 input and output (\<open>db.rs\<close>, \<open>queue.rs\<close>, \<open>storage.rs\<close>,
  \<open>http.rs\<close>, package import and export, garbage collection, job claiming, the loading of rows in the
  snapshot builder), since it is asynchronous and lives in other systems; scope closure, whose
  state is interleaved with database pages; calculation bundles and result queries, which are
  serialization formats; the study subsystem; the graph cache with its region table; the AI
  client, tracing, tests and tools. The build configuration is reduced to the two settings the
  modelled code reads, and the release evidence of a compiled graph to its technosphere edges.
\<close>

end
